(* ===== verification/Prelude.thy ===== *)
theory Prelude
  imports Main "HOL-Library.Sublist" "HOL-Library.Multiset" "HOL-Library.AList"
    "HOL-Library.Char_ord" "HOL-Library.List_Lexorder" "HOL-Library.Product_Lexorder"
begin

text \<open>
  Shared vocabulary of the development: the collections of facts that the component
  theories feed and their proofs use, the sequential-insertion function that models the
  code's \<open>seen\<close>-map loops, an order-preserving find, and generic lemmas on lists,
  association lists and sorted pages that several components need.
\<close>

section \<open>Collections\<close>

named_theorems keeps \<open>an operation keeps an invariant\<close>
named_theorems frame \<open>what an operation leaves unchanged\<close>
named_theorems result_iff \<open>when an operation returns which kind of result\<close>

type_synonym 'a go_slice = "'a list"

section \<open>Go's map with one value per key, in some iteration order\<close>

text \<open>
  A Go map is an association list with distinct keys. Its order is the order in which a
  \<open>range\<close> over the map happens to visit the keys, which Go leaves open; where the code
  ranges over a map, theorems quantify over that order.
\<close>

type_synonym 'v go_map = "(string \<times> 'v) list"

abbreviation is_go_map :: "'v go_map \<Rightarrow> bool" where
  "is_go_map m \<equiv> distinct (map fst m)"

abbreviation go_get :: "'v go_map \<Rightarrow> string \<Rightarrow> 'v option" where
  "go_get m k \<equiv> map_of m k"

abbreviation go_put :: "string \<Rightarrow> 'v \<Rightarrow> 'v go_map \<Rightarrow> 'v go_map" where
  "go_put k v m \<equiv> AList.update k v m"

lemma keys_go_put: "fst ` set (go_put k v m) = insert k (fst ` set m)"
  by (simp add: dom_map_of_conv_image_fst [symmetric] update_conv')

lemma go_map_perm_lookup:
  assumes "is_go_map m" and "mset m' = mset m"
  shows "is_go_map m'" and "map_of m' = map_of m"
proof -
  have "mset (map fst m') = mset (map fst m)"
    using assms(2) by simp
  then show d: "is_go_map m'"
    using assms(1) mset_eq_imp_distinct_iff by blast
  have "set m' = set m" by (metis assms(2) set_mset_mset)
  then show "map_of m' = map_of m"
    using d assms(1) by (simp add: map_of_inject_set)
qed

section \<open>Keeping the first occurrence\<close>

text \<open>
  \<open>dedup seen xs\<close> is the loop with a \<open>seen\<close> map used in three places of the code: it
  drops a value met before and keeps the order of first occurrences.
\<close>

fun dedup :: "'a list \<Rightarrow> 'a list \<Rightarrow> 'a list" where
  "dedup seen [] = []"
| "dedup seen (x # xs) =
     (if x \<in> set seen then dedup seen xs else x # dedup (x # seen) xs)"

lemma set_dedup: "set (dedup seen xs) = set xs - set seen"
  by (induction seen xs rule: dedup.induct) auto

lemma distinct_dedup: "distinct (dedup seen xs)"
  by (induction seen xs rule: dedup.induct) (auto simp: set_dedup)

lemma dedup_id: "distinct xs \<Longrightarrow> set xs \<inter> set seen = {} \<Longrightarrow> dedup seen xs = xs"
  by (induction seen xs rule: dedup.induct) auto

lemma subseq_dedup: "subseq (dedup seen xs) xs"
  by (induction seen xs rule: dedup.induct) (auto intro: list_emb_Cons)

lemma length_dedup_le: "length (dedup seen xs) \<le> length xs"
  by (induction seen xs rule: dedup.induct) auto

section \<open>Lists\<close>

lemma find_SomeD: "find P xs = Some x \<Longrightarrow> x \<in> set xs \<and> P x"
  by (auto simp: find_Some_iff)

lemma find_NoneD: "find P xs = None \<Longrightarrow> x \<in> set xs \<Longrightarrow> \<not> P x"
  by (auto simp: find_None_iff)

lemma filter_eq_single:
  assumes "distinct (map f xs)" and "x \<in> set xs"
  shows "filter (\<lambda>y. f y = f x) xs = [x]"
  using assms by (induction xs) (auto simp: filter_empty_conv image_iff)

lemma distinct_map_key: "distinct (map f xs) \<Longrightarrow> x \<in> set xs \<Longrightarrow> y \<in> set xs \<Longrightarrow> f x = f y \<Longrightarrow> x = y"
  by (auto simp: distinct_map inj_on_def)

lemma find_key_iff:
  "distinct (map f xs) \<Longrightarrow> find (\<lambda>x. f x = c) xs = Some x \<longleftrightarrow> x \<in> set xs \<and> f x = c"
proof (induction xs)
  case (Cons y ys)
  then show ?case by (cases "f y = c") (auto simp: image_iff)
qed simp

lemma find_key_None_iff: "find (\<lambda>x. f x = c) xs = None \<longleftrightarrow> c \<notin> f ` set xs"
  by (auto simp: find_None_iff)

lemma page_concat: "take n xs @ take m (drop n xs) = take (n + m) xs"
  by (metis take_add)

lemma map_filter_append: "List.map_filter f (xs @ ys) = List.map_filter f xs @ List.map_filter f ys"
  by (simp add: List.map_filter_def)

end
