(* ===== verification/GoStrings.thy ===== *)
theory GoStrings
  imports Prelude
begin

text \<open>
  The operations of Go's packages \<open>strings\<close> that the service uses, on Go strings, which
  are byte sequences: a \<open>string\<close> here is the list of the bytes, so a code point beyond
  ASCII is its UTF-8 encoding. \<open>TrimSpace\<close> cuts every Unicode white-space code point;
  \<open>ToLower\<close> is only ever followed by a test for an ASCII prefix, so it is given on ASCII
  letters and on the two code points beyond ASCII whose lower case is ASCII.
\<close>

section \<open>White space\<close>

text \<open>The UTF-8 encodings of the code points of \<open>unicode.IsSpace\<close>.\<close>

definition space_codes :: "string list" where
  "space_codes =
     [[CHR 0x20], [CHR 0x09], [CHR 0x0A], [CHR 0x0B], [CHR 0x0C], [CHR 0x0D],
      [CHR 0xC2, CHR 0x85], [CHR 0xC2, CHR 0xA0], [CHR 0xE1, CHR 0x9A, CHR 0x80],
      [CHR 0xE2, CHR 0x80, CHR 0x80], [CHR 0xE2, CHR 0x80, CHR 0x81], [CHR 0xE2, CHR 0x80, CHR 0x82],
      [CHR 0xE2, CHR 0x80, CHR 0x83], [CHR 0xE2, CHR 0x80, CHR 0x84], [CHR 0xE2, CHR 0x80, CHR 0x85],
      [CHR 0xE2, CHR 0x80, CHR 0x86], [CHR 0xE2, CHR 0x80, CHR 0x87], [CHR 0xE2, CHR 0x80, CHR 0x88],
      [CHR 0xE2, CHR 0x80, CHR 0x89], [CHR 0xE2, CHR 0x80, CHR 0x8A], [CHR 0xE2, CHR 0x80, CHR 0xA8],
      [CHR 0xE2, CHR 0x80, CHR 0xA9], [CHR 0xE2, CHR 0x80, CHR 0xAF], [CHR 0xE2, CHR 0x81, CHR 0x9F],
      [CHR 0xE3, CHR 0x80, CHR 0x80]]"

fun strip_one :: "string list \<Rightarrow> string \<Rightarrow> string option" where
  "strip_one [] s = None"
| "strip_one (c # cs) s =
     (if c \<noteq> [] \<and> prefix c s then Some (drop (length c) s) else strip_one cs s)"

lemma strip_one_shorter: "strip_one cs s = Some s' \<Longrightarrow> length s' < length s"
  by (induction cs s rule: strip_one.induct) (auto split: if_splits simp: prefix_def)

function strip_codes :: "string list \<Rightarrow> string \<Rightarrow> string" where
  "strip_codes cs s = (case strip_one cs s of None \<Rightarrow> s | Some s' \<Rightarrow> strip_codes cs s')"
  by pat_completeness auto
termination
  by (relation "measure (\<lambda>(cs, s). length s)") (auto dest: strip_one_shorter)

declare strip_codes.simps [simp del]

definition trim_left :: "string \<Rightarrow> string" where
  "trim_left s = strip_codes space_codes s"

definition trim_right :: "string \<Rightarrow> string" where
  "trim_right s = rev (strip_codes (map rev space_codes) (rev s))"

definition trim_space :: "string \<Rightarrow> string" where
  "trim_space s = trim_right (trim_left s)"

lemma strip_one_None_iff: "strip_one cs s = None \<longleftrightarrow> (\<forall>c \<in> set cs. c = [] \<or> \<not> prefix c s)"
  by (induction cs s rule: strip_one.induct) auto

lemma strip_codes_stuck: "strip_one cs (strip_codes cs s) = None"
proof (induction cs s rule: strip_codes.induct)
  case (1 cs s)
  then show ?case
    by (cases "strip_one cs s") (auto simp: strip_codes.simps [of cs s])
qed

lemma strip_codes_id: "strip_one cs s = None \<Longrightarrow> strip_codes cs s = s"
  by (subst strip_codes.simps) simp

lemma strip_one_suffix: "strip_one cs s = Some s' \<Longrightarrow> suffix s' s"
  by (induction cs s rule: strip_one.induct) (auto split: if_splits simp: suffix_drop)

lemma suffix_strip_codes: "suffix (strip_codes cs s) s"
proof (induction cs s rule: strip_codes.induct)
  case (1 cs s)
  show ?case
  proof (cases "strip_one cs s")
    case None
    then show ?thesis by (simp add: strip_codes_id)
  next
    case (Some s')
    then have "strip_codes cs s = strip_codes cs s'"
      by (simp add: strip_codes.simps [of cs s])
    with "1.IH" [OF Some] strip_one_suffix [OF Some] show ?thesis
      by (metis suffix_order.order_trans)
  qed
qed

lemma prefix_trim_right: "prefix (trim_right s) s"
  using suffix_strip_codes [of "map rev space_codes" "rev s"]
  by (simp add: trim_right_def suffix_to_prefix)

lemma strip_one_None_prefix: "strip_one cs s = None \<Longrightarrow> prefix p s \<Longrightarrow> strip_one cs p = None"
  by (auto simp: strip_one_None_iff dest: prefix_order.order_trans)

lemma trim_left_trim_space: "trim_left (trim_space s) = trim_space s"
proof -
  have "strip_one space_codes (trim_left s) = None"
    by (simp add: trim_left_def strip_codes_stuck)
  then have "strip_one space_codes (trim_space s) = None"
    unfolding trim_space_def using prefix_trim_right by (rule strip_one_None_prefix)
  then show ?thesis by (simp add: trim_left_def strip_codes_id)
qed

lemma trim_right_trim_space: "trim_right (trim_space s) = trim_space s"
  by (simp add: trim_space_def trim_right_def strip_codes_id strip_codes_stuck)

lemma trim_space_idem [simp]: "trim_space (trim_space s) = trim_space s"
  using trim_left_trim_space [of s] trim_right_trim_space [of s]
  by (simp add: trim_space_def [of "trim_space s"])

lemma trim_space_Nil [simp]: "trim_space [] = []"
  by code_simp

section \<open>Prefixes and suffixes\<close>

definition has_prefix :: "string \<Rightarrow> string \<Rightarrow> bool" where
  "has_prefix s p \<longleftrightarrow> prefix p s"

definition has_suffix :: "string \<Rightarrow> string \<Rightarrow> bool" where
  "has_suffix s p \<longleftrightarrow> suffix p s"

definition trim_prefix :: "string \<Rightarrow> string \<Rightarrow> string" where
  "trim_prefix s p = (if has_prefix s p then drop (length p) s else s)"

definition trim_suffix :: "string \<Rightarrow> string \<Rightarrow> string" where
  "trim_suffix s p = (if has_suffix s p then take (length s - length p) s else s)"

text \<open>\<open>strings.TrimRight(s, "/")\<close>: cut every trailing character of the cut set.\<close>

definition trim_right_chars :: "string \<Rightarrow> string \<Rightarrow> string" where
  "trim_right_chars s cutset = rev (dropWhile (\<lambda>c. c \<in> set cutset) (rev s))"

lemma trim_prefix_append [simp]: "trim_prefix (p @ s) p = s"
  by (simp add: trim_prefix_def has_prefix_def)

lemma trim_suffix_append [simp]: "trim_suffix (s @ p) p = s"
  by (auto simp: trim_suffix_def has_suffix_def suffix_def)

lemma has_prefix_append [simp]: "has_prefix (p @ s) p"
  by (simp add: has_prefix_def)

section \<open>Case\<close>

definition ascii_lower :: "char \<Rightarrow> char" where
  "ascii_lower c = (if CHR ''A'' \<le> c \<and> c \<le> CHR ''Z'' then char_of (of_char c + 32 :: nat) else c)"

definition ascii_upper :: "char \<Rightarrow> char" where
  "ascii_upper c = (if CHR ''a'' \<le> c \<and> c \<le> CHR ''z'' then char_of (of_char c - 32 :: nat) else c)"

text \<open>
  \<open>strings.ToLower\<close>: U+0130 (bytes C4 B0) has the lower case \<open>i\<close> and U+212A (bytes E2 84 AA)
  has the lower case \<open>k\<close>; every other code point beyond ASCII stays beyond ASCII and is
  kept as it is here, which no test for an ASCII prefix can tell.
\<close>

fun to_lower :: "string \<Rightarrow> string" where
  "to_lower [] = []"
| "to_lower (c # s) =
     (if c = CHR 0xC4 \<and> take 1 s = [CHR 0xB0] then CHR ''i'' # to_lower (drop 1 s)
      else if c = CHR 0xE2 \<and> take 2 s = [CHR 0x84, CHR 0xAA] then CHR ''k'' # to_lower (drop 2 s)
      else ascii_lower c # to_lower s)"

lemma length_to_lower: "length (to_lower s) \<le> length s"
  by (induction s rule: to_lower.induct) (auto simp: min_def split: if_splits)

section \<open>Decimal numbers\<close>

fun show_nat :: "nat \<Rightarrow> string" where
  "show_nat n = (if n < 10 then [char_of (n + 48)] else show_nat (n div 10) @ [char_of (n mod 10 + 48)])"

declare show_nat.simps [simp del]

definition show_int :: "int \<Rightarrow> string" where
  "show_int i = (if i < 0 then CHR ''-'' # show_nat (nat (- i)) else show_nat (nat i))"

text \<open>
  \<open>strconv.Atoi\<close>: an optional sign and at least one decimal digit, the value within 64 bits.
\<close>

definition is_digit :: "char \<Rightarrow> bool" where
  "is_digit c \<longleftrightarrow> 48 \<le> (of_char c :: nat) \<and> (of_char c :: nat) \<le> 57"

definition digits_value :: "string \<Rightarrow> int" where
  "digits_value ds = fold (\<lambda>c v. v * 10 + (int (of_char c) - 48)) ds 0"

definition atoi :: "string \<Rightarrow> int option" where
  "atoi s =
     (let neg = (case s of c # _ \<Rightarrow> c = CHR ''-'' | [] \<Rightarrow> False);
          ds = (case s of c # cs \<Rightarrow> if c = CHR ''-'' \<or> c = CHR ''+'' then cs else s | [] \<Rightarrow> []);
          v = (if neg then - digits_value ds else digits_value ds)
      in if ds = [] \<or> \<not> list_all is_digit ds then None
         else if v < - (2 ^ 63) \<or> 2 ^ 63 \<le> v then None
         else Some v)"

lemma of_char_digit: "d < 10 \<Longrightarrow> of_char (char_of (d + 48) :: char) = d + (48 :: nat)"
  by simp

lemma is_digit_char_of: "d < 10 \<Longrightarrow> is_digit (char_of (d + 48 :: nat))"
  by (simp add: is_digit_def)

lemma digits_value_append: "digits_value (ds @ [c]) = digits_value ds * 10 + (int (of_char c) - 48)"
  by (simp add: digits_value_def)

lemma show_nat_digits:
  "show_nat n \<noteq> [] \<and> list_all is_digit (show_nat n) \<and> digits_value (show_nat n) = int n"
proof (induction n rule: show_nat.induct)
  case (1 n)
  show ?case
  proof (cases "n < 10")
    case True
    then show ?thesis
      by (subst (1 2 3) show_nat.simps) (simp add: is_digit_def digits_value_def of_char_digit)
  next
    case False
    have "n mod 10 < 10" by simp
    moreover have "int (n div 10) * 10 + int (n mod 10) = int n"
      by (metis mult.commute of_nat_add of_nat_mult of_nat_numeral mult_div_mod_eq)
    ultimately show ?thesis
      using 1 [OF False] False
      by (subst (1 2 3) show_nat.simps) (simp add: is_digit_char_of digits_value_append of_char_digit)
  qed
qed

lemma digit_no_sign: "is_digit c \<Longrightarrow> c \<noteq> CHR ''-'' \<and> c \<noteq> CHR ''+''"
  by (auto simp: is_digit_def)

lemma atoi_show_nat: "int n < 2 ^ 63 \<Longrightarrow> atoi (show_nat n) = Some (int n)"
  using show_nat_digits [of n] by (cases "show_nat n") (auto simp: atoi_def Let_def dest: digit_no_sign)

end
