(* ===== verification/Json.thy ===== *)
theory Json
  imports GoStrings
begin

text \<open>
  Go's package \<open>encoding/json\<close>, as far as the service uses it: the value tree, the text
  parser behind \<open>Unmarshal\<close>, the printer behind \<open>Marshal\<close> (with its HTML escapes), and the
  decoding of objects into struct fields. Texts are byte lists, as Go strings are; a byte
  that is not part of valid UTF-8 is replaced by U+FFFD, in both directions. The printer is
  shown to be inverted by the parser on trees whose strings are valid UTF-8.
\<close>

datatype json =
    JNull
  | JBool bool
  | JNum string
  | JStr string
  | JArr "json list"
  | JObj "(string \<times> json) list"

section \<open>Bytes and UTF-8\<close>

definition byte :: "char \<Rightarrow> nat" where
  "byte c = of_char c"

definition in_bytes :: "nat \<Rightarrow> nat \<Rightarrow> string \<Rightarrow> nat \<Rightarrow> bool" where
  "in_bytes lo hi s i \<longleftrightarrow> i < length s \<and> lo \<le> byte (s ! i) \<and> byte (s ! i) \<le> hi"

text \<open>
  The table of \<open>utf8.DecodeRuneInString\<close>: from the lead byte, the length of the encoding
  (0 for a byte that starts none) and the range its second byte must be in.
\<close>

definition utf8_lead :: "nat \<Rightarrow> nat \<times> nat \<times> nat" where
  "utf8_lead b =
     (if b < 0x80 then (1, 0, 0)
      else if b < 0xC2 then (0, 0, 0)
      else if b < 0xE0 then (2, 0x80, 0xBF)
      else if b = 0xE0 then (3, 0xA0, 0xBF)
      else if b = 0xED then (3, 0x80, 0x9F)
      else if b < 0xF0 then (3, 0x80, 0xBF)
      else if b = 0xF0 then (4, 0x90, 0xBF)
      else if b < 0xF4 then (4, 0x80, 0xBF)
      else if b = 0xF4 then (4, 0x80, 0x8F)
      else (0, 0, 0))"

text \<open>The length of the valid encoding at the head of a text, 0 when there is none.\<close>

definition utf8_len :: "string \<Rightarrow> nat" where
  "utf8_len s =
     (case s of
        [] \<Rightarrow> 0
      | c # _ \<Rightarrow>
          (case utf8_lead (byte c) of
             (n, lo, hi) \<Rightarrow>
               if n \<le> 1 then n
               else if in_bytes lo hi s 1 \<and> list_all (in_bytes 0x80 0xBF s) [2..<n] then n
               else 0))"

definition utf8_encode :: "nat \<Rightarrow> string" where
  "utf8_encode r =
     (if r < 0x80 then [char_of r]
      else if r < 0x800 then [char_of (0xC0 + r div 64), char_of (0x80 + r mod 64)]
      else if r < 0x10000 then
        [char_of (0xE0 + r div 4096), char_of (0x80 + r div 64 mod 64), char_of (0x80 + r mod 64)]
      else [char_of (0xF0 + r div 262144), char_of (0x80 + r div 4096 mod 64),
            char_of (0x80 + r div 64 mod 64), char_of (0x80 + r mod 64)])"

definition replacement :: string where
  "replacement = [CHR 0xEF, CHR 0xBF, CHR 0xBD]"

function utf8_valid :: "string \<Rightarrow> bool" where
  "utf8_valid s =
     (if s = [] then True
      else if utf8_len s = 0 then False
      else utf8_valid (drop (utf8_len s) s))"
  by pat_completeness auto
termination
  by (relation "measure length") auto

declare utf8_valid.simps [simp del]

section \<open>Parsing strings\<close>

definition hex_val :: "char \<Rightarrow> nat option" where
  "hex_val c =
     (let b = byte c in
      if 48 \<le> b \<and> b \<le> 57 then Some (b - 48)
      else if 97 \<le> b \<and> b \<le> 102 then Some (b - 87)
      else if 65 \<le> b \<and> b \<le> 70 then Some (b - 55)
      else None)"

fun parse_hex4 :: "string \<Rightarrow> (nat \<times> string) option" where
  "parse_hex4 (a # b # c # d # s) =
     (case (hex_val a, hex_val b, hex_val c, hex_val d) of
        (Some x, Some y, Some z, Some w) \<Rightarrow> Some (((x * 16 + y) * 16 + z) * 16 + w, s)
      | _ \<Rightarrow> None)"
| "parse_hex4 _ = None"

definition low_surrogate_at :: "string \<Rightarrow> (nat \<times> string) option" where
  "low_surrogate_at s =
     (if prefix [CHR 0x5C, CHR ''u''] s then
        (case parse_hex4 (drop 2 s) of
           Some (r, s') \<Rightarrow> if 0xDC00 \<le> r \<and> r < 0xE000 then Some (r, s') else None
         | None \<Rightarrow> None)
      else None)"

definition unescape_u :: "string \<Rightarrow> (string \<times> string) option" where
  "unescape_u s =
     (case parse_hex4 s of
        None \<Rightarrow> None
      | Some (r, s') \<Rightarrow>
          if 0xD800 \<le> r \<and> r < 0xE000 then
            (case (if r < 0xDC00 then low_surrogate_at s' else None) of
               Some (r2, s'') \<Rightarrow>
                 Some (utf8_encode ((r - 0xD800) * 1024 + (r2 - 0xDC00) + 0x10000), s'')
             | None \<Rightarrow> Some (replacement, s'))
          else Some (utf8_encode r, s'))"

definition simple_escape :: "char \<Rightarrow> char option" where
  "simple_escape e =
     (if e = CHR 0x22 then Some (CHR 0x22)
      else if e = CHR 0x5C then Some (CHR 0x5C)
      else if e = CHR ''/'' then Some (CHR ''/'')
      else if e = CHR ''b'' then Some (CHR 0x08)
      else if e = CHR ''f'' then Some (CHR 0x0C)
      else if e = CHR ''n'' then Some (CHR 0x0A)
      else if e = CHR ''r'' then Some (CHR 0x0D)
      else if e = CHR ''t'' then Some (CHR 0x09)
      else None)"

text \<open>One unit of a string literal: the bytes it stands for and the rest of the text.\<close>

fun str_step :: "string \<Rightarrow> (string \<times> string) option" where
  "str_step [] = None"
| "str_step (c # s) =
     (if c = CHR 0x5C then
        (case s of
           [] \<Rightarrow> None
         | e # s' \<Rightarrow>
             if e = CHR ''u'' then unescape_u s'
             else (case simple_escape e of None \<Rightarrow> None | Some b \<Rightarrow> Some ([b], s')))
      else if byte c < 0x20 then None
      else if utf8_len (c # s) = 0 then Some (replacement, s)
      else Some (take (utf8_len (c # s)) (c # s), drop (utf8_len (c # s)) (c # s)))"

text \<open>
  The text after an opening quote, up to the closing one. The test that the rest is shorter
  only serves the termination proof: \<open>str_step_shorter\<close> shows that it never fails.
\<close>

function parse_str :: "string \<Rightarrow> (string \<times> string) option" where
  "parse_str s =
     (if prefix [CHR 0x22] s then Some ([], drop 1 s)
      else (case str_step s of
              None \<Rightarrow> None
            | Some (b, r) \<Rightarrow>
                if length r < length s then
                  (case parse_str r of None \<Rightarrow> None | Some (x, r') \<Rightarrow> Some (b @ x, r'))
                else None))"
  by pat_completeness auto
termination
  by (relation "measure length") auto

declare parse_str.simps [simp del]

lemma parse_hex4_shorter: "parse_hex4 s = Some (r, s') \<Longrightarrow> length s' < length s"
  by (induction s rule: parse_hex4.induct) (auto split: option.splits)

lemma unescape_u_shorter: "unescape_u s = Some (b, s') \<Longrightarrow> length s' < length s"
  by (auto simp: unescape_u_def low_surrogate_at_def split: option.splits if_splits
      dest!: parse_hex4_shorter)

lemma str_step_shorter: "str_step s = Some (b, r) \<Longrightarrow> length r < length s"
  by (induction s rule: str_step.induct)
     (auto split: list.splits if_splits option.splits dest: unescape_u_shorter)

lemma parse_str_shorter: "parse_str s = Some (x, r) \<Longrightarrow> length r < length s"
proof (induction s arbitrary: x rule: parse_str.induct)
  case (1 s)
  show ?case
  proof (cases "prefix [CHR 0x22] s")
    case True
    with "1.prems" have "r = drop 1 s" and "s \<noteq> []"
      by (auto simp: parse_str.simps [of s])
    then show ?thesis by simp
  next
    case False
    with "1.prems" obtain b r' x' where st: "str_step s = Some (b, r')" "length r' < length s"
      and p: "parse_str r' = Some (x', r)"
      by (auto simp: parse_str.simps [of s] split: option.splits if_splits)
    from "1.IH" [OF False st(1) refl st(2) p] st(2) show ?thesis by simp
  qed
qed

section \<open>Parsing values\<close>

definition is_ws :: "char \<Rightarrow> bool" where
  "is_ws c \<longleftrightarrow> c = CHR 0x20 \<or> c = CHR 0x09 \<or> c = CHR 0x0A \<or> c = CHR 0x0D"

definition skip_ws :: "string \<Rightarrow> string" where
  "skip_ws s = dropWhile is_ws s"

definition is_digit :: "char \<Rightarrow> bool" where
  "is_digit c \<longleftrightarrow> 48 \<le> byte c \<and> byte c \<le> 57"

text \<open>The number grammar: sign, integer part, optional fraction, optional exponent.\<close>

definition int_part :: "string \<Rightarrow> (string \<times> string) option" where
  "int_part s =
     (case s of
        [] \<Rightarrow> None
      | c # t \<Rightarrow>
          if c = CHR ''0'' then Some ([c], t)
          else if is_digit c then Some (c # takeWhile is_digit t, dropWhile is_digit t)
          else None)"

definition frac_part :: "string \<Rightarrow> (string \<times> string) option" where
  "frac_part s =
     (if prefix ''.'' s then
        (if takeWhile is_digit (drop 1 s) = [] then None
         else Some (CHR ''.'' # takeWhile is_digit (drop 1 s), dropWhile is_digit (drop 1 s)))
      else Some ([], s))"

definition exp_part :: "string \<Rightarrow> (string \<times> string) option" where
  "exp_part s =
     (case s of
        [] \<Rightarrow> Some ([], [])
      | c # t \<Rightarrow>
          if c = CHR ''e'' \<or> c = CHR ''E'' then
            (let sg = takeWhile (\<lambda>x. x = CHR ''+'' \<or> x = CHR ''-'') (take 1 t);
                 u = drop (length sg) t
             in if takeWhile is_digit u = [] then None
                else Some (c # sg @ takeWhile is_digit u, dropWhile is_digit u))
          else Some ([], s))"

definition parse_num :: "string \<Rightarrow> (string \<times> string) option" where
  "parse_num s =
     (let sg = (if prefix ''-'' s then ''-'' else []) in
      case int_part (drop (length sg) s) of
        None \<Rightarrow> None
      | Some (i, s1) \<Rightarrow>
          (case frac_part s1 of
             None \<Rightarrow> None
           | Some (f, s2) \<Rightarrow>
               (case exp_part s2 of
                  None \<Rightarrow> None
                | Some (e, s3) \<Rightarrow> Some (sg @ i @ f @ e, s3))))"

definition max_depth :: int where
  "max_depth = 10000"

text \<open>
  \<open>d\<close> counts the arrays and objects that are open. As in \<open>parse_str\<close>, the tests on lengths
  are there for the termination proof and never fail.
\<close>

function (sequential) parse_value :: "int \<Rightarrow> string \<Rightarrow> (json \<times> string) option"
  and parse_elems :: "int \<Rightarrow> string \<Rightarrow> (json list \<times> string) option"
  and parse_members :: "int \<Rightarrow> string \<Rightarrow> ((string \<times> json) list \<times> string) option" where
  "parse_value d [] = None"
| "parse_value d (c # s) =
     (if c = CHR 0x22 then
        (case parse_str s of None \<Rightarrow> None | Some (x, r) \<Rightarrow> Some (JStr x, r))
      else if c = CHR ''['' then
        (if max_depth \<le> d then None
         else if prefix '']'' (skip_ws s) then Some (JArr [], drop 1 (skip_ws s))
         else if length (skip_ws s) \<le> length s then
           (case parse_elems (d + 1) (skip_ws s) of
              None \<Rightarrow> None | Some (xs, r) \<Rightarrow> Some (JArr xs, r))
         else None)
      else if c = CHR ''{'' then
        (if max_depth \<le> d then None
         else if prefix ''}'' (skip_ws s) then Some (JObj [], drop 1 (skip_ws s))
         else if length (skip_ws s) \<le> length s then
           (case parse_members (d + 1) (skip_ws s) of
              None \<Rightarrow> None | Some (ms, r) \<Rightarrow> Some (JObj ms, r))
         else None)
      else if prefix ''true'' (c # s) then Some (JBool True, drop 4 (c # s))
      else if prefix ''false'' (c # s) then Some (JBool False, drop 5 (c # s))
      else if prefix ''null'' (c # s) then Some (JNull, drop 4 (c # s))
      else (case parse_num (c # s) of None \<Rightarrow> None | Some (n, r) \<Rightarrow> Some (JNum n, r)))"
| "parse_elems d s =
     (case parse_value d s of
        None \<Rightarrow> None
      | Some (v, r) \<Rightarrow>
          if prefix '']'' (skip_ws r) then Some ([v], drop 1 (skip_ws r))
          else if prefix '','' (skip_ws r) \<and> length (skip_ws (drop 1 (skip_ws r))) < length s then
            (case parse_elems d (skip_ws (drop 1 (skip_ws r))) of
               None \<Rightarrow> None | Some (vs, r') \<Rightarrow> Some (v # vs, r'))
          else None)"
| "parse_members d s =
     (if prefix [CHR 0x22] s then
        (case parse_str (drop 1 s) of
           None \<Rightarrow> None
         | Some (k, r0) \<Rightarrow>
             if prefix '':'' (skip_ws r0) \<and> length (skip_ws (drop 1 (skip_ws r0))) < length s then
               (case parse_value d (skip_ws (drop 1 (skip_ws r0))) of
                  None \<Rightarrow> None
                | Some (v, r) \<Rightarrow>
                    if prefix ''}'' (skip_ws r) then Some ([(k, v)], drop 1 (skip_ws r))
                    else if prefix '','' (skip_ws r)
                         \<and> length (skip_ws (drop 1 (skip_ws r))) < length s then
                      (case parse_members d (skip_ws (drop 1 (skip_ws r))) of
                         None \<Rightarrow> None | Some (ms, r') \<Rightarrow> Some ((k, v) # ms, r'))
                    else None)
             else None)
      else None)"
  by pat_completeness auto
termination
  by (relation "measure (\<lambda>x. case x of Inl (_, s) \<Rightarrow> 2 * length s
        | Inr (Inl (_, s)) \<Rightarrow> 2 * length s + 1 | Inr (Inr (_, s)) \<Rightarrow> 2 * length s + 1)")
     (auto simp: less_Suc_eq_le)

declare parse_value.simps [simp del] parse_elems.simps [simp del] parse_members.simps [simp del]

text \<open>\<open>json.Unmarshal\<close> reads one value with white space around it.\<close>

definition json_parse :: "string \<Rightarrow> json option" where
  "json_parse s =
     (case parse_value 0 (skip_ws s) of
        None \<Rightarrow> None
      | Some (v, r) \<Rightarrow> if skip_ws r = [] then Some v else None)"

section \<open>Printing\<close>

definition hex_digit :: "nat \<Rightarrow> char" where
  "hex_digit n = (if n < 10 then char_of (48 + n) else char_of (87 + n))"

definition escape_ascii :: "char \<Rightarrow> string" where
  "escape_ascii c =
     (if c = CHR 0x22 \<or> c = CHR 0x5C then [CHR 0x5C, c]
      else if c = CHR 0x08 then [CHR 0x5C, CHR ''b'']
      else if c = CHR 0x0C then [CHR 0x5C, CHR ''f'']
      else if c = CHR 0x0A then [CHR 0x5C, CHR ''n'']
      else if c = CHR 0x0D then [CHR 0x5C, CHR ''r'']
      else if c = CHR 0x09 then [CHR 0x5C, CHR ''t'']
      else if byte c < 0x20 \<or> c = CHR ''<'' \<or> c = CHR ''>'' \<or> c = CHR ''&'' then
        [CHR 0x5C, CHR ''u'', CHR ''0'', CHR ''0'', hex_digit (byte c div 16), hex_digit (byte c mod 16)]
      else [c])"

definition escape_unit :: "string \<Rightarrow> string" where
  "escape_unit u =
     (if length u = 1 then escape_ascii (hd u)
      else if u = [CHR 0xE2, CHR 0x80, CHR 0xA8] then CHR 0x5C # ''u2028''
      else if u = [CHR 0xE2, CHR 0x80, CHR 0xA9] then CHR 0x5C # ''u2029''
      else u)"

function escape :: "string \<Rightarrow> string" where
  "escape s =
     (if s = [] then []
      else if utf8_len s = 0 then (CHR 0x5C # ''ufffd'') @ escape (drop 1 s)
      else escape_unit (take (utf8_len s) s) @ escape (drop (utf8_len s) s))"
  by pat_completeness auto
termination
  by (relation "measure length") auto

declare escape.simps [simp del]

definition quote :: "string \<Rightarrow> string" where
  "quote s = CHR 0x22 # escape s @ [CHR 0x22]"

fun join :: "string \<Rightarrow> string list \<Rightarrow> string" where
  "join sep [] = []"
| "join sep [x] = x"
| "join sep (x # y # xs) = x @ sep @ join sep (y # xs)"

fun json_print :: "json \<Rightarrow> string" where
  "json_print JNull = ''null''"
| "json_print (JBool b) = (if b then ''true'' else ''false'')"
| "json_print (JNum n) = n"
| "json_print (JStr s) = quote s"
| "json_print (JArr xs) = ''['' @ join '','' (map json_print xs) @ '']''"
| "json_print (JObj ms) =
     ''{'' @ join '','' (map (\<lambda>m. quote (fst m) @ CHR '':'' # json_print (snd m)) ms) @ ''}''"

section \<open>The parser inverts the printer\<close>

text \<open>Trees the service prints: valid UTF-8 in every string, no numbers.\<close>

fun json_ok :: "json \<Rightarrow> bool" where
  "json_ok JNull = True"
| "json_ok (JBool b) = True"
| "json_ok (JNum n) = False"
| "json_ok (JStr s) = utf8_valid s"
| "json_ok (JArr xs) = list_all json_ok xs"
| "json_ok (JObj ms) = list_all (\<lambda>m. utf8_valid (fst m) \<and> json_ok (snd m)) ms"

fun json_depth :: "json \<Rightarrow> int" where
  "json_depth (JArr xs) = 1 + foldr (\<lambda>x. max (json_depth x)) xs 0"
| "json_depth (JObj ms) = 1 + foldr (\<lambda>m. max (json_depth (snd m))) ms 0"
| "json_depth _ = 0"

lemma in_bytes_take [simp]:
  "i < n \<Longrightarrow> n \<le> length s \<Longrightarrow> in_bytes lo hi (take n s @ t) i = in_bytes lo hi s i"
  by (auto simp: in_bytes_def nth_append)

lemma utf8_lead_le_4: "fst (utf8_lead b) \<le> 4"
  by (simp add: utf8_lead_def)

lemma utf8_len_le: "utf8_len s \<le> length s"
proof (cases s)
  case Nil
  then show ?thesis by (simp add: utf8_len_def)
next
  case (Cons c t)
  obtain n lo hi where l: "utf8_lead (byte c) = (n, lo, hi)" by (metis prod_cases3)
  show ?thesis
  proof (cases "n \<le> 2")
    case True
    with l Cons show ?thesis by (cases t) (auto simp: utf8_len_def in_bytes_def)
  next
    case False
    then have "n - 1 \<in> set [2..<n]" by auto
    with l Cons False show ?thesis
      by (auto simp: utf8_len_def list_all_iff in_bytes_def dest: bspec [where x = "n - 1"])
  qed
qed

lemma utf8_len_take:
  assumes "0 < utf8_len s"
  shows "utf8_len (take (utf8_len s) s @ t) = utf8_len s"
proof -
  obtain c r where s: "s = c # r" using assms by (cases s) (auto simp: utf8_len_def)
  obtain n lo hi where l: "utf8_lead (byte c) = (n, lo, hi)" by (metis prod_cases3)
  have n: "utf8_len s = n" "0 < n" using assms s l by (auto simp: utf8_len_def split: if_splits)
  have le: "n \<le> length s" using utf8_len_le [of s] n by simp
  obtain r' where t: "take n s @ t = c # r'" using s n by (cases n) auto
  have "list_all (in_bytes 0x80 0xBF (c # r')) [2..<n] = list_all (in_bytes 0x80 0xBF s) [2..<n]"
    using le by (auto simp: list_all_iff t [symmetric])
  moreover have "1 < n \<Longrightarrow> in_bytes lo hi (c # r') 1 = in_bytes lo hi s 1"
    using le by (simp add: t [symmetric])
  ultimately have "utf8_len (c # r') = n"
    using n l s by (simp add: utf8_len_def split: if_splits)
  then show ?thesis by (simp add: n t)
qed

lemma hex_val_digit [simp]: "n < 16 \<Longrightarrow> hex_val (hex_digit n) = Some n"
  by (simp add: hex_val_def hex_digit_def byte_def Let_def)

lemma hex_val_0 [simp]: "hex_val (CHR ''0'') = Some 0"
  by (simp add: hex_val_def byte_def)

lemma unescape_u00:
  assumes "byte c < 0x80"
  shows "unescape_u (CHR ''0'' # CHR ''0'' # hex_digit (byte c div 16) # hex_digit (byte c mod 16) # t)
           = Some ([c], t)"
proof -
  have "byte c div 16 < 16" and "byte c mod 16 < 16" using assms by auto
  moreover have "byte c div 16 * 16 + byte c mod 16 = byte c" by simp
  moreover have "[char_of (byte c)] = [c]" by (simp add: byte_def)
  ultimately show ?thesis
    using assms by (simp add: unescape_u_def utf8_encode_def)
qed

definition short_escapes :: string where
  "short_escapes = [CHR 0x22, CHR 0x5C, CHR 0x08, CHR 0x0C, CHR 0x0A, CHR 0x0D, CHR 0x09]"

lemma str_step_short_escape: "c \<in> set short_escapes \<Longrightarrow> str_step (escape_ascii c @ t) = Some ([c], t)"
  by (auto simp: short_escapes_def escape_ascii_def simple_escape_def)

lemma str_step_escape_ascii:
  assumes "byte c < 0x80"
  shows "str_step (escape_ascii c @ t) = Some ([c], t)"
proof (cases "c \<in> set short_escapes")
  case True
  then show ?thesis by (rule str_step_short_escape)
next
  case False
  then have ns: "c \<noteq> CHR 0x22" "c \<noteq> CHR 0x5C" "c \<noteq> CHR 0x08" "c \<noteq> CHR 0x0C" "c \<noteq> CHR 0x0A"
    "c \<noteq> CHR 0x0D" "c \<noteq> CHR 0x09"
    by (auto simp: short_escapes_def)
  show ?thesis
  proof (cases "byte c < 0x20 \<or> c = CHR ''<'' \<or> c = CHR ''>'' \<or> c = CHR ''&''")
    case True
    then show ?thesis
      using ns unescape_u00 [OF assms, of t] by (simp only: escape_ascii_def) simp
  next
    case False
    with ns have e: "escape_ascii c = [c]" and "\<not> byte c < 0x20"
      by (simp_all add: escape_ascii_def)
    moreover have "utf8_len (c # t) = 1"
      using assms by (simp add: utf8_len_def utf8_lead_def)
    ultimately show ?thesis
      using ns by simp
  qed
qed

lemma escape_ascii_not_quote [simp]: "\<not> prefix [CHR 0x22] (escape_ascii c @ t)"
  by (auto simp: escape_ascii_def)

lemma line_separator_bytes:
  "char_of (226 :: nat) = CHR 0xE2" "char_of (128 :: nat) = CHR 0x80"
  "char_of (168 :: nat) = CHR 0xA8" "char_of (169 :: nat) = CHR 0xA9"
  by code_simp+

lemma escape_unit_not_quote: "0 < utf8_len s \<Longrightarrow> \<not> prefix [CHR 0x22] (escape_unit (take (utf8_len s) s) @ t)"
proof -
  assume pos: "0 < utf8_len s"
  obtain c r where s: "s = c # r" using pos by (cases s) (auto simp: utf8_len_def)
  show ?thesis
  proof (cases "utf8_len s = 1")
    case True
    then show ?thesis by (simp add: s escape_unit_def)
  next
    case False
    then have "c \<noteq> CHR 0x22"
      by (auto simp: s utf8_len_def utf8_lead_def byte_def)
    then show ?thesis
      using pos False by (cases "utf8_len s") (auto simp: s escape_unit_def)
  qed
qed

lemma str_step_escape_unit:
  assumes "0 < utf8_len s"
  shows "str_step (escape_unit (take (utf8_len s) s) @ t) = Some (take (utf8_len s) s, t)"
proof -
  obtain c r where s: "s = c # r" using assms by (cases s) (auto simp: utf8_len_def)
  define u where "u = take (utf8_len s) s"
  show ?thesis
  proof (cases "utf8_len s = 1")
    case True
    then have "byte c < 0x80"
      by (auto simp: s utf8_len_def utf8_lead_def split: if_splits)
    with True show ?thesis
      by (simp add: s escape_unit_def str_step_escape_ascii)
  next
    case False
    have lu: "length u = utf8_len s" using utf8_len_le [of s] by (simp add: u_def)
    have hd: "u = c # take (utf8_len s - 1) r"
      using assms by (cases "utf8_len s") (auto simp: u_def s)
    have c: "c \<noteq> CHR 0x5C" "\<not> byte c < 0x20"
      using False assms by (auto simp: s utf8_len_def utf8_lead_def byte_def split: if_splits)
    consider "u = [CHR 0xE2, CHR 0x80, CHR 0xA8]" | "u = [CHR 0xE2, CHR 0x80, CHR 0xA9]"
      | "escape_unit u = u"
      using False lu by (cases "u \<in> {[CHR 0xE2, CHR 0x80, CHR 0xA8], [CHR 0xE2, CHR 0x80, CHR 0xA9]}")
        (auto simp: escape_unit_def)
    then show ?thesis
    proof cases
      case 1
      then show ?thesis
        by (simp add: u_def [symmetric] escape_unit_def unescape_u_def hex_val_def byte_def utf8_encode_def
            line_separator_bytes)
    next
      case 2
      then show ?thesis
        by (simp add: u_def [symmetric] escape_unit_def unescape_u_def hex_val_def byte_def utf8_encode_def
            line_separator_bytes)
    next
      case 3
      have "utf8_len (u @ t) = length u"
        using utf8_len_take [OF assms] lu by (simp add: u_def)
      then have "str_step (u @ t) = Some (u, t)"
        using c lu assms hd by (metis (no_types, lifting) append_Cons append_eq_conv_conj less_not_refl str_step.simps(2))
      with 3 show ?thesis by (simp add: u_def)
    qed
  qed
qed

lemma parse_str_escape:
  "utf8_valid s \<Longrightarrow> parse_str (escape s @ CHR 0x22 # t) = Some (s, t)"
proof (induction s rule: utf8_valid.induct)
  case (1 s)
  show ?case
  proof (cases "s = []")
    case True
    then show ?thesis by (simp add: escape.simps [of "[]"] parse_str.simps)
  next
    case False
    let ?n = "utf8_len s"
    let ?r = "escape (drop ?n s) @ CHR 0x22 # t"
    from "1.prems" False have pos: "0 < ?n" and v: "utf8_valid (drop ?n s)"
      by (auto simp: utf8_valid.simps [of s] split: if_splits)
    have IH: "parse_str ?r = Some (drop ?n s, t)"
      using "1.IH" False pos v by simp
    have e: "escape s @ CHR 0x22 # t = escape_unit (take ?n s) @ ?r"
      using False pos by (simp add: escape.simps [of s])
    have st: "str_step (escape_unit (take ?n s) @ ?r) = Some (take ?n s, ?r)"
      by (rule str_step_escape_unit [OF pos])
    show ?thesis
      unfolding e
      using escape_unit_not_quote [OF pos, of ?r] st str_step_shorter [OF st] IH
      by (subst parse_str.simps) simp
  qed
qed

lemma json_print_head:
  "json_ok v \<Longrightarrow> \<exists>c r. json_print v = c # r \<and> \<not> is_ws c \<and> c \<noteq> CHR '']'' \<and> c \<noteq> CHR ''}''"
  by (cases v) (auto simp: is_ws_def quote_def)

lemma json_print_first:
  assumes "json_ok v"
  obtains c r where "json_print v = c # r" "\<not> is_ws c" "c \<noteq> CHR '']''" "c \<noteq> CHR ''}''"
  using json_print_head [OF assms] by blast

lemma skip_ws_print [simp]: "json_ok v \<Longrightarrow> skip_ws (json_print v @ t) = json_print v @ t"
  by (erule json_print_first) (simp add: skip_ws_def)

lemma skip_ws_Cons [simp]: "\<not> is_ws c \<Longrightarrow> skip_ws (c # t) = c # t"
  by (simp add: skip_ws_def)

lemma not_ws [simp]:
  "\<not> is_ws (CHR '','')" "\<not> is_ws (CHR '']'')" "\<not> is_ws (CHR ''}'')" "\<not> is_ws (CHR '':'')"
  "\<not> is_ws (CHR ''['')" "\<not> is_ws (CHR ''{'')" "\<not> is_ws (CHR 0x22)"
  by (simp_all add: is_ws_def)

lemma skip_ws_quote [simp]: "skip_ws (quote k @ t) = quote k @ t"
  by (simp add: quote_def)

lemma parse_elems_print:
  assumes "xs \<noteq> []" and "list_all json_ok xs"
    and "\<And>x t. x \<in> set xs \<Longrightarrow> parse_value d (json_print x @ t) = Some (x, t)"
  shows "parse_elems d (join '','' (map json_print xs) @ CHR '']'' # t) = Some (xs, t)"
  using assms
proof (induction xs rule: list_nonempty_induct)
  case (single x)
  then show ?case by (subst parse_elems.simps) simp
next
  case (cons x xs)
  obtain y ys where ys: "xs = y # ys" using cons.hyps by (cases xs) auto
  let ?r = "join '','' (map json_print xs) @ CHR '']'' # t"
  have ok: "json_ok y" using cons.prems(1) ys by simp
  have sk: "skip_ws ?r = ?r"
    using skip_ws_print [OF ok] by (cases ys) (simp_all add: ys)
  have eq: "join '','' (map json_print (x # xs)) @ CHR '']'' # t = json_print x @ CHR '','' # ?r"
    by (simp add: ys)
  have IH: "parse_elems d ?r = Some (xs, t)"
    using cons.IH cons.prems by auto
  show ?case
    unfolding eq by (subst parse_elems.simps) (simp add: cons.prems(2) sk IH)
qed

lemma parse_members_print:
  assumes "ms \<noteq> []" and "list_all (\<lambda>m. utf8_valid (fst m) \<and> json_ok (snd m)) ms"
    and "\<And>m t. m \<in> set ms \<Longrightarrow> parse_value d (json_print (snd m) @ t) = Some (snd m, t)"
  shows "parse_members d
     (join '','' (map (\<lambda>m. quote (fst m) @ CHR '':'' # json_print (snd m)) ms) @ CHR ''}'' # t) = Some (ms, t)"
  using assms
proof (induction ms rule: list_nonempty_induct)
  case (single m)
  then show ?case
    by (subst parse_members.simps) (simp add: quote_def parse_str_escape)
next
  case (cons m ms)
  obtain y ys where ys: "ms = y # ys" using cons.hyps by (cases ms) auto
  let ?r = "join '','' (map (\<lambda>m. quote (fst m) @ CHR '':'' # json_print (snd m)) ms) @ CHR ''}'' # t"
  have sk: "skip_ws ?r = ?r" by (cases ys) (simp_all add: ys)
  have eq: "join '','' (map (\<lambda>m. quote (fst m) @ CHR '':'' # json_print (snd m)) (m # ms)) @ CHR ''}'' # t
      = CHR 0x22 # escape (fst m) @ CHR 0x22 # CHR '':'' # json_print (snd m) @ CHR '','' # ?r"
    by (simp add: ys quote_def)
  have IH: "parse_members d ?r = Some (ms, t)"
    using cons.IH cons.prems by auto
  have ok: "utf8_valid (fst m)" "json_ok (snd m)" using cons.prems(1) by auto
  show ?case
    unfolding eq by (subst parse_members.simps) (simp add: cons.prems(2) ok sk IH parse_str_escape)
qed

lemma foldr_max_ge: "x \<in> set xs \<Longrightarrow> (f x :: int) \<le> foldr (\<lambda>x. max (f x)) xs 0"
  by (induction xs) auto

lemma foldr_max_nonneg: "0 \<le> foldr (\<lambda>x. max (f x)) xs (0 :: int)"
  by (induction xs) auto

lemma json_depth_nonneg: "0 \<le> json_depth v"
  by (cases v) (simp_all add: foldr_max_nonneg add_nonneg_nonneg)

lemma parse_value_print:
  "json_ok v \<Longrightarrow> d + json_depth v \<le> max_depth \<Longrightarrow> parse_value d (json_print v @ t) = Some (v, t)"
proof (induction v arbitrary: d t)
  case (JStr s)
  then show ?case by (simp add: quote_def parse_value.simps parse_str_escape)
next
  case (JArr xs)
  show ?case
  proof (cases xs)
    case Nil
    with JArr.prems show ?thesis by (simp add: parse_value.simps)
  next
    case (Cons x ys)
    then have ne: "xs \<noteq> []" and ok: "list_all json_ok xs" "json_ok x" using JArr.prems by auto
    have d: "d + 1 + foldr (\<lambda>x. max (json_depth x)) xs 0 \<le> max_depth" using JArr.prems by simp
    have "parse_elems (d + 1) (join '','' (map json_print xs) @ CHR '']'' # t) = Some (xs, t)"
    proof (rule parse_elems_print [OF ne ok(1)])
      fix x t
      assume x: "x \<in> set xs"
      then have "json_depth x \<le> foldr (\<lambda>x. max (json_depth x)) xs 0" by (rule foldr_max_ge)
      with JArr.IH [OF x, of "d + 1" t] ok x d
      show "parse_value (d + 1) (json_print x @ t) = Some (x, t)"
        by (simp add: list_all_iff)
    qed
    moreover obtain c r where "json_print x = c # r" "\<not> is_ws c" "c \<noteq> CHR '']''"
      using ok(2) by (rule json_print_first)
    then obtain r' where "join '','' (map json_print xs) @ CHR '']'' # t = c # r'" "\<not> is_ws c" "c \<noteq> CHR '']''"
      using Cons by (cases ys) auto
    moreover have "\<not> max_depth \<le> d"
      using d foldr_max_nonneg [of json_depth xs] by linarith
    ultimately show ?thesis by (simp add: parse_value.simps)
  qed
next
  case (JObj ms)
  let ?f = "\<lambda>m. quote (fst m) @ CHR '':'' # json_print (snd m)"
  show ?case
  proof (cases ms)
    case Nil
    with JObj.prems show ?thesis by (simp add: parse_value.simps)
  next
    case (Cons m ys)
    then have ne: "ms \<noteq> []" and ok: "list_all (\<lambda>m. utf8_valid (fst m) \<and> json_ok (snd m)) ms"
      using JObj.prems by auto
    have d: "d + 1 + foldr (\<lambda>m. max (json_depth (snd m))) ms 0 \<le> max_depth" using JObj.prems by simp
    have "parse_members (d + 1) (join '','' (map ?f ms) @ CHR ''}'' # t) = Some (ms, t)"
    proof (rule parse_members_print [OF ne ok])
      fix m t
      assume m: "m \<in> set ms"
      then have "json_depth (snd m) \<le> foldr (\<lambda>m. max (json_depth (snd m))) ms 0"
        by (rule foldr_max_ge)
      moreover have "snd m \<in> Basic_BNFs.snds m" by (cases m) simp
      ultimately show "parse_value (d + 1) (json_print (snd m) @ t) = Some (snd m, t)"
        using JObj.IH [OF m, of "snd m" "d + 1" t] ok m d by (auto simp: list_all_iff)
    qed
    moreover obtain r' where "join '','' (map ?f ms) @ CHR ''}'' # t = CHR 0x22 # r'"
      using Cons by (cases ys) (auto simp: quote_def)
    moreover have "\<not> max_depth \<le> d"
      using d foldr_max_nonneg [of "\<lambda>m. json_depth (snd m)" ms] by linarith
    ultimately show ?thesis by (simp add: parse_value.simps)
  qed
qed (simp_all add: parse_value.simps)

lemma json_parse_print:
  "json_ok v \<Longrightarrow> json_depth v \<le> max_depth \<Longrightarrow> json_parse (json_print v) = Some v"
  using parse_value_print [of v 0 "[]"] skip_ws_print [of v "[]"]
  by (simp add: json_parse_def skip_ws_def)

section \<open>Decoding into struct fields\<close>

text \<open>
  A member of an object goes to the field whose JSON name is equal, else to the first one
  whose name is equal under case folding; members without a field are ignored, and a value
  of the wrong type makes the whole \<open>Unmarshal\<close> an error. \<open>null\<close> leaves a string or a
  struct as it is and resets a slice or a map. Folding maps ASCII letters to upper case;
  beyond ASCII only U+017F and U+212A fold to ASCII letters.
\<close>

fun fold_name :: "string \<Rightarrow> string" where
  "fold_name [] = []"
| "fold_name (c # s) =
     (if c = CHR 0xC5 \<and> take 1 s = [CHR 0xBF] then CHR ''S'' # fold_name (drop 1 s)
      else if c = CHR 0xE2 \<and> take 2 s = [CHR 0x84, CHR 0xAA] then CHR ''K'' # fold_name (drop 2 s)
      else ascii_upper c # fold_name s)"

type_synonym 'r field = "string \<times> (json \<Rightarrow> 'r \<Rightarrow> 'r option)"

definition find_field :: "'r field list \<Rightarrow> string \<Rightarrow> (json \<Rightarrow> 'r \<Rightarrow> 'r option) option" where
  "find_field fs k =
     (case map_of fs k of
        Some f \<Rightarrow> Some f
      | None \<Rightarrow> map_option snd (find (\<lambda>f. fold_name (fst f) = fold_name k) fs))"

fun dec_members :: "'r field list \<Rightarrow> (string \<times> json) list \<Rightarrow> 'r \<Rightarrow> 'r option" where
  "dec_members fs [] r = Some r"
| "dec_members fs ((k, v) # ms) r =
     (case find_field fs k of
        None \<Rightarrow> dec_members fs ms r
      | Some f \<Rightarrow> (case f v r of None \<Rightarrow> None | Some r' \<Rightarrow> dec_members fs ms r'))"

definition dec_struct :: "'r field list \<Rightarrow> json \<Rightarrow> 'r \<Rightarrow> 'r option" where
  "dec_struct fs v r =
     (case v of JNull \<Rightarrow> Some r | JObj ms \<Rightarrow> dec_members fs ms r | _ \<Rightarrow> None)"

definition dec_string :: "json \<Rightarrow> string \<Rightarrow> string option" where
  "dec_string v old = (case v of JNull \<Rightarrow> Some old | JStr s \<Rightarrow> Some s | _ \<Rightarrow> None)"

text \<open>A slice of strings; the elements are decoded into fresh (empty) strings.\<close>

fun dec_elems :: "json list \<Rightarrow> string list option" where
  "dec_elems [] = Some []"
| "dec_elems (v # vs) =
     (case dec_string v [] of
        None \<Rightarrow> None
      | Some s \<Rightarrow> (case dec_elems vs of None \<Rightarrow> None | Some ss \<Rightarrow> Some (s # ss)))"

definition dec_strings :: "json \<Rightarrow> string list option" where
  "dec_strings v = (case v of JNull \<Rightarrow> Some [] | JArr vs \<Rightarrow> dec_elems vs | _ \<Rightarrow> None)"

text \<open>A map from strings to strings: the members are stored into the map that is there.\<close>

fun dec_entries :: "(string \<times> json) list \<Rightarrow> string go_map \<Rightarrow> string go_map option" where
  "dec_entries [] m = Some m"
| "dec_entries ((k, v) # ms) m =
     (case dec_string v [] of None \<Rightarrow> None | Some s \<Rightarrow> dec_entries ms (go_put k s m))"

definition dec_string_map :: "json \<Rightarrow> string go_map \<Rightarrow> string go_map option" where
  "dec_string_map v old =
     (case v of JNull \<Rightarrow> Some [] | JObj ms \<Rightarrow> dec_entries ms old | _ \<Rightarrow> None)"

text \<open>\<open>json.Unmarshal\<close> of a text into a struct value.\<close>

definition unmarshal_struct :: "'r field list \<Rightarrow> string \<Rightarrow> 'r \<Rightarrow> 'r option" where
  "unmarshal_struct fs s r = (case json_parse s of None \<Rightarrow> None | Some v \<Rightarrow> dec_struct fs v r)"

text \<open>\<open>Marshal\<close> prints the entries of a map in the order of their keys.\<close>

definition enc_string_map :: "string go_map \<Rightarrow> json" where
  "enc_string_map m = JObj (map (\<lambda>(k, v). (k, JStr v)) (sort_key fst m))"

definition enc_strings :: "string list \<Rightarrow> json" where
  "enc_strings xs = JArr (map JStr xs)"

lemma dec_members_append:
  "dec_members fs (xs @ ys) r =
     (case dec_members fs xs r of None \<Rightarrow> None | Some r' \<Rightarrow> dec_members fs ys r')"
  by (induction fs xs r rule: dec_members.induct) (auto split: option.splits)

lemma dec_string_JStr [simp]: "dec_string (JStr s) old = Some s"
  by (simp add: dec_string_def)

lemma dec_elems_JStr [simp]: "dec_elems (map JStr xs) = Some xs"
  by (induction xs) auto

lemma dec_strings_enc [simp]: "dec_strings (enc_strings xs) = Some xs"
  by (simp add: dec_strings_def enc_strings_def)

lemma go_put_fresh: "k \<notin> fst ` set m \<Longrightarrow> go_put k v m = m @ [(k, v)]"
  by (induction m) auto

lemma dec_entries_distinct:
  "distinct (map fst (m @ kvs)) \<Longrightarrow>
     dec_entries (map (\<lambda>(k, v). (k, JStr v)) kvs) m = Some (m @ kvs)"
  by (induction kvs arbitrary: m) (auto simp: go_put_fresh)

lemma dec_string_map_enc:
  "is_go_map m \<Longrightarrow> dec_string_map (enc_string_map m) [] = Some (sort_key fst m)"
  using dec_entries_distinct [of "[]" "sort_key fst m"]
  by (simp add: dec_string_map_def enc_string_map_def distinct_map)

end
