(* ===== verification/Errors.thy ===== *)
theory Errors
  imports Prelude
begin

text \<open>
  Go's error values and \<open>internal/provider/errors.go\<close>. An \<open>error\<close> interface value is a
  \<open>goerr option\<close> with \<open>None\<close> for nil. The constructors are the dynamic types that occur:
  sentinel variables, \<open>errors.New\<close> / \<open>fmt.Errorf\<close> without a wrapped error (the format and
  its operands are kept apart), \<open>fmt.Errorf\<close> with one \<open>%w\<close>, \<open>errors.Join\<close>, the
  provider package's own \<open>SendError\<close>, and the typed errors of the core library's HTTP
  layer, which the code only constructs (with operands, or with an error as the operand of \<open>%v\<close>).
\<close>

datatype arg = AStr string | AInt int

datatype csar_kind = Validation | Unauthorized | NotFound | Unavailable

datatype goerr =
    Sentinel string
  | Errorf string "arg list"
  | Wrapf string "arg list" goerr
  | Joined "goerr list"
  | SendError string bool goerr
  | CsarError csar_kind string "arg list"
  | CsarCause csar_kind string goerr

type_synonym error = "goerr option"

text \<open>\<open>fmt.Errorf("...%w", err)\<close> with a non-nil \<open>err\<close> wraps; the code never calls it with a nil one
  on a path whose result is examined further.\<close>

section \<open>The standard library's errors package\<close>

definition errors_Join :: "error list \<Rightarrow> error" where
  "errors_Join es =
     (let xs = List.map_filter (\<lambda>e. e) es in if xs = [] then None else Some (Joined xs))"

fun errors_is :: "goerr \<Rightarrow> goerr \<Rightarrow> bool" where
  "errors_is (Wrapf f as e) t = (Wrapf f as e = t \<or> errors_is e t)"
| "errors_is (Joined es) t = (Joined es = t \<or> list_ex (\<lambda>e. errors_is e t) es)"
| "errors_is (SendError c p e) t = (SendError c p e = t \<or> errors_is e t)"
| "errors_is e t = (e = t)"

fun first_some :: "('a \<Rightarrow> 'b option) \<Rightarrow> 'a list \<Rightarrow> 'b option" where
  "first_some f [] = None"
| "first_some f (x # xs) = (case f x of Some y \<Rightarrow> Some y | None \<Rightarrow> first_some f xs)"

lemma first_some_cong [fundef_cong]:
  "xs = ys \<Longrightarrow> (\<And>x. x \<in> set ys \<Longrightarrow> f x = g x) \<Longrightarrow> first_some f xs = first_some g ys"
  by (induction xs arbitrary: ys) (auto split: option.splits)

text \<open>\<open>errors.As(err, &sendErr)\<close>: the first \<open>*SendError\<close> of the tree, read by channel and flag.\<close>

fun errors_as_send_error :: "goerr \<Rightarrow> (string \<times> bool) option" where
  "errors_as_send_error (SendError c p e) = Some (c, p)"
| "errors_as_send_error (Wrapf f as e) = errors_as_send_error e"
| "errors_as_send_error (Joined es) = first_some errors_as_send_error es"
| "errors_as_send_error e = None"

section \<open>The provider package's errors\<close>

definition PermanentSendError :: "string \<Rightarrow> error \<Rightarrow> error" where
  "PermanentSendError channel err =
     (case err of None \<Rightarrow> None | Some e \<Rightarrow> Some (SendError channel True e))"

definition TemporarySendError :: "string \<Rightarrow> error \<Rightarrow> error" where
  "TemporarySendError channel err =
     (case err of None \<Rightarrow> None | Some e \<Rightarrow> Some (SendError channel False e))"

text \<open>
  The walk calls \<open>visit\<close> on the leaves from left to right; the closure's captured variables
  are the state \<open>s\<close> it threads. A \<open>*SendError\<close> is a leaf although it wraps an error.
\<close>

fun walkLeafErrors :: "goerr \<Rightarrow> (goerr \<Rightarrow> 's \<Rightarrow> 's) \<Rightarrow> 's \<Rightarrow> 's" where
  "walkLeafErrors (SendError c p e) visit s = visit (SendError c p e) s"
| "walkLeafErrors (Joined es) visit s =
     (if es = [] then visit (Joined es) s
      else fold (\<lambda>child s. walkLeafErrors child visit s) es s)"
| "walkLeafErrors (Wrapf f as child) visit s = walkLeafErrors child visit s"
| "walkLeafErrors e visit s = visit e s"

definition visit_permanent :: "string \<Rightarrow> goerr \<Rightarrow> bool \<times> bool \<Rightarrow> bool \<times> bool" where
  "visit_permanent channel leaf s =
     (case s of (matched, only) \<Rightarrow>
        (case errors_as_send_error leaf of
           None \<Rightarrow> (matched, False)
         | Some (c, p) \<Rightarrow> if c \<noteq> channel \<or> \<not> p then (matched, False) else (True, only)))"

definition IsPermanentChannelOnly :: "error \<Rightarrow> string \<Rightarrow> bool" where
  "IsPermanentChannelOnly err channel =
     (case err of
        None \<Rightarrow> False
      | Some e \<Rightarrow>
          (case walkLeafErrors e (visit_permanent channel) (False, True) of
             (matched, only) \<Rightarrow> only \<and> matched))"

section \<open>Leaves, and what the classification means\<close>

fun leaves :: "goerr \<Rightarrow> goerr list" where
  "leaves (SendError c p e) = [SendError c p e]"
| "leaves (Joined es) = (if es = [] then [Joined es] else concat (map leaves es))"
| "leaves (Wrapf f as e) = leaves e"
| "leaves e = [e]"

lemma fold_walk_children:
  "(\<And>e s. e \<in> set es \<Longrightarrow> walkLeafErrors e visit s = fold visit (leaves e) s) \<Longrightarrow>
     fold (\<lambda>child. walkLeafErrors child visit) es s = fold visit (concat (map leaves es)) s"
  by (induction es arbitrary: s) auto

lemma walk_is_fold: "walkLeafErrors e visit s = fold visit (leaves e) s"
  by (induction e arbitrary: s) (auto simp: fold_walk_children)

lemma leaves_nonempty [simp]: "leaves e \<noteq> []"
proof (induction e)
  case (Joined es)
  then show ?case by (cases es) auto
qed auto

text \<open>No leaf hides a \<open>*SendError\<close> below it, so a leaf is one or has none.\<close>

lemma leaf_as_send_error:
  "l \<in> set (leaves e) \<Longrightarrow> errors_as_send_error l = Some (c, p) \<longleftrightarrow> (\<exists>x. l = SendError c p x)"
  by (induction e) (auto split: if_splits)

definition permanent_leaf :: "string \<Rightarrow> goerr \<Rightarrow> bool" where
  "permanent_leaf channel l = (case l of SendError c p _ \<Rightarrow> c = channel \<and> p | _ \<Rightarrow> False)"

lemma permanent_leaf_iff: "permanent_leaf channel l \<longleftrightarrow> (\<exists>x. l = SendError channel True x)"
  by (cases l) (auto simp: permanent_leaf_def)

lemma visit_permanent_leaf:
  assumes "l \<in> set (leaves e)"
  shows "visit_permanent channel l (m, o')
       = (if permanent_leaf channel l then (True, o') else (m, False))"
proof -
  have "permanent_leaf channel l \<longleftrightarrow> errors_as_send_error l = Some (channel, True)"
    by (simp add: permanent_leaf_iff leaf_as_send_error [OF assms])
  then show ?thesis
    by (auto simp: visit_permanent_def split: option.splits)
qed

lemma fold_visit_permanent:
  "set ls \<subseteq> set (leaves e) \<Longrightarrow>
     fold (visit_permanent channel) ls (m, o')
       = (m \<or> list_ex (permanent_leaf channel) ls, o' \<and> list_all (permanent_leaf channel) ls)"
  by (induction ls arbitrary: m o') (auto simp: visit_permanent_leaf)

lemma permanent_only_iff:
  "IsPermanentChannelOnly (Some e) channel \<longleftrightarrow> list_all (permanent_leaf channel) (leaves e)"
proof -
  have "list_all (permanent_leaf channel) (leaves e) \<Longrightarrow> list_ex (permanent_leaf channel) (leaves e)"
    by (cases "leaves e") auto
  then show ?thesis
    using fold_visit_permanent [of "leaves e" e channel False True]
    by (auto simp: IsPermanentChannelOnly_def walk_is_fold)
qed

lemma permanent_only_nil [simp]: "\<not> IsPermanentChannelOnly None channel"
  by (simp add: IsPermanentChannelOnly_def)

lemma permanent_only_Wrapf [simp]:
  "IsPermanentChannelOnly (Some (Wrapf f as e)) channel = IsPermanentChannelOnly (Some e) channel"
  by (simp add: permanent_only_iff)

lemma permanent_only_Joined [simp]:
  "es \<noteq> [] \<Longrightarrow> IsPermanentChannelOnly (Some (Joined es)) channel
     = list_all (\<lambda>e. IsPermanentChannelOnly (Some e) channel) es"
  by (auto simp: permanent_only_iff list_all_iff)

lemma permanent_only_SendError [simp]:
  "IsPermanentChannelOnly (Some (SendError c p e)) channel \<longleftrightarrow> c = channel \<and> p"
  by (simp add: permanent_only_iff permanent_leaf_iff)

lemma permanent_only_Errorf [simp]:
  "\<not> IsPermanentChannelOnly (Some (Errorf f as)) channel"
  "\<not> IsPermanentChannelOnly (Some (Sentinel s)) channel"
  "\<not> IsPermanentChannelOnly (Some (CsarError k f as)) channel"
  "\<not> IsPermanentChannelOnly (Some (CsarCause k f e)) channel"
  by (simp_all add: permanent_only_iff permanent_leaf_iff)

text \<open>
  Accumulating with \<open>errors.Join(acc, e)\<close>, as the dispatcher and the Web Push provider do:
  the result is nil iff nothing was added, and the classification is that of all parts.
\<close>

lemma errors_Join_None_iff [simp]: "errors_Join es = None \<longleftrightarrow> (\<forall>e \<in> set es. e = None)"
  by (induction es) (auto simp: errors_Join_def map_filter_simps Let_def split: option.splits)

lemma permanent_only_Join2 [simp]:
  "IsPermanentChannelOnly (errors_Join [a, Some e]) channel \<longleftrightarrow>
     (a = None \<or> IsPermanentChannelOnly a channel) \<and> IsPermanentChannelOnly (Some e) channel"
  by (cases a) (simp_all add: errors_Join_def map_filter_simps)

lemma errors_Join2_Some [simp]: "errors_Join [a, Some e] \<noteq> None"
  by simp

text \<open>
  C22: the classification that lets a failed notification be acknowledged: the error of a
  dispatch is "permanent on this channel only" exactly when every leaf of the error tree, looked at
  through wrapping and joining, is a \<open>*SendError\<close> of that channel with the permanent flag.
\<close>

theorem permanent_only_characterisation:
  "IsPermanentChannelOnly err channel \<longleftrightarrow>
     (\<exists>e. err = Some e \<and> set (leaves e) \<subseteq> {l. \<exists>x. l = SendError channel True x})"
  by (cases err) (auto simp: permanent_only_iff list_all_iff permanent_leaf_iff)

end
