(* ===== verification/Config.thy ===== *)
theory Config
  imports Complex_Main Json Errors
begin

text \<open>
  \<open>internal/config/config.go\<close>: the configuration, its defaults and its validation, and the two
  resolutions the providers start from: the Redis prefixes of the site targets and the Telegram
  bots. A Go map is an association list whose order is the order in which a \<open>range\<close> meets the keys,
  so that every permutation stands for the same map. The YAML parser and the expansion of
  environment variables (third-party packages) are the parameter \<open>P\<close>, with \<open>net/url\<close> and
  \<open>net/mail\<close>, whose parsers only decide here which subscriber texts are accepted.
\<close>

section \<open>The configuration\<close>

record service_config = sv_Name :: string  sv_Port :: int  sv_HealthPort :: int

record tls_section =
  tls_CertFile :: string
  tls_KeyFile :: string
  tls_ClientCAFile :: string
  tls_MinVersion :: string

record rabbitmq_config = rq_URL :: string  rq_ReconnectDelay :: int
record redis_config = rd_URL :: string  rd_Prefix :: string
record ingest_config = ig_BufferSize :: int  ig_PublisherWorkers :: int
record consumer_queue_config = cq_Name :: string  cq_Durable :: bool  cq_Prefetch :: int
record consumer_dlq_config = cd_Name :: string  cd_Durable :: bool

record consumer_config =
  co_Queue :: consumer_queue_config
  co_DLQ :: consumer_dlq_config
  co_BatchSize :: int
  co_FlushInterval :: int
  co_MaxRedeliveries :: int

record site_target = RedisPrefix :: string

record site_config =
  sc_Enabled :: bool
  sc_DefaultTarget :: string
  sc_Targets :: "site_target go_map"

record telegram_bot = tb_Token :: string  tb_APIBaseURL :: string

record telegram_config =
  tc_Enabled :: bool
  tc_DefaultBot :: string
  tc_BotToken :: string
  tc_APIBaseURL :: string
  tc_Bots :: "telegram_bot go_map"

record web_push_config =
  wp_Enabled :: bool
  wp_Subscriber :: string
  wp_VAPIDPublicKey :: string
  wp_VAPIDPrivateKey :: string

record providers_config =
  pc_Site :: site_config
  pc_Telegram :: telegram_config
  pc_EmailEnabled :: bool
  pc_WebPush :: web_push_config

record config =
  c_Service :: service_config
  c_TLS :: tls_section
  c_DatabaseDSN :: string
  c_RabbitMQ :: rabbitmq_config
  c_Redis :: redis_config
  c_Ingest :: ingest_config
  c_Consumer :: consumer_config
  c_Providers :: providers_config
  c_AllowedClientCN :: string
  c_TracingEndpoint :: string
  c_SampleRatio :: rat

record parsed_url = u_Scheme :: string  u_Host :: string  u_String :: string

record parsers =
  yaml_Unmarshal :: "string \<Rightarrow> goerr + config"
  ExpandEnv :: "config \<Rightarrow> config"
  url_Parse :: "string \<Rightarrow> parsed_url option"
  mail_ParseAddress :: "string \<Rightarrow> string option"

section \<open>Site targets\<close>

fun target_loop :: "site_target go_map \<Rightarrow> site_target go_map \<Rightarrow> goerr + site_target go_map" where
  "target_loop [] targets = Inr targets"
| "target_loop ((rawName, rawTarget) # rest) targets =
     (let name = trim_space rawName in
      if name = [] then Inl (Errorf ''providers.site.targets keys must not be empty'' [])
      else target_loop rest (go_put name \<lparr>RedisPrefix = trim_space (RedisPrefix rawTarget)\<rparr> targets))"

definition fill_prefix :: "string \<Rightarrow> nat \<Rightarrow> string \<times> site_target \<Rightarrow> string \<times> site_target" where
  "fill_prefix basePrefix k nt =
     (case nt of (name, target) \<Rightarrow>
        (name, if RedisPrefix target = [] then
                 target\<lparr>RedisPrefix := (if k = 1 then basePrefix else basePrefix @ name @ '':'')\<rparr>
               else target))"

definition EffectiveTargets :: "site_config \<Rightarrow> string \<Rightarrow> goerr + site_target go_map \<times> string" where
  "EffectiveTargets s basePrefix =
     (case target_loop (sc_Targets s) [] of
        Inl e \<Rightarrow> Inl e
      | Inr targets \<Rightarrow>
          (let defaultTarget = trim_space (sc_DefaultTarget s) in
           if length targets = 0 then
             (let defaultTarget = (if defaultTarget = [] then ''default'' else defaultTarget)
              in Inr ([(defaultTarget, \<lparr>RedisPrefix = basePrefix\<rparr>)], defaultTarget))
           else if defaultTarget = [] \<and> length targets \<noteq> 1 then
             Inl (Errorf ''providers.site.default_target is required when multiple site targets are configured'' [])
           else
             (let defaultTarget = (if defaultTarget = [] then fst (hd targets) else defaultTarget) in
              if go_get targets defaultTarget = None then
                Inl (Errorf ''providers.site.default_target %q is not defined under providers.site.targets''
                       [AStr defaultTarget])
              else Inr (map (fill_prefix basePrefix (length targets)) targets, defaultTarget))))"

section \<open>Telegram bots\<close>

definition telegram_api :: string where "telegram_api = ''https://api.telegram.org''"
definition legacyBotName :: string where "legacyBotName = ''default''"

fun bot_loop :: "telegram_bot go_map \<Rightarrow> telegram_bot go_map \<Rightarrow> goerr + telegram_bot go_map" where
  "bot_loop [] bots = Inr bots"
| "bot_loop ((rawName, rawBot) # rest) bots =
     (let name = trim_space rawName;
          token = trim_space (tb_Token rawBot);
          api = trim_space (tb_APIBaseURL rawBot)
      in if name = [] then Inl (Errorf ''providers.telegram.bots keys must not be empty'' [])
         else if token = [] then Inl (Errorf ''providers.telegram.bots.%s.token is required'' [AStr name])
         else bot_loop rest
                (go_put name \<lparr>tb_Token = token, tb_APIBaseURL = (if api = [] then telegram_api else api)\<rparr> bots))"

definition with_legacy_bot :: "telegram_config \<Rightarrow> telegram_bot go_map \<Rightarrow> telegram_bot go_map" where
  "with_legacy_bot t bots =
     (let token = trim_space (tc_BotToken t); api = trim_space (tc_APIBaseURL t)
      in if token \<noteq> [] then
           go_put legacyBotName
             \<lparr>tb_Token = token, tb_APIBaseURL = (if api = [] then telegram_api else api)\<rparr> bots
         else bots)"

definition EffectiveBots :: "telegram_config \<Rightarrow> goerr + telegram_bot go_map \<times> string" where
  "EffectiveBots t =
     (case bot_loop (tc_Bots t) [] of
        Inl e \<Rightarrow> Inl e
      | Inr bots0 \<Rightarrow>
          (let bots = with_legacy_bot t bots0; defaultBot = trim_space (tc_DefaultBot t) in
           if length bots = 0 then
             Inl (Errorf ''providers.telegram requires bot_token or bots when telegram is enabled'' [])
           else if defaultBot = [] \<and> go_get bots legacyBotName = None \<and> length bots \<noteq> 1 then
             Inl (Errorf ''providers.telegram.default_bot is required when multiple bots are configured'' [])
           else
             (let defaultBot = (if defaultBot = [] then
                                  (if go_get bots legacyBotName \<noteq> None then legacyBotName else fst (hd bots))
                                else defaultBot) in
              if go_get bots defaultBot = None then
                Inl (Errorf ''providers.telegram.default_bot %q is not defined'' [AStr defaultBot])
              else Inr (bots, defaultBot))))"

section \<open>The Web Push subscriber\<close>

definition subscriber_error :: goerr where
  "subscriber_error = Errorf ''providers.web_push.subscriber must be a bare e-mail, mailto: e-mail, or https URL'' []"

text \<open>\<open>strings.EqualFold\<close>, up to the foldings that touch ASCII letters.\<close>

definition equal_fold :: "string \<Rightarrow> string \<Rightarrow> bool" where
  "equal_fold s t \<longleftrightarrow> fold_name s = fold_name t"

definition normalizeWebPushSubscriber :: "parsers \<Rightarrow> string \<Rightarrow> goerr + string" where
  "normalizeWebPushSubscriber P raw =
     (let subscriber = trim_space raw in
      if subscriber = [] then
        Inl (Errorf ''providers.web_push.subscriber is required when web_push is enabled (e.g. ops@example.com or https://example.com/contact)'' [])
      else
        (let subscriber = (if has_prefix (to_lower subscriber) ''mailto:'' then
                             trim_space (drop (length ''mailto:'') subscriber) else subscriber)
         in if has_prefix (to_lower subscriber) ''https://'' then
              (case url_Parse P subscriber of
                 None \<Rightarrow> Inl subscriber_error
               | Some u \<Rightarrow>
                   if u_Scheme u \<noteq> ''https'' \<or> u_Host u = [] then Inl subscriber_error else Inr (u_String u))
            else
              (case mail_ParseAddress P subscriber of
                 None \<Rightarrow> Inl subscriber_error
               | Some addr \<Rightarrow>
                   if \<not> equal_fold (trim_space addr) subscriber then Inl subscriber_error else Inr addr)))"

section \<open>Defaults\<close>

definition default_str :: "string \<Rightarrow> string \<Rightarrow> string" where
  "default_str v d = (if v = [] then d else v)"

definition default_int :: "int \<Rightarrow> int \<Rightarrow> int" where
  "default_int v d = (if v = 0 then d else v)"

definition default_bots :: "string \<Rightarrow> telegram_bot go_map \<Rightarrow> telegram_bot go_map" where
  "default_bots api bots =
     map (\<lambda>(name, bot). (name, if trim_space (tb_APIBaseURL bot) = [] then bot\<lparr>tb_APIBaseURL := api\<rparr> else bot)) bots"

definition default_service :: "service_config \<Rightarrow> service_config" where
  "default_service s = \<lparr>sv_Name = default_str (sv_Name s) ''csar-notify'',
     sv_Port = default_int (sv_Port s) 8085, sv_HealthPort = default_int (sv_HealthPort s) 9085\<rparr>"

definition default_ingest :: "ingest_config \<Rightarrow> ingest_config" where
  "default_ingest i = \<lparr>ig_BufferSize = default_int (ig_BufferSize i) 10000,
     ig_PublisherWorkers = default_int (ig_PublisherWorkers i) 4\<rparr>"

definition default_consumer :: "consumer_config \<Rightarrow> consumer_config" where
  "default_consumer c =
     c\<lparr>co_Queue := (co_Queue c)\<lparr>cq_Name := default_str (cq_Name (co_Queue c)) ''notify.events'',
                               cq_Prefetch := default_int (cq_Prefetch (co_Queue c)) 200\<rparr>,
       co_DLQ := (co_DLQ c)\<lparr>cd_Name := default_str (cd_Name (co_DLQ c)) ''notify.events.dlq''\<rparr>,
       co_BatchSize := default_int (co_BatchSize c) 200,
       co_FlushInterval := default_int (co_FlushInterval c) 2000000000,
       co_MaxRedeliveries := default_int (co_MaxRedeliveries c) 3\<rparr>"

definition default_telegram :: "telegram_config \<Rightarrow> telegram_config" where
  "default_telegram t =
     (let api = default_str (tc_APIBaseURL t) telegram_api
      in t\<lparr>tc_APIBaseURL := api, tc_Bots := default_bots api (tc_Bots t)\<rparr>)"

definition defaults :: "config \<Rightarrow> config" where
  "defaults cfg =
     cfg\<lparr>c_Service := default_service (c_Service cfg),
         c_Redis := (c_Redis cfg)\<lparr>rd_Prefix := default_str (rd_Prefix (c_Redis cfg)) ''notify:''\<rparr>,
         c_Ingest := default_ingest (c_Ingest cfg),
         c_Consumer := default_consumer (c_Consumer cfg),
         c_Providers := (c_Providers cfg)\<lparr>pc_Telegram := default_telegram (pc_Telegram (c_Providers cfg))\<rparr>,
         c_SampleRatio := (if c_SampleRatio cfg = 0 then 1 else c_SampleRatio cfg)\<rparr>"

section \<open>Validation and loading\<close>

text \<open>The checks before the providers' own; the first that fails is reported.\<close>

definition validate_basic :: "config \<Rightarrow> error" where
  "validate_basic c =
     (if c_DatabaseDSN c = [] then Some (Errorf ''database.dsn is required'' [])
      else if rq_URL (c_RabbitMQ c) = [] then Some (Errorf ''rabbitmq.url is required'' [])
      else if rd_URL (c_Redis c) = [] then Some (Errorf ''redis.url is required'' [])
      else if ig_BufferSize (c_Ingest c) < 1 then Some (Errorf ''ingest.buffer_size must be >= 1'' [])
      else if ig_PublisherWorkers (c_Ingest c) < 1 then Some (Errorf ''ingest.publisher_workers must be >= 1'' [])
      else if co_BatchSize (c_Consumer c) < 1 then Some (Errorf ''consumer.batch_size must be >= 1'' [])
      else if cq_Name (co_Queue (c_Consumer c)) = [] then Some (Errorf ''consumer.queue.name is required'' [])
      else if cd_Name (co_DLQ (c_Consumer c)) = [] then Some (Errorf ''consumer.dlq.name is required'' [])
      else if pc_EmailEnabled (c_Providers c) then Some (Errorf ''providers.email is not implemented yet'' [])
      else None)"

definition validate_web_push :: "parsers \<Rightarrow> web_push_config \<Rightarrow> goerr + web_push_config" where
  "validate_web_push P w =
     (if \<not> wp_Enabled w then Inr w
      else (case normalizeWebPushSubscriber P (wp_Subscriber w) of
              Inl e \<Rightarrow> Inl e
            | Inr subscriber \<Rightarrow>
                if trim_space (wp_VAPIDPublicKey w) = [] \<or> trim_space (wp_VAPIDPrivateKey w) = [] then
                  Inl (Errorf ''providers.web_push.vapid_public_key and vapid_private_key are required when web_push is enabled'' [])
                else Inr (w\<lparr>wp_Subscriber := subscriber\<rparr>)))"

text \<open>\<open>validate\<close> also replaces the subscriber by its normal form: it returns the configuration.\<close>

definition validate_config :: "parsers \<Rightarrow> config \<Rightarrow> goerr + config" where
  "validate_config P c =
     (case validate_basic c of
        Some e \<Rightarrow> Inl e
      | None \<Rightarrow>
          (case (if sc_Enabled (pc_Site (c_Providers c)) then
                   EffectiveTargets (pc_Site (c_Providers c)) (rd_Prefix (c_Redis c)) else Inr ([], [])) of
             Inl e \<Rightarrow> Inl e
           | Inr _ \<Rightarrow>
               (case (if tc_Enabled (pc_Telegram (c_Providers c)) then
                        EffectiveBots (pc_Telegram (c_Providers c)) else Inr ([], [])) of
                  Inl e \<Rightarrow> Inl e
                | Inr _ \<Rightarrow>
                    (case validate_web_push P (pc_WebPush (c_Providers c)) of
                       Inl e \<Rightarrow> Inl e
                     | Inr w \<Rightarrow> Inr (c\<lparr>c_Providers := (c_Providers c)\<lparr>pc_WebPush := w\<rparr>\<rparr>)))))"

definition LoadFromBytes :: "parsers \<Rightarrow> string \<Rightarrow> goerr + config" where
  "LoadFromBytes P data =
     (case yaml_Unmarshal P data of
        Inl e \<Rightarrow> Inl (Wrapf ''parse config: %w'' [] e)
      | Inr cfg \<Rightarrow> validate_config P (defaults (ExpandEnv P cfg)))"

definition HTTPAddr :: "config \<Rightarrow> string" where
  "HTTPAddr c = '':'' @ show_int (sv_Port (c_Service c))"

definition HealthAddr :: "config \<Rightarrow> string" where
  "HealthAddr c = '':'' @ show_int (sv_HealthPort (c_Service c))"

end
