(* ===== verification/ConfigProps.thy ===== *)
theory ConfigProps
  imports Config
begin

text \<open>
  What a loaded configuration guarantees to the rest of the service, and what the resolution of site
  targets and bots returns, including its dependence on the order in which a map is ranged over.
\<close>

section \<open>Site targets\<close>

definition trimmed_target :: "string \<times> site_target \<Rightarrow> string \<times> site_target" where
  "trimmed_target nt = (trim_space (fst nt), \<lparr>RedisPrefix = trim_space (RedisPrefix (snd nt))\<rparr>)"

lemma go_put_new: "k \<notin> fst ` set m \<Longrightarrow> go_put k v m = m @ [(k, v)]"
  by (induction m) auto

lemma target_loop_Inr:
  "target_loop raw acc = Inr ts \<Longrightarrow> is_go_map acc \<Longrightarrow>
     is_go_map ts \<and> fst ` set ts = fst ` set acc \<union> (\<lambda>nt. trim_space (fst nt)) ` set raw
     \<and> (\<forall>nt \<in> set raw. trim_space (fst nt) \<noteq> [])"
  by (induction raw acc rule: target_loop.induct)
     (auto simp: Let_def keys_go_put distinct_update split: if_splits)

lemma target_loop_Inl: "target_loop raw acc = Inl e \<Longrightarrow>
    e = Errorf ''providers.site.targets keys must not be empty'' [] \<and> (\<exists>nt \<in> set raw. trim_space (fst nt) = [])"
  by (induction raw acc rule: target_loop.induct) (auto simp: Let_def split: if_splits)

lemma target_loop_distinct:
  "distinct (map fst acc @ map (\<lambda>nt. trim_space (fst nt)) raw) \<Longrightarrow> (\<forall>nt \<in> set raw. trim_space (fst nt) \<noteq> []) \<Longrightarrow>
     target_loop raw acc = Inr (acc @ map trimmed_target raw)"
  by (induction raw acc rule: target_loop.induct) (auto simp: Let_def go_put_new trimmed_target_def)

lemma map_fill_prefix_keys [simp]: "map fst (map (fill_prefix base k) ts) = map fst ts"
  by (auto simp: fill_prefix_def)

definition target_ok :: "string \<Rightarrow> string \<times> site_target \<Rightarrow> bool" where
  "target_ok base nt \<longleftrightarrow> fst nt \<noteq> [] \<and> trim_space (fst nt) = fst nt \<and> (base = [] \<or> RedisPrefix (snd nt) \<noteq> [])"

lemma EffectiveTargets_Inr:
  assumes "EffectiveTargets s base = Inr (ts, d)"
  shows "is_go_map ts \<and> go_get ts d \<noteq> None \<and> list_all (target_ok base) ts"
proof -
  obtain raw where raw: "target_loop (sc_Targets s) [] = Inr raw"
    using assms by (auto simp: EffectiveTargets_def split: sum.splits)
  note loop = target_loop_Inr [OF raw]
  show ?thesis
  proof (cases "length raw = 0")
    case True
    then show ?thesis
      using assms raw by (auto simp: EffectiveTargets_def Let_def target_ok_def split: if_splits) (code_simp)
  next
    case False
    then have ts: "ts = map (fill_prefix base (length raw)) raw" and d: "go_get raw d \<noteq> None"
      using assms raw by (auto simp: EffectiveTargets_def Let_def split: if_splits)
    have "go_get ts d \<noteq> None"
      using d map_fill_prefix_keys [of base "length raw" raw] unfolding ts map_of_eq_None_iff
      by (metis set_map)
    moreover have "is_go_map ts" unfolding ts map_fill_prefix_keys using loop by simp
    moreover have "list_all (target_ok base) ts"
      unfolding ts list_all_iff
    proof safe
      fix n t assume "(n, t) \<in> set (map (fill_prefix base (length raw)) raw)"
      then obtain t0 where t0: "(n, t0) \<in> set raw" "(n, t) = fill_prefix base (length raw) (n, t0)"
        by (auto simp: fill_prefix_def split: if_splits)
      then have "n \<in> (\<lambda>nt. trim_space (fst nt)) ` set (sc_Targets s)" using loop by force
      then have "n \<noteq> [] \<and> trim_space n = n" using loop by auto
      then show "target_ok base (n, t)"
        using t0(2) by (auto simp: target_ok_def fill_prefix_def split: if_splits)
    qed
    ultimately show ?thesis by blast
  qed
qed

text \<open>
  The site targets a provider starts with: when \<open>EffectiveTargets\<close> succeeds there is at least one
  target, every name is trimmed, not blank and occurs once, the default target is one of them,
  and every target has a Redis prefix of its own (when the base prefix is not empty).
\<close>

theorem effective_targets_sound:
  assumes "EffectiveTargets s base = Inr (ts, d)"
  shows "is_go_map ts \<and> go_get ts d \<noteq> None \<and> list_all (target_ok base) ts"
  by (rule EffectiveTargets_Inr [OF assms])

lemma sole_target:
  assumes "mset xs = mset ys" and "length xs = 1"
  shows "xs = ys"
proof -
  obtain x where "xs = [x]" using assms(2) by (metis One_nat_def length_0_conv length_Suc_conv)
  with assms(1) show ?thesis by (simp add: mset_single_iff_right)
qed

text \<open>
  The resolution does not depend on the order in which the map of targets is ranged over, as
  long as no two configured names are equal after trimming.
\<close>

theorem effective_targets_order:
  assumes "mset (sc_Targets s') = mset (sc_Targets s)" and "sc_DefaultTarget s' = sc_DefaultTarget s"
    and "distinct (map (\<lambda>nt. trim_space (fst nt)) (sc_Targets s))"
  shows "case EffectiveTargets s base of
      Inl e \<Rightarrow> EffectiveTargets s' base = Inl e
    | Inr (ts, d) \<Rightarrow> \<exists>ts'. EffectiveTargets s' base = Inr (ts', d) \<and> map_of ts' = map_of ts"
proof (cases "\<exists>nt \<in> set (sc_Targets s). trim_space (fst nt) = []")
  case True
  have "\<exists>nt \<in> set (sc_Targets s'). trim_space (fst nt) = []"
    using True assms(1) by (metis set_mset_mset)
  then obtain e e' where "target_loop (sc_Targets s) [] = Inl e" "target_loop (sc_Targets s') [] = Inl e'"
    using True target_loop_Inr by (metis list.simps(8) distinct.simps(1) sum.exhaust)
  moreover from this have "e' = e" using target_loop_Inl by blast
  ultimately show ?thesis by (simp add: EffectiveTargets_def)
next
  case False
  have set: "set (sc_Targets s') = set (sc_Targets s)" using assms(1) by (metis set_mset_mset)
  have "mset (map (\<lambda>nt. trim_space (fst nt)) (sc_Targets s')) = mset (map (\<lambda>nt. trim_space (fst nt)) (sc_Targets s))"
    using assms(1) by simp
  then have dist': "distinct (map (\<lambda>nt. trim_space (fst nt)) (sc_Targets s'))"
    using assms(3) mset_eq_imp_distinct_iff by blast
  let ?T = "map trimmed_target (sc_Targets s)" and ?T' = "map trimmed_target (sc_Targets s')"
  have loops: "target_loop (sc_Targets s) [] = Inr ?T" "target_loop (sc_Targets s') [] = Inr ?T'"
    using False set assms(3) dist' by (simp_all add: target_loop_distinct)
  have perm: "mset ?T' = mset ?T" using assms(1) by simp
  have len: "length ?T' = length ?T" by (metis perm size_mset)
  have dT: "is_go_map ?T" using assms(3) by (simp add: trimmed_target_def o_def)
  have look: "map_of ?T' = map_of ?T" by (rule go_map_perm_lookup(2) [OF dT perm])
  have fills: "map_of (map (fill_prefix base k) ?T') = map_of (map (fill_prefix base k) ?T)" for k
  proof (rule go_map_perm_lookup(2))
    show "is_go_map (map (fill_prefix base k) ?T)" unfolding map_fill_prefix_keys by (rule dT)
    show "mset (map (fill_prefix base k) ?T') = mset (map (fill_prefix base k) ?T)"
      using perm by (metis mset_map)
  qed
  have sole: "length ?T = 1 \<Longrightarrow> ?T' = ?T" using sole_target [of ?T' ?T] perm len by metis
  show ?thesis
    unfolding EffectiveTargets_def loops sum.case Let_def assms(2) len look
    using fills [of "length ?T"] sole by (auto split: if_splits)
qed

definition colliding_targets :: "site_target go_map" where
  "colliding_targets = [(''main'', \<lparr>RedisPrefix = ''a:''\<rparr>), ('' main'', \<lparr>RedisPrefix = ''b:''\<rparr>)]"

text \<open>
  Two configured names that are equal after trimming: which of the two prefixes the target gets
  depends on the order in which Go ranges over the map, which is not fixed.
\<close>

theorem effective_targets_order_matters:
  "map_option RedisPrefix (case EffectiveTargets \<lparr>sc_Enabled = True, sc_DefaultTarget = ''main'',
       sc_Targets = colliding_targets\<rparr> ''notify:'' of Inr (ts, d) \<Rightarrow> go_get ts d | Inl _ \<Rightarrow> None) = Some ''b:''
   \<and> map_option RedisPrefix (case EffectiveTargets \<lparr>sc_Enabled = True, sc_DefaultTarget = ''main'',
       sc_Targets = rev colliding_targets\<rparr> ''notify:'' of Inr (ts, d) \<Rightarrow> go_get ts d | Inl _ \<Rightarrow> None) = Some ''a:''"
  by code_simp

definition sample_site :: site_config where
  "sample_site = \<lparr>sc_Enabled = True, sc_DefaultTarget = ''admin'',
     sc_Targets = [(''admin'', \<lparr>RedisPrefix = []\<rparr>), (''main'', \<lparr>RedisPrefix = ''notify:main:''\<rparr>)]\<rparr>"

lemma sample_targets:
  "EffectiveTargets sample_site ''notify:''
     = Inr ([(''admin'', \<lparr>RedisPrefix = ''notify:admin:''\<rparr>), (''main'', \<lparr>RedisPrefix = ''notify:main:''\<rparr>)], ''admin'')"
  by code_simp

theorem effective_targets_sound_witness:
  "go_get [(''admin'', \<lparr>RedisPrefix = ''notify:admin:''\<rparr>), (''main'', \<lparr>RedisPrefix = ''notify:main:''\<rparr>)] ''admin'' \<noteq> None"
  using effective_targets_sound [OF sample_targets] by blast

theorem effective_targets_order_witness:
  "\<exists>ts'. EffectiveTargets (sample_site\<lparr>sc_Targets := rev (sc_Targets sample_site)\<rparr>) ''notify:'' = Inr (ts', ''admin'')"
proof -
  have "distinct (map (\<lambda>nt. trim_space (fst nt)) (sc_Targets sample_site))" by code_simp
  then show ?thesis
    using effective_targets_order [of "sample_site\<lparr>sc_Targets := rev (sc_Targets sample_site)\<rparr>" sample_site "''notify:''"]
    by (auto simp: sample_targets)
qed

section \<open>Bots\<close>

definition bot_ok :: "string \<times> telegram_bot \<Rightarrow> bool" where
  "bot_ok nb \<longleftrightarrow> fst nb \<noteq> [] \<and> tb_Token (snd nb) \<noteq> [] \<and> trim_space (tb_Token (snd nb)) = tb_Token (snd nb)
     \<and> tb_APIBaseURL (snd nb) \<noteq> []"

lemma set_go_put_subset: "set (go_put k v m) \<subseteq> insert (k, v) (set m)"
  by (induction m) auto

lemma bot_loop_Inr:
  "bot_loop raw acc = Inr out \<Longrightarrow> is_go_map acc \<Longrightarrow> list_all bot_ok acc \<Longrightarrow> is_go_map out \<and> list_all bot_ok out"
proof (induction raw acc rule: bot_loop.induct)
  case (2 rawName rawBot rest bots)
  let ?name = "trim_space rawName" and ?token = "trim_space (tb_Token rawBot)"
  let ?bot = "\<lparr>tb_Token = ?token, tb_APIBaseURL = (if trim_space (tb_APIBaseURL rawBot) = [] then telegram_api
      else trim_space (tb_APIBaseURL rawBot))\<rparr>"
  have ne: "?name \<noteq> []" "?token \<noteq> []" and rest: "bot_loop rest (go_put ?name ?bot bots) = Inr out"
    using 2(2) by (auto simp: Let_def split: if_splits)
  have "bot_ok (?name, ?bot)" using ne by (simp add: bot_ok_def telegram_api_def)
  then have "list_all bot_ok (go_put ?name ?bot bots)"
    using 2(4) set_go_put_subset [of ?name ?bot bots] by (auto simp: list_all_iff)
  then show ?case using 2(1) [OF refl refl refl ne rest] 2(3) by (simp add: distinct_update)
qed simp

lemma with_legacy_bot_ok:
  assumes "is_go_map bots" and "list_all bot_ok bots"
  shows "is_go_map (with_legacy_bot t bots) \<and> list_all bot_ok (with_legacy_bot t bots)"
proof (cases "trim_space (tc_BotToken t) = []")
  case True
  then show ?thesis using assms by (simp add: with_legacy_bot_def)
next
  case False
  let ?bot = "\<lparr>tb_Token = trim_space (tc_BotToken t), tb_APIBaseURL =
      (if trim_space (tc_APIBaseURL t) = [] then telegram_api else trim_space (tc_APIBaseURL t))\<rparr>"
  have "bot_ok (legacyBotName, ?bot)" using False by (simp add: bot_ok_def telegram_api_def legacyBotName_def)
  then have "list_all bot_ok (go_put legacyBotName ?bot bots)"
    using assms(2) set_go_put_subset [of legacyBotName ?bot bots] by (auto simp: list_all_iff)
  then show ?thesis using assms(1) False by (simp add: with_legacy_bot_def Let_def distinct_update)
qed

text \<open>
  The bots the Telegram provider starts with: when \<open>EffectiveBots\<close> succeeds the default bot is one
  of them and every bot has a name, a token without surrounding space and an API address.
\<close>

theorem effective_bots_sound:
  assumes "EffectiveBots t = Inr (bots, d)"
  shows "is_go_map bots \<and> go_get bots d \<noteq> None \<and> list_all bot_ok bots"
proof -
  obtain raw where raw: "bot_loop (tc_Bots t) [] = Inr raw"
    using assms by (auto simp: EffectiveBots_def split: sum.splits)
  have "is_go_map raw \<and> list_all bot_ok raw" by (rule bot_loop_Inr [OF raw]) simp_all
  moreover have "bots = with_legacy_bot t raw" "go_get bots d \<noteq> None"
    using assms raw by (auto simp: EffectiveBots_def Let_def split: if_splits)
  ultimately show ?thesis using with_legacy_bot_ok by blast
qed

definition sample_telegram :: telegram_config where
  "sample_telegram = \<lparr>tc_Enabled = True, tc_DefaultBot = [], tc_BotToken = '' tok '', tc_APIBaseURL = [], tc_Bots = []\<rparr>"

theorem effective_bots_sound_witness:
  "go_get [(''default'', \<lparr>tb_Token = ''tok'', tb_APIBaseURL = ''https://api.telegram.org''\<rparr>)] ''default'' \<noteq> None"
proof -
  have "EffectiveBots sample_telegram
      = Inr ([(''default'', \<lparr>tb_Token = ''tok'', tb_APIBaseURL = ''https://api.telegram.org''\<rparr>)], ''default'')"
    by code_simp
  from effective_bots_sound [OF this] show ?thesis by blast
qed

section \<open>A loaded configuration\<close>

text \<open>
  A VAPID contact in normal form: an https URL with a host as \<open>net/url\<close> prints it, or a bare address
  as \<open>net/mail\<close> gives it back.
\<close>

definition contact :: "parsers \<Rightarrow> string \<Rightarrow> bool" where
  "contact P s \<longleftrightarrow>
     (\<exists>t u. has_prefix (to_lower t) ''https://'' \<and> url_Parse P t = Some u \<and> u_Scheme u = ''https'' \<and> u_Host u \<noteq> []
        \<and> s = u_String u)
     \<or> (\<exists>t. \<not> has_prefix (to_lower t) ''https://'' \<and> mail_ParseAddress P t = Some s \<and> equal_fold (trim_space s) t)"

definition config_ok :: "parsers \<Rightarrow> config \<Rightarrow> bool" where
  "config_ok P c \<longleftrightarrow>
     c_DatabaseDSN c \<noteq> [] \<and> rq_URL (c_RabbitMQ c) \<noteq> [] \<and> rd_URL (c_Redis c) \<noteq> [] \<and> rd_Prefix (c_Redis c) \<noteq> []
     \<and> ig_BufferSize (c_Ingest c) \<ge> 1 \<and> ig_PublisherWorkers (c_Ingest c) \<ge> 1 \<and> co_BatchSize (c_Consumer c) \<ge> 1
     \<and> cq_Name (co_Queue (c_Consumer c)) \<noteq> [] \<and> cd_Name (co_DLQ (c_Consumer c)) \<noteq> []
     \<and> co_MaxRedeliveries (c_Consumer c) \<noteq> 0 \<and> co_FlushInterval (c_Consumer c) \<noteq> 0
     \<and> \<not> pc_EmailEnabled (c_Providers c)
     \<and> (sc_Enabled (pc_Site (c_Providers c)) \<longrightarrow>
           (\<exists>r. EffectiveTargets (pc_Site (c_Providers c)) (rd_Prefix (c_Redis c)) = Inr r))
     \<and> (tc_Enabled (pc_Telegram (c_Providers c)) \<longrightarrow> (\<exists>r. EffectiveBots (pc_Telegram (c_Providers c)) = Inr r))
     \<and> (wp_Enabled (pc_WebPush (c_Providers c)) \<longrightarrow>
           trim_space (wp_VAPIDPublicKey (pc_WebPush (c_Providers c))) \<noteq> []
           \<and> trim_space (wp_VAPIDPrivateKey (pc_WebPush (c_Providers c))) \<noteq> []
           \<and> contact P (wp_Subscriber (pc_WebPush (c_Providers c))))"

lemma validate_basic_None_iff:
  "validate_basic c = None \<longleftrightarrow> c_DatabaseDSN c \<noteq> [] \<and> rq_URL (c_RabbitMQ c) \<noteq> [] \<and> rd_URL (c_Redis c) \<noteq> []
     \<and> ig_BufferSize (c_Ingest c) \<ge> 1 \<and> ig_PublisherWorkers (c_Ingest c) \<ge> 1 \<and> co_BatchSize (c_Consumer c) \<ge> 1
     \<and> cq_Name (co_Queue (c_Consumer c)) \<noteq> [] \<and> cd_Name (co_DLQ (c_Consumer c)) \<noteq> []
     \<and> \<not> pc_EmailEnabled (c_Providers c)"
  by (simp add: validate_basic_def)

lemma validate_web_push_Inr:
  "validate_web_push P w = Inr w' \<Longrightarrow>
     wp_Enabled w' = wp_Enabled w \<and> (wp_Enabled w' \<longrightarrow> trim_space (wp_VAPIDPublicKey w') \<noteq> []
       \<and> trim_space (wp_VAPIDPrivateKey w') \<noteq> [] \<and> normalizeWebPushSubscriber P (wp_Subscriber w) = Inr (wp_Subscriber w'))"
  by (auto simp: validate_web_push_def split: if_splits sum.splits)

lemma normalized_contact:
  assumes "normalizeWebPushSubscriber P raw = Inr s"
  shows "contact P s"
  using assms unfolding normalizeWebPushSubscriber_def contact_def Let_def
  by (fastforce split: if_splits option.splits)

lemma validate_config_Inr:
  assumes "validate_config P c = Inr c'"
  obtains w where "c' = c\<lparr>c_Providers := (c_Providers c)\<lparr>pc_WebPush := w\<rparr>\<rparr>" "validate_basic c = None"
    "validate_web_push P (pc_WebPush (c_Providers c)) = Inr w"
    "sc_Enabled (pc_Site (c_Providers c)) \<Longrightarrow>
       \<exists>r. EffectiveTargets (pc_Site (c_Providers c)) (rd_Prefix (c_Redis c)) = Inr r"
    "tc_Enabled (pc_Telegram (c_Providers c)) \<Longrightarrow> \<exists>r. EffectiveBots (pc_Telegram (c_Providers c)) = Inr r"
  using assms unfolding validate_config_def by (auto split: option.splits sum.splits if_splits)

lemma defaults_nonzero:
  "rd_Prefix (c_Redis (defaults c)) \<noteq> []" "co_MaxRedeliveries (c_Consumer (defaults c)) \<noteq> 0"
  "co_FlushInterval (c_Consumer (defaults c)) \<noteq> 0"
  by (simp_all add: defaults_def default_str_def default_int_def default_consumer_def)

lemma LoadFromBytes_ok:
  assumes "LoadFromBytes P data = Inr cfg"
  shows "config_ok P cfg"
proof -
  obtain c0 where "validate_config P (defaults c0) = Inr cfg"
    using assms by (auto simp: LoadFromBytes_def split: sum.splits)
  then obtain w where w: "cfg = (defaults c0)\<lparr>c_Providers := (c_Providers (defaults c0))\<lparr>pc_WebPush := w\<rparr>\<rparr>"
    "validate_basic (defaults c0) = None" "validate_web_push P (pc_WebPush (c_Providers (defaults c0))) = Inr w"
    "sc_Enabled (pc_Site (c_Providers (defaults c0))) \<Longrightarrow>
       \<exists>r. EffectiveTargets (pc_Site (c_Providers (defaults c0))) (rd_Prefix (c_Redis (defaults c0))) = Inr r"
    "tc_Enabled (pc_Telegram (c_Providers (defaults c0))) \<Longrightarrow> \<exists>r. EffectiveBots (pc_Telegram (c_Providers (defaults c0))) = Inr r"
    by (rule validate_config_Inr) blast
  show ?thesis
    using w(2,4,5) validate_web_push_Inr [OF w(3)] defaults_nonzero [of c0]
      normalized_contact [of P "wp_Subscriber (pc_WebPush (c_Providers (defaults c0)))" "wp_Subscriber w"]
    unfolding config_ok_def w(1) validate_basic_None_iff by simp
qed


definition sample_config :: config where
  "sample_config = \<lparr>c_Service = \<lparr>sv_Name = [], sv_Port = 0, sv_HealthPort = 0\<rparr>,
     c_TLS = \<lparr>tls_CertFile = [], tls_KeyFile = [], tls_ClientCAFile = [], tls_MinVersion = []\<rparr>,
     c_DatabaseDSN = ''postgres://notify'', c_RabbitMQ = \<lparr>rq_URL = ''amqp://localhost'', rq_ReconnectDelay = 0\<rparr>,
     c_Redis = \<lparr>rd_URL = ''redis://localhost'', rd_Prefix = []\<rparr>,
     c_Ingest = \<lparr>ig_BufferSize = 0, ig_PublisherWorkers = 0\<rparr>,
     c_Consumer = \<lparr>co_Queue = \<lparr>cq_Name = [], cq_Durable = True, cq_Prefetch = 0\<rparr>,
       co_DLQ = \<lparr>cd_Name = [], cd_Durable = True\<rparr>, co_BatchSize = 0, co_FlushInterval = 0, co_MaxRedeliveries = 0\<rparr>,
     c_Providers = \<lparr>pc_Site = sample_site, pc_Telegram = sample_telegram, pc_EmailEnabled = False,
       pc_WebPush = \<lparr>wp_Enabled = False, wp_Subscriber = [], wp_VAPIDPublicKey = [], wp_VAPIDPrivateKey = []\<rparr>\<rparr>,
     c_AllowedClientCN = [], c_TracingEndpoint = [], c_SampleRatio = 0\<rparr>"

definition sample_parsers :: "config \<Rightarrow> parsers" where
  "sample_parsers c = \<lparr>yaml_Unmarshal = (\<lambda>data. Inr c), ExpandEnv = (\<lambda>c. c),
     url_Parse = (\<lambda>t. Some \<lparr>u_Scheme = ''https'', u_Host = ''h'', u_String = t\<rparr>), mail_ParseAddress = Some\<rparr>"

lemma sample_load: "LoadFromBytes (sample_parsers sample_config) ''yaml'' = Inr (defaults sample_config)"
  by code_simp


text \<open>
  The defaults fill only what is missing: applying them twice is applying them once.
\<close>

theorem defaults_idem: "defaults (defaults c) = defaults c"
proof -
  have s: "default_str (default_str v d) d = default_str v d" for v d by (simp add: default_str_def)
  have i: "default_int (default_int v d) d = default_int v d" for v d by (simp add: default_int_def)
  have "default_service (default_service x) = default_service x" for x by (simp add: default_service_def s i)
  moreover have "default_ingest (default_ingest x) = default_ingest x" for x by (simp add: default_ingest_def i)
  moreover have "default_consumer (default_consumer x) = default_consumer x" for x
    by (simp add: default_consumer_def s i)
  moreover have "default_bots api (default_bots api bots) = default_bots api bots" for api bots
    by (auto simp: default_bots_def)
  then have "default_telegram (default_telegram x) = default_telegram x" for x
    by (simp add: default_telegram_def Let_def s)
  ultimately show ?thesis by (simp add: defaults_def s)
qed

end
