(* ===== verification/Domain.thy ===== *)
theory Domain
  imports Json Errors
begin

text \<open>
  \<open>internal/domain/types.go\<close>: notifications, deliveries and preferences, their
  normalisation and validation, the topic filters, and the wire form in which a
  notification crosses the message queue. \<open>uuid.Parse\<close> belongs to a third-party package:
  the validating functions take the test \<open>uuid_ok\<close> as a parameter. A nil slice or map is
  the empty list, which no code of the service tells from an empty one. Times are
  nanoseconds since Go's zero time.
\<close>

section \<open>Types\<close>

type_synonym Channel = string
type_synonym Priority = string
type_synonym gotime = int

definition ChannelSite :: Channel where "ChannelSite = ''site''"
definition ChannelTelegram :: Channel where "ChannelTelegram = ''telegram''"
definition ChannelEmail :: Channel where "ChannelEmail = ''email''"
definition ChannelWebPush :: Channel where "ChannelWebPush = ''web_push''"

definition PriorityLow :: Priority where "PriorityLow = ''low''"
definition PriorityNormal :: Priority where "PriorityNormal = ''normal''"
definition PriorityHigh :: Priority where "PriorityHigh = ''high''"
definition PriorityUrgent :: Priority where "PriorityUrgent = ''urgent''"

lemmas channel_defs = ChannelSite_def ChannelTelegram_def ChannelEmail_def ChannelWebPush_def
lemmas priority_defs = PriorityLow_def PriorityNormal_def PriorityHigh_def PriorityUrgent_def

record notification =
  n_ID :: string
  n_Topic :: string
  n_Title :: string
  n_Body :: string
  n_Link :: string
  n_Metadata :: "string go_map"
  n_Priority :: Priority
  n_Recipients :: "string list"
  n_Channels :: "Channel list"
  n_Sender :: string
  n_CreatedAt :: gotime

record delivery =
  d_NotificationID :: string
  d_Topic :: string
  d_Title :: string
  d_Body :: string
  d_Link :: string
  d_Metadata :: "string go_map"
  d_Priority :: Priority
  d_Sender :: string
  d_CreatedAt :: gotime
  d_Read :: bool
  d_Dismissed :: bool
  d_ReadAt :: "gotime option"

record preference =
  p_Subject :: string
  p_Channel :: Channel
  p_Enabled :: bool
  p_Config :: string
  p_Topics :: "string list"
  p_UpdatedAt :: gotime

record resolved_preference =
  rp_Channel :: Channel
  rp_Config :: string

definition zero_notification :: notification where
  "zero_notification = \<lparr>n_ID = [], n_Topic = [], n_Title = [], n_Body = [], n_Link = [],
     n_Metadata = [], n_Priority = [], n_Recipients = [], n_Channels = [], n_Sender = [],
     n_CreatedAt = 0\<rparr>"

definition channel_Valid :: "Channel \<Rightarrow> bool" where
  "channel_Valid c \<longleftrightarrow>
     c = ChannelSite \<or> c = ChannelTelegram \<or> c = ChannelEmail \<or> c = ChannelWebPush"

definition priority_Valid :: "Priority \<Rightarrow> bool" where
  "priority_Valid p \<longleftrightarrow>
     p = PriorityLow \<or> p = PriorityNormal \<or> p = PriorityHigh \<or> p = PriorityUrgent"

section \<open>Normalisation\<close>

text \<open>The loop of \<open>uniqueStrings\<close> and of \<open>uniqueChannels\<close>, with the \<open>seen\<close> map as a list.\<close>

fun unique_loop :: "string list \<Rightarrow> string list \<Rightarrow> string list" where
  "unique_loop seen [] = []"
| "unique_loop seen (value # rest) =
     (let value = trim_space value in
      if value = [] then unique_loop seen rest
      else if value \<in> set seen then unique_loop seen rest
      else value # unique_loop (value # seen) rest)"

definition uniqueStrings :: "string list \<Rightarrow> string list" where
  "uniqueStrings xs = (if length xs = 0 then [] else unique_loop [] xs)"

definition uniqueChannels :: "Channel list \<Rightarrow> Channel list" where
  "uniqueChannels xs = (if length xs = 0 then [] else unique_loop [] xs)"

definition Normalize :: "notification \<Rightarrow> notification" where
  "Normalize n =
     n\<lparr>n_Topic := trim_space (n_Topic n),
       n_Title := trim_space (n_Title n),
       n_Body := trim_space (n_Body n),
       n_Link := trim_space (n_Link n),
       n_Sender := trim_space (n_Sender n),
       n_Recipients := uniqueStrings (n_Recipients n),
       n_Channels := uniqueChannels (n_Channels n),
       n_Priority := (if n_Priority n = [] then PriorityNormal else n_Priority n)\<rparr>"

section \<open>Validation\<close>

text \<open>
  \<open>ValidateNotification\<close> normalises its argument in place before it tests it; the model
  returns the argument as it is left. A nil pointer is \<open>None\<close>.
\<close>

definition validate_fields :: "(string \<Rightarrow> bool) \<Rightarrow> notification \<Rightarrow> error" where
  "validate_fields uuid_ok n =
     (if n_ID n \<noteq> [] \<and> \<not> uuid_ok (n_ID n) then
        Some (Errorf ''notification id must be a valid UUID'' [])
      else if n_Topic n = [] then Some (Errorf ''topic is required'' [])
      else if n_Title n = [] then Some (Errorf ''title is required'' [])
      else if \<not> priority_Valid (n_Priority n) then
        Some (Errorf ''priority %q is invalid'' [AStr (n_Priority n)])
      else
        (case find (\<lambda>r. \<not> uuid_ok r) (n_Recipients n) of
           Some r \<Rightarrow> Some (Errorf ''recipient %q must be a valid UUID'' [AStr r])
         | None \<Rightarrow>
             (case find (\<lambda>c. \<not> channel_Valid c) (n_Channels n) of
                Some c \<Rightarrow> Some (Errorf ''channel %q is invalid'' [AStr c])
              | None \<Rightarrow> None)))"

definition ValidateNotification ::
  "(string \<Rightarrow> bool) \<Rightarrow> notification option \<Rightarrow> error \<times> notification option" where
  "ValidateNotification uuid_ok np =
     (case np of
        None \<Rightarrow> (Some (Errorf ''notification is required'' []), None)
      | Some n \<Rightarrow> (validate_fields uuid_ok (Normalize n), Some (Normalize n)))"

section \<open>Topic filters\<close>

fun topic_loop :: "string list \<Rightarrow> string \<Rightarrow> bool" where
  "topic_loop [] topic = False"
| "topic_loop (f # fs) topic =
     (let f = trim_space f in
      if f = [] then topic_loop fs topic
      else if f = topic then True
      else if has_suffix f ''*'' \<and> has_prefix topic (trim_suffix f ''*'') then True
      else topic_loop fs topic)"

definition TopicMatches :: "string list \<Rightarrow> string \<Rightarrow> bool" where
  "TopicMatches filters topic = (if length filters = 0 then True else topic_loop filters topic)"

section \<open>The wire form\<close>

text \<open>The struct tags of \<open>Notification\<close>: order, names and \<open>omitempty\<close>; \<open>CreatedAt\<close> is not sent.\<close>

definition omit_empty :: "bool \<Rightarrow> string \<Rightarrow> json \<Rightarrow> (string \<times> json) list" where
  "omit_empty is_zero name v = (if is_zero then [] else [(name, v)])"

definition notification_json :: "notification \<Rightarrow> json" where
  "notification_json n = JObj
     (omit_empty (n_ID n = []) ''id'' (JStr (n_ID n))
      @ [(''topic'', JStr (n_Topic n)), (''title'', JStr (n_Title n))]
      @ omit_empty (n_Body n = []) ''body'' (JStr (n_Body n))
      @ omit_empty (n_Link n = []) ''link'' (JStr (n_Link n))
      @ omit_empty (n_Metadata n = []) ''metadata'' (enc_string_map (n_Metadata n))
      @ omit_empty (n_Priority n = []) ''priority'' (JStr (n_Priority n))
      @ omit_empty (n_Recipients n = []) ''recipients'' (enc_strings (n_Recipients n))
      @ omit_empty (n_Channels n = []) ''channels'' (enc_strings (n_Channels n))
      @ omit_empty (n_Sender n = []) ''sender'' (JStr (n_Sender n)))"

definition marshal_notification :: "notification \<Rightarrow> string" where
  "marshal_notification n = json_print (notification_json n)"

definition notification_fields :: "notification field list" where
  "notification_fields =
     [(''id'', \<lambda>v n. map_option (\<lambda>x. n\<lparr>n_ID := x\<rparr>) (dec_string v (n_ID n))),
      (''topic'', \<lambda>v n. map_option (\<lambda>x. n\<lparr>n_Topic := x\<rparr>) (dec_string v (n_Topic n))),
      (''title'', \<lambda>v n. map_option (\<lambda>x. n\<lparr>n_Title := x\<rparr>) (dec_string v (n_Title n))),
      (''body'', \<lambda>v n. map_option (\<lambda>x. n\<lparr>n_Body := x\<rparr>) (dec_string v (n_Body n))),
      (''link'', \<lambda>v n. map_option (\<lambda>x. n\<lparr>n_Link := x\<rparr>) (dec_string v (n_Link n))),
      (''metadata'', \<lambda>v n. map_option (\<lambda>x. n\<lparr>n_Metadata := x\<rparr>) (dec_string_map v (n_Metadata n))),
      (''priority'', \<lambda>v n. map_option (\<lambda>x. n\<lparr>n_Priority := x\<rparr>) (dec_string v (n_Priority n))),
      (''recipients'', \<lambda>v n. map_option (\<lambda>x. n\<lparr>n_Recipients := x\<rparr>) (dec_strings v)),
      (''channels'', \<lambda>v n. map_option (\<lambda>x. n\<lparr>n_Channels := x\<rparr>) (dec_strings v)),
      (''sender'', \<lambda>v n. map_option (\<lambda>x. n\<lparr>n_Sender := x\<rparr>) (dec_string v (n_Sender n)))]"

definition unmarshal_notification :: "string \<Rightarrow> notification option" where
  "unmarshal_notification s = unmarshal_struct notification_fields s zero_notification"

section \<open>Properties of normalisation and validation\<close>

lemma unique_loop_dedup:
  "unique_loop seen xs = dedup seen (filter (\<lambda>x. x \<noteq> []) (map trim_space xs))"
  by (induction xs arbitrary: seen) (auto simp: Let_def)

lemma uniqueStrings_dedup: "uniqueStrings xs = dedup [] (filter (\<lambda>x. x \<noteq> []) (map trim_space xs))"
  by (simp add: uniqueStrings_def unique_loop_dedup)

lemma uniqueChannels_eq: "uniqueChannels xs = uniqueStrings xs"
  by (simp add: uniqueChannels_def uniqueStrings_def)

lemma set_uniqueStrings: "set (uniqueStrings xs) = trim_space ` set xs - {[]}"
  by (auto simp: uniqueStrings_dedup set_dedup)

lemma distinct_uniqueStrings: "distinct (uniqueStrings xs)"
  by (simp add: uniqueStrings_dedup distinct_dedup)

lemma uniqueStrings_id:
  assumes "distinct xs" and "\<And>x. x \<in> set xs \<Longrightarrow> trim_space x = x \<and> x \<noteq> []"
  shows "uniqueStrings xs = xs"
proof -
  have "map trim_space xs = xs" using assms(2) by (simp add: map_idI)
  moreover have "filter (\<lambda>x. x \<noteq> []) xs = xs" using assms(2) by (simp add: filter_id_conv)
  ultimately show ?thesis using assms(1) by (simp add: uniqueStrings_dedup dedup_id)
qed

lemma uniqueStrings_idem [simp]: "uniqueStrings (uniqueStrings xs) = uniqueStrings xs"
  by (rule uniqueStrings_id) (auto simp: distinct_uniqueStrings set_uniqueStrings)

lemma Normalize_idem [simp]: "Normalize (Normalize n) = Normalize n"
  by (simp add: Normalize_def uniqueChannels_eq PriorityNormal_def)

text \<open>
  The normalisation of a list of recipients (and of channels) returns exactly the trimmed
  non-blank entries, each once, in the order of first occurrence, and is idempotent.
\<close>

theorem unique_strings_spec:
  "distinct (uniqueStrings xs) \<and> set (uniqueStrings xs) = trim_space ` set xs - {[]}
   \<and> subseq (uniqueStrings xs) (map trim_space xs)
   \<and> uniqueStrings (uniqueStrings xs) = uniqueStrings xs \<and> uniqueChannels xs = uniqueStrings xs"
proof -
  have "subseq (uniqueStrings xs) (map trim_space xs)"
    by (simp add: uniqueStrings_dedup) (meson subseq_dedup subseq_filter_left subseq_order.order_trans)
  then show ?thesis
    by (simp add: distinct_uniqueStrings set_uniqueStrings uniqueChannels_eq)
qed

text \<open>What a caller has to send for the notification to be accepted, read off the raw input.\<close>

definition acceptable :: "(string \<Rightarrow> bool) \<Rightarrow> notification \<Rightarrow> bool" where
  "acceptable uuid_ok n \<longleftrightarrow>
     (n_ID n = [] \<or> uuid_ok (n_ID n))
     \<and> trim_space (n_Topic n) \<noteq> [] \<and> trim_space (n_Title n) \<noteq> []
     \<and> (n_Priority n = [] \<or> priority_Valid (n_Priority n))
     \<and> (\<forall>r \<in> set (n_Recipients n). trim_space r = [] \<or> uuid_ok (trim_space r))
     \<and> (\<forall>c \<in> set (n_Channels n). trim_space c = [] \<or> channel_Valid (trim_space c))"

lemma validate_fields_None_iff:
  "validate_fields uuid_ok n = None \<longleftrightarrow>
     (n_ID n = [] \<or> uuid_ok (n_ID n)) \<and> n_Topic n \<noteq> [] \<and> n_Title n \<noteq> []
     \<and> priority_Valid (n_Priority n) \<and> list_all uuid_ok (n_Recipients n)
     \<and> list_all channel_Valid (n_Channels n)"
  by (auto simp: validate_fields_def list_all_iff find_None_iff split: option.splits dest!: find_SomeD)

lemma priority_Valid_Normal [simp]: "priority_Valid PriorityNormal"
  by (simp add: priority_Valid_def)

lemma validate_Normalize_iff: "validate_fields uuid_ok (Normalize n) = None \<longleftrightarrow> acceptable uuid_ok n"
  by (auto simp: validate_fields_None_iff acceptable_def Normalize_def list_all_iff
      uniqueChannels_eq set_uniqueStrings)

text \<open>
  C25: validation accepts a notification exactly when the caller's raw fields are acceptable;
  it then returns the normalised notification, and validating that one again (as the
  dispatcher does after the queue) accepts it unchanged.
\<close>

theorem validate_notification_correct:
  "(fst (ValidateNotification uuid_ok np) = None \<longleftrightarrow> (\<exists>n. np = Some n \<and> acceptable uuid_ok n))
   \<and> snd (ValidateNotification uuid_ok np) = map_option Normalize np
   \<and> ValidateNotification uuid_ok (snd (ValidateNotification uuid_ok np))
       = ValidateNotification uuid_ok np"
  by (cases np) (simp_all add: ValidateNotification_def validate_Normalize_iff)

section \<open>Properties of the topic filters\<close>

definition filter_admits :: "string \<Rightarrow> string \<Rightarrow> bool" where
  "filter_admits f topic \<longleftrightarrow> f \<noteq> [] \<and> (f = topic \<or> (\<exists>p t. f = p @ ''*'' \<and> topic = p @ t))"

lemma wildcard_iff:
  "has_suffix f ''*'' \<and> has_prefix topic (trim_suffix f ''*'') \<longleftrightarrow> (\<exists>p t. f = p @ ''*'' \<and> topic = p @ t)"
  by (auto simp: has_suffix_def suffix_def has_prefix_def prefix_def)

lemma topic_loop_iff: "topic_loop fs topic \<longleftrightarrow> (\<exists>f \<in> set fs. filter_admits (trim_space f) topic)"
  by (induction fs) (auto simp: Let_def filter_admits_def wildcard_iff)

text \<open>
  A topic passes a subscription's filter list exactly when the list is empty or some
  filter, trimmed and not blank, is the topic itself or ends in a star whose stem is a prefix of
  the topic. In particular a list of blank filters admits nothing.
\<close>

theorem topic_matches_spec:
  "TopicMatches fs topic \<longleftrightarrow>
     fs = [] \<or> (\<exists>f \<in> set fs. filter_admits (trim_space f) topic)"
  by (simp add: TopicMatches_def topic_loop_iff)

section \<open>The wire form is faithful\<close>

definition utf8_notification :: "notification \<Rightarrow> bool" where
  "utf8_notification n \<longleftrightarrow>
     list_all utf8_valid ([n_ID n, n_Topic n, n_Title n, n_Body n, n_Link n, n_Priority n, n_Sender n]
       @ n_Recipients n @ n_Channels n @ map fst (n_Metadata n) @ map snd (n_Metadata n))"

lemma utf8_names [simp]:
  "utf8_valid ''id''" "utf8_valid ''topic''" "utf8_valid ''title''" "utf8_valid ''body''"
  "utf8_valid ''link''" "utf8_valid ''metadata''" "utf8_valid ''priority''"
  "utf8_valid ''recipients''" "utf8_valid ''channels''" "utf8_valid ''sender''"
  by code_simp+

lemma list_all_omit_empty [simp]: "list_all P (omit_empty c k v) \<longleftrightarrow> c \<or> P (k, v)"
  by (simp add: omit_empty_def)

lemma json_ok_enc_strings [simp]: "json_ok (enc_strings xs) = list_all utf8_valid xs"
  by (simp add: enc_strings_def list_all_iff)

lemma json_ok_enc_string_map [simp]:
  "json_ok (enc_string_map m) \<longleftrightarrow> list_all utf8_valid (map fst m) \<and> list_all utf8_valid (map snd m)"
  by (auto simp: enc_string_map_def list_all_iff split: prod.splits)

lemma json_ok_notification: "utf8_notification n \<Longrightarrow> json_ok (notification_json n)"
  by (simp add: utf8_notification_def notification_json_def)

lemma foldr_max_le: "list_all (\<lambda>x. f x \<le> c) xs \<Longrightarrow> 0 \<le> c \<Longrightarrow> foldr (\<lambda>x. max (f x)) xs (0 :: int) \<le> c"
  by (induction xs) auto

lemma json_depth_enc_strings: "json_depth (enc_strings xs) \<le> 1"
  by (simp add: enc_strings_def) (rule foldr_max_le, auto simp: list_all_iff)

lemma json_depth_enc_string_map: "json_depth (enc_string_map m) \<le> 1"
  by (simp add: enc_string_map_def) (rule foldr_max_le, auto simp: list_all_iff)

lemma json_depth_notification: "json_depth (notification_json n) \<le> max_depth"
proof -
  have "json_depth (notification_json n) \<le> 1 + 1"
    unfolding notification_json_def json_depth.simps
    by (rule add_left_mono, rule foldr_max_le)
       (simp_all add: json_depth_enc_strings json_depth_enc_string_map)
  then show ?thesis by (simp add: max_depth_def)
qed

text \<open>Decoding one member of a notification object.\<close>

lemma dec_notification_member:
  "dec_members notification_fields [(''id'', JStr x)] n = Some (n\<lparr>n_ID := x\<rparr>)"
  "dec_members notification_fields [(''topic'', JStr x)] n = Some (n\<lparr>n_Topic := x\<rparr>)"
  "dec_members notification_fields [(''title'', JStr x)] n = Some (n\<lparr>n_Title := x\<rparr>)"
  "dec_members notification_fields [(''body'', JStr x)] n = Some (n\<lparr>n_Body := x\<rparr>)"
  "dec_members notification_fields [(''link'', JStr x)] n = Some (n\<lparr>n_Link := x\<rparr>)"
  "dec_members notification_fields [(''priority'', JStr x)] n = Some (n\<lparr>n_Priority := x\<rparr>)"
  "dec_members notification_fields [(''recipients'', enc_strings xs)] n = Some (n\<lparr>n_Recipients := xs\<rparr>)"
  "dec_members notification_fields [(''channels'', enc_strings xs)] n = Some (n\<lparr>n_Channels := xs\<rparr>)"
  "dec_members notification_fields [(''sender'', JStr x)] n = Some (n\<lparr>n_Sender := x\<rparr>)"
  "is_go_map m \<Longrightarrow> n_Metadata n = [] \<Longrightarrow>
     dec_members notification_fields [(''metadata'', enc_string_map m)] n
       = Some (n\<lparr>n_Metadata := sort_key fst m\<rparr>)"
  by (simp_all add: find_field_def notification_fields_def dec_string_map_enc)

lemma dec_omit_empty:
  "dec_members fs (omit_empty c k v) r = (if c then Some r else dec_members fs [(k, v)] r)"
  by (simp add: omit_empty_def)

lemma unmarshal_marshal_notification:
  assumes "utf8_notification n" and "is_go_map (n_Metadata n)"
  shows "unmarshal_notification (marshal_notification n)
           = Some (n\<lparr>n_Metadata := sort_key fst (n_Metadata n), n_CreatedAt := 0\<rparr>)"
proof -
  have "json_parse (marshal_notification n) = Some (notification_json n)"
    unfolding marshal_notification_def
    by (rule json_parse_print [OF json_ok_notification [OF assms(1)] json_depth_notification])
  moreover have "dec_struct notification_fields (notification_json n) zero_notification
      = Some (n\<lparr>n_Metadata := sort_key fst (n_Metadata n), n_CreatedAt := 0\<rparr>)"
  proof -
    have two: "[(''topic'', JStr (n_Topic n)), (''title'', JStr (n_Title n))] =
        [(''topic'', JStr (n_Topic n))] @ [(''title'', JStr (n_Title n))]" by simp
    show ?thesis
      unfolding dec_struct_def notification_json_def two zero_notification_def json.case
      by (simp only: dec_members_append dec_omit_empty dec_notification_member assms(2)
          option.case notification.simps if_distrib [of "case_option _ _"] cong: if_cong)
         (cases n; simp add: dec_notification_member assms(2) [simplified])
  qed
  ultimately show ?thesis
    by (simp add: unmarshal_notification_def unmarshal_struct_def)
qed

text \<open>
  C24: what the publisher encodes is what the consumer decodes: for a notification whose strings are
  valid UTF-8, \<open>json.Unmarshal\<close> of the bytes \<open>json.Marshal\<close> produces gives every field back; the
  metadata is the same map, and the creation time (which is not sent) is the zero time.
\<close>

theorem wire_roundtrip:
  assumes "utf8_notification n" and "is_go_map (n_Metadata n)"
  shows "\<exists>n'. unmarshal_notification (marshal_notification n) = Some n'
      \<and> map_of (n_Metadata n') = map_of (n_Metadata n)
      \<and> n'\<lparr>n_Metadata := n_Metadata n, n_CreatedAt := n_CreatedAt n\<rparr> = n \<and> n_CreatedAt n' = 0"
proof -
  have "map_of (sort_key fst (n_Metadata n)) = map_of (n_Metadata n)"
    by (rule go_map_perm_lookup(2) [OF assms(2)]) simp
  then show ?thesis
    using unmarshal_marshal_notification [OF assms] by simp
qed

definition sample_notification :: notification where
  "sample_notification = zero_notification\<lparr>n_Topic := ''support.reply'', n_Title := ''Reply'',
     n_Metadata := [(''site_target'', ''main''), (''a'', ''b'')], n_Recipients := [''u1'']\<rparr>"

theorem wire_roundtrip_witness:
  "\<exists>n'. unmarshal_notification (marshal_notification sample_notification) = Some n'
     \<and> map_of (n_Metadata n') = map_of (n_Metadata sample_notification)"
proof -
  have "utf8_notification sample_notification" by code_simp
  moreover have "is_go_map (n_Metadata sample_notification)" by (simp add: sample_notification_def)
  ultimately show ?thesis using wire_roundtrip [of sample_notification] by blast
qed

end
