(* ===== verification/Provider.thy ===== *)
theory Provider
  imports Domain
begin

text \<open>
  \<open>internal/provider/provider.go\<close>: the interface of a delivery channel and the registry of the
  configured channels. A provider acts on a world \<open>'w\<close> that only its implementation knows. The
  preference configuration is the raw JSON text, empty for nil.
\<close>

record 'w provider =
  pv_Name :: string
  pv_Channel :: Channel
  pv_Send :: "notification \<Rightarrow> string \<Rightarrow> string \<Rightarrow> 'w \<Rightarrow> error \<times> 'w"
  pv_Close :: "'w \<Rightarrow> error \<times> 'w"

text \<open>Go's \<open>n.Metadata[key]\<close>: the empty string when the key is absent.\<close>

definition metadata_value :: "string \<Rightarrow> notification \<Rightarrow> string" where
  "metadata_value key n =
     (case go_get (n_Metadata n) key of None \<Rightarrow> [] | Some value \<Rightarrow> value)"

type_synonym 'w registry = "(Channel \<times> 'w provider) list"

text \<open>The loop of \<open>NewRegistry\<close>: nil providers are skipped, a later one replaces an earlier one.\<close>

fun registry_loop :: "'w provider option list \<Rightarrow> 'w registry \<Rightarrow> 'w registry" where
  "registry_loop [] r = r"
| "registry_loop (None # ps) r = registry_loop ps r"
| "registry_loop (Some p # ps) r = registry_loop ps (go_put (pv_Channel p) p r)"

definition NewRegistry :: "'w provider option list \<Rightarrow> 'w registry" where
  "NewRegistry ps = registry_loop ps []"

text \<open>The receiver is a pointer and may be nil.\<close>

definition registry_Get :: "'w registry option \<Rightarrow> Channel \<Rightarrow> 'w provider option" where
  "registry_Get r channel = (case r of None \<Rightarrow> None | Some m \<Rightarrow> go_get m channel)"

text \<open>\<open>Close\<close> ranges over the map: the order is any enumeration of it, the argument \<open>ps\<close>.\<close>

fun close_loop :: "'w provider list \<Rightarrow> error \<Rightarrow> 'w \<Rightarrow> error \<times> 'w" where
  "close_loop [] firstErr w = (firstErr, w)"
| "close_loop (p # ps) firstErr w =
     (case pv_Close p w of
        (Some e, w') \<Rightarrow>
          close_loop ps (case firstErr of
              None \<Rightarrow> Some (Wrapf ''close provider %s: %w'' [AStr (pv_Name p)] e)
            | Some _ \<Rightarrow> firstErr) w'
      | (None, w') \<Rightarrow> close_loop ps firstErr w')"

definition enumerates :: "'w provider list \<Rightarrow> 'w registry \<Rightarrow> bool" where
  "enumerates ps r \<longleftrightarrow> mset ps = mset (map snd r)"

definition registry_Close :: "'w registry option \<Rightarrow> 'w provider list \<Rightarrow> 'w \<Rightarrow> error \<times> 'w" where
  "registry_Close r ps w = (case r of None \<Rightarrow> (None, w) | Some _ \<Rightarrow> close_loop ps None w)"

section \<open>The registry maps each channel to the last provider given for it\<close>

lemma registry_loop_get:
  "go_get (registry_loop ps r) c =
     (case find (\<lambda>p. pv_Channel p = c) (rev (List.map_filter (\<lambda>p. p) ps)) of
        Some p \<Rightarrow> Some p | None \<Rightarrow> go_get r c)"
proof (induction ps r rule: registry_loop.induct)
  case (3 p ps r)
  have "find P (xs @ [p]) = (case find P xs of Some x \<Rightarrow> Some x | None \<Rightarrow> if P p then Some p else None)"
    for P and xs :: "'a provider list"
    by (induction xs) auto
  with 3 show ?case by (auto simp: map_filter_simps update_conv' split: option.split)
qed (simp_all add: map_filter_simps)

lemma registry_loop_keys:
  "is_go_map r \<Longrightarrow> list_all (\<lambda>(c, p). pv_Channel p = c) r \<Longrightarrow>
     is_go_map (registry_loop ps r) \<and> list_all (\<lambda>(c, p). pv_Channel p = c) (registry_loop ps r)"
proof (induction ps r rule: registry_loop.induct)
  case (3 p ps r)
  have "set (go_put (pv_Channel p) p r) \<subseteq> insert (pv_Channel p, p) (set r)"
    by (induction r) auto
  then show ?case using 3 by (auto simp: distinct_update list_all_iff)
qed auto

text \<open>
  The registry built from a list of providers: \<open>Get\<close> answers a channel with the last non-nil
  provider of the list that serves it, and with nothing when none does; a nil registry has none.
\<close>

theorem registry_get_spec:
  "registry_Get (Some (NewRegistry ps)) c = find (\<lambda>p. pv_Channel p = c) (rev (List.map_filter (\<lambda>p. p) ps))
   \<and> registry_Get None c = (None :: 'w provider option)"
  by (simp add: registry_Get_def NewRegistry_def registry_loop_get split: option.split)

section \<open>Closing\<close>

text \<open>The result of each provider's \<open>Close\<close>, in the order they are called.\<close>

fun close_results :: "'w provider list \<Rightarrow> 'w \<Rightarrow> (string \<times> error) list" where
  "close_results [] w = []"
| "close_results (p # ps) w = (pv_Name p, fst (pv_Close p w)) # close_results ps (snd (pv_Close p w))"

lemma close_loop_spec:
  "fst (close_loop ps firstErr w) = (case firstErr of Some e \<Rightarrow> Some e
     | None \<Rightarrow> first_some (\<lambda>(name, r). map_option (Wrapf ''close provider %s: %w'' [AStr name]) r) (close_results ps w))
   \<and> snd (close_loop ps firstErr w) = fold (\<lambda>p w. snd (pv_Close p w)) ps w"
  by (induction ps firstErr w rule: close_loop.induct) (auto split: prod.splits option.splits)

lemma first_some_None_iff: "first_some f xs = None \<longleftrightarrow> (\<forall>x \<in> set xs. f x = None)"
  by (induction xs) (auto split: option.split)

text \<open>
  Closing the registry closes every registered provider exactly once, in some order, also
  after one of them has failed; it returns nil exactly when every \<open>Close\<close> did, and the first
  failure otherwise.
\<close>

theorem registry_close_spec:
  assumes "enumerates ps (NewRegistry qs)"
  shows "length ps = length (NewRegistry qs)
     \<and> snd (registry_Close (Some (NewRegistry qs)) ps w) = fold (\<lambda>p w. snd (pv_Close p w)) ps w
     \<and> fst (registry_Close (Some (NewRegistry qs)) ps w)
        = first_some (\<lambda>(name, r). map_option (Wrapf ''close provider %s: %w'' [AStr name]) r) (close_results ps w)
     \<and> (fst (registry_Close (Some (NewRegistry qs)) ps w) = None \<longleftrightarrow> list_all (\<lambda>r. snd r = None) (close_results ps w))"
proof -
  have "length ps = length (NewRegistry qs)"
    using assms unfolding enumerates_def by (metis length_map mset_eq_length)
  then show ?thesis
    by (auto simp: registry_Close_def close_loop_spec first_some_None_iff list_all_iff)
qed

text \<open>A provider for the witnesses: it logs what it is asked to do and fails on request.\<close>

definition log_provider :: "Channel \<Rightarrow> error \<Rightarrow> (string \<times> string) list provider" where
  "log_provider c err = \<lparr>pv_Name = c, pv_Channel = c, pv_Send = (\<lambda>n r cfg w. (err, w @ [(c, r)])),
     pv_Close = (\<lambda>w. (err, w @ [(c, ''close'')]))\<rparr>"

theorem registry_close_spec_witness:
  "snd (registry_Close (Some (NewRegistry [Some (log_provider ''a'' None), None, Some (log_provider ''b'' None)]))
      [log_provider ''b'' None, log_provider ''a'' None] []) = [(''b'', ''close''), (''a'', ''close'')]"
proof -
  have "enumerates [log_provider ''b'' None, log_provider ''a'' None]
      (NewRegistry [Some (log_provider ''a'' None), None, Some (log_provider ''b'' None)])"
    by (simp add: enumerates_def NewRegistry_def log_provider_def add_mset_commute)
  from registry_close_spec [OF this, of "[]"] show ?thesis by (simp add: log_provider_def)
qed

end
