(* ===== verification/Dispatch.thy ===== *)
theory Dispatch
  imports Provider
begin

text \<open>
  \<open>internal/dispatch/dispatcher.go\<close>: the dispatcher validates and stores a notification, finds
  its recipients, resolves the channels of each from his preferences and calls the provider of each
  channel, collecting the errors. The store is the interface \<open>storeAccessor\<close> of the code, the
  registry of providers an argument; both act on one world \<open>'w\<close>. The two counters of
  the dispatcher are part of the state. Logging is left out. The dispatcher normalises and fills
  in the caller's notification through its pointer: it is returned as it is left.
\<close>

record 'w storeAccessor =
  sa_UpsertNotification :: "notification option \<Rightarrow> 'w \<Rightarrow> (error \<times> notification option) \<times> 'w"
  sa_ListTopicSubscribers :: "string \<Rightarrow> 'w \<Rightarrow> (goerr + string list) \<times> 'w"
  sa_GetPreferences :: "string \<Rightarrow> 'w \<Rightarrow> (goerr + preference list) \<times> 'w"

record 'w dispatcher =
  dp_store :: "'w storeAccessor"
  dp_providers :: "'w registry option"

record 'w env =
  world :: 'w
  providerSends :: "Channel list"
  providerErrors :: "Channel list"

text \<open>A counter vector is the list of the labels it was incremented with.\<close>

definition in_world :: "('w \<Rightarrow> 'a \<times> 'w) \<Rightarrow> 'w env \<Rightarrow> 'a \<times> 'w env" where
  "in_world f s = (let (x, w) = f (world s) in (x, s\<lparr>world := w\<rparr>))"

section \<open>Recipients and channels\<close>

definition resolveRecipients ::
  "'w dispatcher \<Rightarrow> notification \<Rightarrow> 'w \<Rightarrow> (goerr + string list) \<times> 'w" where
  "resolveRecipients d n w =
     (if length (n_Recipients n) > 0 then (Inr (n_Recipients n), w)
      else (case sa_ListTopicSubscribers (dp_store d) (n_Topic n) w of
              (Inl e, w') \<Rightarrow> (Inl (Wrapf ''list topic subscribers: %w'' [] e), w')
            | (Inr recipients, w') \<Rightarrow> (Inr recipients, w')))"

fun by_channel :: "preference list \<Rightarrow> (Channel \<rightharpoonup> preference) \<Rightarrow> (Channel \<rightharpoonup> preference)" where
  "by_channel [] m = m"
| "by_channel (pref # prefs) m = by_channel prefs (m(p_Channel pref \<mapsto> pref))"

fun explicit_channels :: "(Channel \<rightharpoonup> preference) \<Rightarrow> Channel list \<Rightarrow> resolved_preference list" where
  "explicit_channels byChannel [] = []"
| "explicit_channels byChannel (channel # rest) =
     (case byChannel channel of
        Some pref \<Rightarrow>
          if \<not> p_Enabled pref then explicit_channels byChannel rest
          else \<lparr>rp_Channel = channel, rp_Config = p_Config pref\<rparr> # explicit_channels byChannel rest
      | None \<Rightarrow> \<lparr>rp_Channel = channel, rp_Config = []\<rparr> # explicit_channels byChannel rest)"

fun enabled_channels :: "string \<Rightarrow> preference list \<Rightarrow> resolved_preference list" where
  "enabled_channels topic [] = []"
| "enabled_channels topic (pref # prefs) =
     (if \<not> p_Enabled pref \<or> \<not> TopicMatches (p_Topics pref) topic then enabled_channels topic prefs
      else \<lparr>rp_Channel = p_Channel pref, rp_Config = p_Config pref\<rparr> # enabled_channels topic prefs)"

definition channels_for :: "preference list \<Rightarrow> notification \<Rightarrow> resolved_preference list" where
  "channels_for prefs n =
     (if length (n_Channels n) > 0 then explicit_channels (by_channel prefs Map.empty) (n_Channels n)
      else if length prefs = 0 then [\<lparr>rp_Channel = ChannelSite, rp_Config = []\<rparr>]
      else enabled_channels (n_Topic n) prefs)"

definition resolveChannels ::
  "'w dispatcher \<Rightarrow> string \<Rightarrow> notification \<Rightarrow> 'w \<Rightarrow> (goerr + resolved_preference list) \<times> 'w" where
  "resolveChannels d recipient n w =
     (case sa_GetPreferences (dp_store d) recipient w of
        (Inl e, w') \<Rightarrow> (Inl e, w')
      | (Inr prefs, w') \<Rightarrow> (Inr (channels_for prefs n), w'))"

section \<open>Dispatch\<close>

fun send_loop ::
  "'w dispatcher \<Rightarrow> notification \<Rightarrow> string \<Rightarrow> resolved_preference list \<Rightarrow> error \<Rightarrow> 'w env \<Rightarrow> error \<times> 'w env" where
  "send_loop d n recipient [] sendErr s = (sendErr, s)"
| "send_loop d n recipient (target # rest) sendErr s =
     (case registry_Get (dp_providers d) (rp_Channel target) of
        None \<Rightarrow> send_loop d n recipient rest sendErr s
      | Some prov \<Rightarrow>
          (let s1 = s\<lparr>providerSends := providerSends s @ [rp_Channel target]\<rparr>;
               (err, s2) = in_world (pv_Send prov n recipient (rp_Config target)) s1
           in case err of
                None \<Rightarrow> send_loop d n recipient rest sendErr s2
              | Some e \<Rightarrow>
                  send_loop d n recipient rest
                    (errors_Join [sendErr,
                       Some (Wrapf ''%s send to %s: %w'' [AStr (rp_Channel target), AStr recipient] e)])
                    (s2\<lparr>providerErrors := providerErrors s2 @ [rp_Channel target]\<rparr>)))"

fun recipient_loop ::
  "'w dispatcher \<Rightarrow> notification \<Rightarrow> string list \<Rightarrow> error \<Rightarrow> 'w env \<Rightarrow> error \<times> 'w env" where
  "recipient_loop d n [] sendErr s = (sendErr, s)"
| "recipient_loop d n (recipient # rest) sendErr s =
     (case in_world (resolveChannels d recipient n) s of
        (Inl e, s1) \<Rightarrow>
          recipient_loop d n rest
            (errors_Join [sendErr, Some (Wrapf ''resolve channels for %s: %w'' [AStr recipient] e)]) s1
      | (Inr resolved, s1) \<Rightarrow>
          (let (sendErr', s2) = send_loop d n recipient resolved sendErr s1
           in recipient_loop d n rest sendErr' s2))"

definition Dispatch ::
  "(string \<Rightarrow> bool) \<Rightarrow> 'w dispatcher \<Rightarrow> notification option \<Rightarrow> 'w env
     \<Rightarrow> (error \<times> notification option) \<times> 'w env" where
  "Dispatch uuid_ok d np s =
     (case ValidateNotification uuid_ok np of
        (Some e, np1) \<Rightarrow> ((Some (Wrapf ''dispatch validate notification: %w'' [] e), np1), s)
      | (None, np1) \<Rightarrow>
          (case in_world (sa_UpsertNotification (dp_store d) np1) s of
             ((Some e, np2), s1) \<Rightarrow> ((Some (Wrapf ''persist notification: %w'' [] e), np2), s1)
           | ((None, None), s1) \<Rightarrow> ((None, None), s1)
           | ((None, Some n), s1) \<Rightarrow>
               (case in_world (resolveRecipients d n) s1 of
                  (Inl e, s2) \<Rightarrow> ((Some e, Some n), s2)
                | (Inr recipients, s2) \<Rightarrow>
                    if length recipients = 0 then ((None, Some n), s2)
                    else (let (sendErr, s3) = recipient_loop d n recipients None s2
                          in ((sendErr, Some n), s3)))))"

text \<open>
  The third branch of the store's answer does not arise: a pointer that is not nil before the call
  is not nil after it. The model has it because its functions are total.
\<close>

end
