(* ===== verification/Store.thy ===== *)
theory Store
  imports Domain
begin

text \<open>
  \<open>internal/store/postgres.go\<close>: the tables of the service's database and the statements
  the code runs on them. A table is the list of its rows; the SQL of a statement is written out as
  an operation on these lists. What belongs to the database server and not to the SQL text is a
  parameter \<open>X\<close>: the cast of a text to \<open>uuid\<close> (\<open>None\<close> when the server refuses the text, else its
  canonical text), the values \<open>gen_random_uuid()\<close> hands out, and the text a \<open>jsonb\<close> value prints as.
  The time \<open>now()\<close> returns is a component of the state. Any statement can fail for reasons of the
  server or of the connection: \<open>pg_faults\<close> scripts these failures, one entry per statement, and a
  statement that fails leaves the tables as they were. An error while the rows of a query are
  scanned or iterated is such a failure of its statement, and so is a text the driver refuses to
  encode as a \<open>uuid\<close>.
\<close>

record pg_server =
  uuid_cast :: "string \<Rightarrow> string option"
  gen_uuid :: "nat \<Rightarrow> string"
  jsonb :: "string \<Rightarrow> string option"

section \<open>Tables (the migrations)\<close>

record notification_row =
  nr_id :: string
  nr_topic :: string
  nr_title :: string
  nr_body :: string
  nr_link :: string
  nr_metadata :: string
  nr_priority :: string
  nr_broadcast :: bool
  nr_sender :: string
  nr_created_at :: gotime

record delivery_row =
  dr_notification_id :: string
  dr_recipient :: string
  dr_read :: bool
  dr_dismissed :: bool
  dr_read_at :: "gotime option"
  dr_created_at :: gotime

record preference_row =
  pr_subject :: string
  pr_channel :: string
  pr_enabled :: bool
  pr_config :: string
  pr_topics :: "string list"
  pr_updated_at :: gotime

record topic_subscription_row =
  ts_subject :: string
  ts_topic :: string
  ts_created_at :: gotime

record push_subscription_row =
  ps_id :: string
  ps_subject :: string
  ps_endpoint :: string
  ps_p256dh_key :: string
  ps_auth_key :: string
  ps_user_agent :: "string option"
  ps_created_at :: gotime
  ps_updated_at :: gotime

record pg =
  notifications :: "notification_row list"
  notification_deliveries :: "delivery_row list"
  notification_preferences :: "preference_row list"
  topic_subscriptions :: "topic_subscription_row list"
  push_subscriptions :: "push_subscription_row list"
  pg_now :: gotime
  pg_serial :: nat
  pg_faults :: "goerr option list"

record PushSubscriptionRow =
  Endpoint :: string
  P256dhKey :: string
  AuthKey :: string

type_synonym 'a result = "goerr + 'a"

section \<open>Statements\<close>

definition ErrNoRows :: goerr where
  "ErrNoRows = Sentinel ''no rows in result set''"

definition pg_run :: "(pg \<Rightarrow> 'a result \<times> pg) \<Rightarrow> pg \<Rightarrow> 'a result \<times> pg" where
  "pg_run stmt s =
     (case pg_faults s of
        Some e # fs \<Rightarrow> (Inl e, s\<lparr>pg_faults := fs\<rparr>)
      | None # fs \<Rightarrow> stmt (s\<lparr>pg_faults := fs\<rparr>)
      | [] \<Rightarrow> stmt s)"

definition sql_error :: "string \<Rightarrow> goerr" where
  "sql_error what = Errorf what []"

text \<open>\<open>INSERT ... ON CONFLICT (key) DO UPDATE\<close>: \<open>p\<close> tests for the key of the new row.\<close>

fun upsert_row :: "('r \<Rightarrow> bool) \<Rightarrow> 'r \<Rightarrow> ('r \<Rightarrow> 'r) \<Rightarrow> 'r list \<Rightarrow> 'r list" where
  "upsert_row p new upd [] = [new]"
| "upsert_row p new upd (r # rs) = (if p r then upd r # rs else r # upsert_row p new upd rs)"

section \<open>JSON columns\<close>

definition mapToJSON :: "string go_map \<Rightarrow> string" where
  "mapToJSON data = (if length data = 0 then ''{}'' else json_print (enc_string_map data))"

definition rawJSON :: "string \<Rightarrow> string" where
  "rawJSON data = (if length data = 0 then ''{}'' else data)"

definition decodeMetadata :: "string \<Rightarrow> string go_map" where
  "decodeMetadata data =
     (if length data = 0 then []
      else (case json_parse data of
              None \<Rightarrow> []
            | Some v \<Rightarrow> (case dec_string_map v [] of None \<Rightarrow> [] | Some m \<Rightarrow> m)))"

definition cloneMetadata :: "string go_map \<Rightarrow> string go_map" where
  "cloneMetadata data = (if length data = 0 then [] else fold (\<lambda>(k, v) out. go_put k v out) data [])"

section \<open>Notifications and deliveries\<close>

definition find_notification :: "string \<Rightarrow> pg \<Rightarrow> notification_row option" where
  "find_notification nid s = find (\<lambda>r. nr_id r = nid) (notifications s)"

definition notification_row_of :: "string \<Rightarrow> string \<Rightarrow> notification \<Rightarrow> gotime \<Rightarrow> notification_row" where
  "notification_row_of nid md n created =
     \<lparr>nr_id = nid, nr_topic = n_Topic n, nr_title = n_Title n, nr_body = n_Body n,
      nr_link = n_Link n, nr_metadata = md, nr_priority = n_Priority n,
      nr_broadcast = (length (n_Recipients n) = 0), nr_sender = n_Sender n,
      nr_created_at = created\<rparr>"

definition sql_upsert_notification ::
  "pg_server \<Rightarrow> notification \<Rightarrow> pg \<Rightarrow> (string \<times> gotime) result \<times> pg" where
  "sql_upsert_notification X n s =
     (case (if n_ID n = [] then Some (gen_uuid X (pg_serial s)) else uuid_cast X (n_ID n)) of
        None \<Rightarrow> (Inl (sql_error ''invalid input syntax for type uuid''), s)
      | Some nid \<Rightarrow>
          (case jsonb X (mapToJSON (n_Metadata n)) of
             None \<Rightarrow> (Inl (sql_error ''invalid input syntax for type json''), s)
           | Some md \<Rightarrow>
               (Inr (nid, case find_notification nid s of
                            Some r \<Rightarrow> nr_created_at r | None \<Rightarrow> pg_now s),
                s\<lparr>notifications :=
                    upsert_row (\<lambda>r. nr_id r = nid) (notification_row_of nid md n (pg_now s))
                      (\<lambda>r. notification_row_of nid md n (nr_created_at r)) (notifications s),
                  pg_serial := (if n_ID n = [] then Suc (pg_serial s) else pg_serial s)\<rparr>)))"

definition UpsertNotification ::
  "pg_server \<Rightarrow> notification option \<Rightarrow> pg \<Rightarrow> (error \<times> notification option) \<times> pg" where
  "UpsertNotification X np s =
     (case np of
        None \<Rightarrow> ((Some (Errorf ''notification is required'' []), None), s)
      | Some n \<Rightarrow>
          (case pg_run (sql_upsert_notification X n) s of
             (Inl e, s') \<Rightarrow> ((Some (Wrapf ''upsert notification: %w'' [] e), Some n), s')
           | (Inr (nid, created), s') \<Rightarrow>
               ((None, Some (n\<lparr>n_ID := nid, n_CreatedAt := created\<rparr>)), s')))"

definition find_delivery :: "string \<Rightarrow> string \<Rightarrow> pg \<Rightarrow> delivery_row option" where
  "find_delivery nid rcpt s =
     find (\<lambda>r. dr_notification_id r = nid \<and> dr_recipient r = rcpt) (notification_deliveries s)"

definition new_delivery :: "string \<Rightarrow> string \<Rightarrow> gotime \<Rightarrow> delivery_row" where
  "new_delivery nid rcpt now =
     \<lparr>dr_notification_id = nid, dr_recipient = rcpt, dr_read = False, dr_dismissed = False,
      dr_read_at = None, dr_created_at = now\<rparr>"

definition sql_insert_delivery :: "pg_server \<Rightarrow> string \<Rightarrow> string \<Rightarrow> pg \<Rightarrow> delivery_row result \<times> pg" where
  "sql_insert_delivery X rawid recipient s =
     (case (uuid_cast X rawid, uuid_cast X recipient) of
        (Some nid, Some rcpt) \<Rightarrow>
          if find_notification nid s = None then
            (Inl (sql_error ''violates foreign key constraint''), s)
          else
            (Inr (case find_delivery nid rcpt s of
                    Some r \<Rightarrow> r | None \<Rightarrow> new_delivery nid rcpt (pg_now s)),
             s\<lparr>notification_deliveries :=
                 upsert_row (\<lambda>r. dr_notification_id r = nid \<and> dr_recipient r = rcpt)
                   (new_delivery nid rcpt (pg_now s)) (\<lambda>r. r\<lparr>dr_notification_id := nid\<rparr>)
                   (notification_deliveries s)\<rparr>)
      | _ \<Rightarrow> (Inl (sql_error ''invalid input syntax for type uuid''), s))"

definition InsertSiteDelivery ::
  "pg_server \<Rightarrow> string \<Rightarrow> notification option \<Rightarrow> pg \<Rightarrow> delivery result \<times> pg" where
  "InsertSiteDelivery X recipient np s =
     (case np of
        None \<Rightarrow> (Inl (Errorf ''notification is required'' []), s)
      | Some n \<Rightarrow>
          (case pg_run (sql_insert_delivery X (n_ID n) recipient) s of
             (Inl e, s') \<Rightarrow> (Inl (Wrapf ''insert site delivery: %w'' [] e), s')
           | (Inr row, s') \<Rightarrow>
               (Inr \<lparr>d_NotificationID = n_ID n, d_Topic = n_Topic n, d_Title = n_Title n,
                     d_Body = n_Body n, d_Link = n_Link n,
                     d_Metadata = cloneMetadata (n_Metadata n), d_Priority = n_Priority n,
                     d_Sender = n_Sender n, d_CreatedAt = dr_created_at row,
                     d_Read = dr_read row, d_Dismissed = dr_dismissed row,
                     d_ReadAt = dr_read_at row\<rparr>, s')))"

text \<open>Ordering by \<open>uuid\<close> is ordering by canonical text.\<close>

definition ListTopicSubscribers :: "pg_server \<Rightarrow> string \<Rightarrow> pg \<Rightarrow> string list result \<times> pg" where
  "ListTopicSubscribers X topic s =
     (case pg_run (\<lambda>s. (Inr (sort (map ts_subject
             (filter (\<lambda>r. ts_topic r = topic) (topic_subscriptions s)))), s)) s of
        (Inl e, s') \<Rightarrow> (Inl (Wrapf ''list topic subscribers: %w'' [] e), s')
      | (Inr subjects, s') \<Rightarrow> (Inr subjects, s'))"

section \<open>Preferences\<close>

definition sql_get_preferences :: "pg_server \<Rightarrow> string \<Rightarrow> pg \<Rightarrow> preference_row list result \<times> pg" where
  "sql_get_preferences X subject s =
     (case uuid_cast X subject of
        None \<Rightarrow> (Inl (sql_error ''invalid input syntax for type uuid''), s)
      | Some u \<Rightarrow>
          (Inr (sort_key pr_channel (filter (\<lambda>r. pr_subject r = u) (notification_preferences s))), s))"

definition scan_preference :: "string \<Rightarrow> preference_row \<Rightarrow> preference" where
  "scan_preference subject r =
     \<lparr>p_Subject = subject, p_Channel = pr_channel r, p_Enabled = pr_enabled r,
      p_Config = pr_config r, p_Topics = pr_topics r, p_UpdatedAt = pr_updated_at r\<rparr>"

definition GetPreferences :: "pg_server \<Rightarrow> string \<Rightarrow> pg \<Rightarrow> preference list result \<times> pg" where
  "GetPreferences X subject s =
     (case pg_run (sql_get_preferences X subject) s of
        (Inl e, s') \<Rightarrow> (Inl (Wrapf ''get preferences: %w'' [] e), s')
      | (Inr rows, s') \<Rightarrow> (Inr (map (scan_preference subject) rows), s'))"

definition preference_row_of ::
  "string \<Rightarrow> string \<Rightarrow> bool \<Rightarrow> string \<Rightarrow> string list \<Rightarrow> gotime \<Rightarrow> preference_row" where
  "preference_row_of u channel enabled cfg topics now =
     \<lparr>pr_subject = u, pr_channel = channel, pr_enabled = enabled, pr_config = cfg,
      pr_topics = topics, pr_updated_at = now\<rparr>"

definition sql_upsert_preference ::
  "pg_server \<Rightarrow> string \<Rightarrow> string \<Rightarrow> bool \<Rightarrow> string \<Rightarrow> string list \<Rightarrow> pg \<Rightarrow> unit result \<times> pg" where
  "sql_upsert_preference X subject channel enabled config topics s =
     (case (uuid_cast X subject, jsonb X config) of
        (Some u, Some cfg) \<Rightarrow>
          (Inr (),
           s\<lparr>notification_preferences :=
               upsert_row (\<lambda>r. pr_subject r = u \<and> pr_channel r = channel)
                 (preference_row_of u channel enabled cfg topics (pg_now s))
                 (\<lambda>r. r\<lparr>pr_enabled := enabled, pr_config := cfg, pr_topics := topics,
                        pr_updated_at := pg_now s\<rparr>) (notification_preferences s)\<rparr>)
      | _ \<Rightarrow> (Inl (sql_error ''invalid input syntax''), s))"

definition UpsertPreference ::
  "pg_server \<Rightarrow> string \<Rightarrow> preference option \<Rightarrow> pg \<Rightarrow> error \<times> pg" where
  "UpsertPreference X subject prefp s =
     (case prefp of
        None \<Rightarrow> (Some (Errorf ''preference is required'' []), s)
      | Some pref \<Rightarrow>
          (case pg_run (sql_upsert_preference X subject (p_Channel pref) (p_Enabled pref)
                  (rawJSON (p_Config pref)) (p_Topics pref)) s of
             (Inl e, s') \<Rightarrow> (Some (Wrapf ''upsert preference: %w'' [] e), s')
           | (Inr _, s') \<Rightarrow> (None, s')))"

definition DefaultPreferences :: "string \<Rightarrow> preference list" where
  "DefaultPreferences subject =
     [\<lparr>p_Subject = subject, p_Channel = ChannelSite, p_Enabled = True, p_Config = ''{}'',
       p_Topics = [], p_UpdatedAt = 0\<rparr>,
      \<lparr>p_Subject = subject, p_Channel = ChannelWebPush, p_Enabled = False, p_Config = ''{}'',
       p_Topics = [], p_UpdatedAt = 0\<rparr>]"

fun merge_loop ::
  "preference list \<Rightarrow> preference list \<Rightarrow> (Channel \<rightharpoonup> nat) \<Rightarrow> preference list" where
  "merge_loop [] out index = out"
| "merge_loop (pref # prefs) out index =
     (case index (p_Channel pref) of
        Some idx \<Rightarrow> merge_loop prefs (out[idx := pref]) index
      | None \<Rightarrow> merge_loop prefs (out @ [pref]) (index(p_Channel pref \<mapsto> length out)))"

definition MergeDefaults :: "string \<Rightarrow> preference list \<Rightarrow> preference list" where
  "MergeDefaults subject prefs =
     merge_loop prefs (DefaultPreferences subject) [ChannelSite \<mapsto> 0, ChannelWebPush \<mapsto> 1]"

section \<open>The inbox\<close>

text \<open>The join of deliveries and notifications, as \<open>scanDelivery\<close> reads a row of it.\<close>

definition scanDelivery :: "notification_row \<Rightarrow> delivery_row \<Rightarrow> delivery" where
  "scanDelivery n d =
     \<lparr>d_NotificationID = nr_id n, d_Topic = nr_topic n, d_Title = nr_title n, d_Body = nr_body n,
      d_Link = nr_link n, d_Metadata = decodeMetadata (nr_metadata n),
      d_Priority = trim_space (nr_priority n), d_Sender = nr_sender n,
      d_CreatedAt = nr_created_at n, d_Read = dr_read d, d_Dismissed = dr_dismissed d,
      d_ReadAt = dr_read_at d\<rparr>"

definition inbox_rows :: "string \<Rightarrow> pg \<Rightarrow> (notification_row \<times> delivery_row) list" where
  "inbox_rows u s =
     [(n, d). d \<leftarrow> notification_deliveries s, dr_recipient d = u \<and> \<not> dr_dismissed d,
              n \<leftarrow> notifications s, nr_id n = dr_notification_id d]"

definition inbox_key :: "notification_row \<times> delivery_row \<Rightarrow> gotime \<times> string" where
  "inbox_key r = (nr_created_at (fst r), nr_id (fst r))"

text \<open>\<open>ORDER BY n.created_at DESC, n.id DESC\<close>\<close>

definition ordered_inbox :: "string \<Rightarrow> pg \<Rightarrow> (notification_row \<times> delivery_row) list" where
  "ordered_inbox u s = rev (sort_key inbox_key (inbox_rows u s))"

definition sql_list_inbox ::
  "pg_server \<Rightarrow> string \<Rightarrow> int \<Rightarrow> int \<Rightarrow> pg \<Rightarrow> (notification_row \<times> delivery_row) list result \<times> pg" where
  "sql_list_inbox X recipient limit offset s =
     (case uuid_cast X recipient of
        None \<Rightarrow> (Inl (sql_error ''invalid input syntax for type uuid''), s)
      | Some u \<Rightarrow> (Inr (take (nat limit) (drop (nat offset) (ordered_inbox u s))), s))"

definition ListInbox :: "pg_server \<Rightarrow> string \<Rightarrow> int \<Rightarrow> int \<Rightarrow> pg \<Rightarrow> delivery list result \<times> pg" where
  "ListInbox X recipient limit offset s =
     (let limit = (if limit \<le> 0 \<or> limit > 100 then 50 else limit);
          offset = (if offset < 0 then 0 else offset)
      in case pg_run (sql_list_inbox X recipient limit offset) s of
           (Inl e, s') \<Rightarrow> (Inl (Wrapf ''list inbox: %w'' [] e), s')
         | (Inr rows, s') \<Rightarrow> (Inr (map (\<lambda>(n, d). scanDelivery n d) rows), s'))"

definition sql_count_unread :: "pg_server \<Rightarrow> string \<Rightarrow> pg \<Rightarrow> nat result \<times> pg" where
  "sql_count_unread X recipient s =
     (case uuid_cast X recipient of
        None \<Rightarrow> (Inl (sql_error ''invalid input syntax for type uuid''), s)
      | Some u \<Rightarrow>
          (Inr (length (filter (\<lambda>d. dr_recipient d = u \<and> \<not> dr_dismissed d \<and> \<not> dr_read d)
                  (notification_deliveries s))), s))"

definition CountUnread :: "pg_server \<Rightarrow> string \<Rightarrow> pg \<Rightarrow> nat result \<times> pg" where
  "CountUnread X recipient s =
     (case pg_run (sql_count_unread X recipient) s of
        (Inl e, s') \<Rightarrow> (Inl (Wrapf ''count unread: %w'' [] e), s')
      | (Inr k, s') \<Rightarrow> (Inr k, s'))"

text \<open>\<open>UPDATE notification_deliveries SET ... WHERE ...\<close>; the result is the number of rows affected.\<close>

definition sql_update_deliveries ::
  "pg_server \<Rightarrow> (pg \<Rightarrow> delivery_row \<Rightarrow> delivery_row) \<Rightarrow> string \<Rightarrow> string \<Rightarrow> pg \<Rightarrow> nat result \<times> pg" where
  "sql_update_deliveries X upd recipient rawid s =
     (case (uuid_cast X recipient, uuid_cast X rawid) of
        (Some u, Some nid) \<Rightarrow>
          (let hit = (\<lambda>d. dr_recipient d = u \<and> dr_notification_id d = nid)
           in (Inr (length (filter hit (notification_deliveries s))),
               s\<lparr>notification_deliveries :=
                   map (\<lambda>d. if hit d then upd s d else d) (notification_deliveries s)\<rparr>))
      | _ \<Rightarrow> (Inl (sql_error ''invalid input syntax for type uuid''), s))"

definition set_read :: "pg \<Rightarrow> delivery_row \<Rightarrow> delivery_row" where
  "set_read s d =
     d\<lparr>dr_read := True,
       dr_read_at := (case dr_read_at d of Some t \<Rightarrow> Some t | None \<Rightarrow> Some (pg_now s))\<rparr>"

definition set_dismissed :: "pg \<Rightarrow> delivery_row \<Rightarrow> delivery_row" where
  "set_dismissed s d = d\<lparr>dr_dismissed := True\<rparr>"

definition MarkRead :: "pg_server \<Rightarrow> string \<Rightarrow> string \<Rightarrow> pg \<Rightarrow> error \<times> pg" where
  "MarkRead X recipient notificationID s =
     (case pg_run (sql_update_deliveries X set_read recipient notificationID) s of
        (Inl e, s') \<Rightarrow> (Some (Wrapf ''mark read: %w'' [] e), s')
      | (Inr affected, s') \<Rightarrow> (if affected = 0 then Some ErrNoRows else None, s'))"

definition Dismiss :: "pg_server \<Rightarrow> string \<Rightarrow> string \<Rightarrow> pg \<Rightarrow> error \<times> pg" where
  "Dismiss X recipient notificationID s =
     (case pg_run (sql_update_deliveries X set_dismissed recipient notificationID) s of
        (Inl e, s') \<Rightarrow> (Some (Wrapf ''dismiss notification: %w'' [] e), s')
      | (Inr affected, s') \<Rightarrow> (if affected = 0 then Some ErrNoRows else None, s'))"

section \<open>Push subscriptions\<close>

definition push_row_of ::
  "string \<Rightarrow> string \<Rightarrow> string \<Rightarrow> string \<Rightarrow> string \<Rightarrow> string option \<Rightarrow> gotime \<Rightarrow> push_subscription_row" where
  "push_row_of pid u ep p256dh auth ua now =
     \<lparr>ps_id = pid, ps_subject = u, ps_endpoint = ep, ps_p256dh_key = p256dh, ps_auth_key = auth,
      ps_user_agent = ua, ps_created_at = now, ps_updated_at = now\<rparr>"

definition nullif_empty :: "string \<Rightarrow> string option" where
  "nullif_empty t = (if t = [] then None else Some t)"

definition sql_upsert_push ::
  "pg_server \<Rightarrow> string \<Rightarrow> string \<Rightarrow> string \<Rightarrow> string \<Rightarrow> string \<Rightarrow> pg \<Rightarrow> unit result \<times> pg" where
  "sql_upsert_push X subject ep p256dh auth userAgent s =
     (case uuid_cast X subject of
        None \<Rightarrow> (Inl (sql_error ''invalid input syntax for type uuid''), s)
      | Some u \<Rightarrow>
          (Inr (),
           s\<lparr>push_subscriptions :=
               upsert_row (\<lambda>r. ps_subject r = u \<and> ps_endpoint r = ep)
                 (push_row_of (gen_uuid X (pg_serial s)) u ep p256dh auth (nullif_empty userAgent) (pg_now s))
                 (\<lambda>r. r\<lparr>ps_p256dh_key := p256dh, ps_auth_key := auth,
                        ps_user_agent := nullif_empty userAgent, ps_updated_at := pg_now s\<rparr>)
                 (push_subscriptions s),
             pg_serial := Suc (pg_serial s)\<rparr>))"

definition UpsertPushSubscription ::
  "pg_server \<Rightarrow> string \<Rightarrow> string \<Rightarrow> string \<Rightarrow> string \<Rightarrow> string \<Rightarrow> pg \<Rightarrow> error \<times> pg" where
  "UpsertPushSubscription X subject ep p256dh auth userAgent s =
     (case pg_run (sql_upsert_push X subject ep p256dh auth userAgent) s of
        (Inl e, s') \<Rightarrow> (Some (Wrapf ''upsert push subscription: %w'' [] e), s')
      | (Inr _, s') \<Rightarrow> (None, s'))"

definition sql_delete_push :: "pg_server \<Rightarrow> string \<Rightarrow> string \<Rightarrow> pg \<Rightarrow> unit result \<times> pg" where
  "sql_delete_push X subject ep s =
     (case uuid_cast X subject of
        None \<Rightarrow> (Inl (sql_error ''invalid input syntax for type uuid''), s)
      | Some u \<Rightarrow>
          (Inr (), s\<lparr>push_subscriptions :=
             filter (\<lambda>r. \<not> (ps_subject r = u \<and> ps_endpoint r = ep)) (push_subscriptions s)\<rparr>))"

definition DeletePushSubscription :: "pg_server \<Rightarrow> string \<Rightarrow> string \<Rightarrow> pg \<Rightarrow> error \<times> pg" where
  "DeletePushSubscription X subject ep s =
     (case pg_run (sql_delete_push X subject ep) s of
        (Inl e, s') \<Rightarrow> (Some (Wrapf ''delete push subscription: %w'' [] e), s')
      | (Inr _, s') \<Rightarrow> (None, s'))"

definition sql_list_push :: "pg_server \<Rightarrow> string \<Rightarrow> pg \<Rightarrow> push_subscription_row list result \<times> pg" where
  "sql_list_push X subject s =
     (case uuid_cast X subject of
        None \<Rightarrow> (Inl (sql_error ''invalid input syntax for type uuid''), s)
      | Some u \<Rightarrow> (Inr (filter (\<lambda>r. ps_subject r = u) (push_subscriptions s)), s))"

definition ListPushSubscriptionsForSubject ::
  "pg_server \<Rightarrow> string \<Rightarrow> pg \<Rightarrow> PushSubscriptionRow list result \<times> pg" where
  "ListPushSubscriptionsForSubject X subject s =
     (case pg_run (sql_list_push X subject) s of
        (Inl e, s') \<Rightarrow> (Inl (Wrapf ''list push subscriptions: %w'' [] e), s')
      | (Inr rows, s') \<Rightarrow>
          (Inr (map (\<lambda>r. \<lparr>Endpoint = ps_endpoint r, P256dhKey = ps_p256dh_key r,
                          AuthKey = ps_auth_key r\<rparr>) rows), s'))"

end
