(* ===== verification/StoreProps.thy ===== *)
theory StoreProps
  imports Store
begin

text \<open>
  What the store's operations guarantee. First the integrity of the tables (primary and unique
  keys, the foreign key from deliveries to notifications, the agreement of the read flag with the
  read time) as an invariant of every state the operations can reach; then the facts about
  single statements that the later theories use.
\<close>

section \<open>Statements and upserts\<close>

lemma pg_faults_Nil_id: "pg_faults s = [] \<Longrightarrow> s\<lparr>pg_faults := []\<rparr> = s"
  by (cases s) simp

lemma pg_run_cases:
  obtains (fault) e fs where "pg_faults s = Some e # fs" "pg_run stmt s = (Inl e, s\<lparr>pg_faults := fs\<rparr>)"
  | (run) fs where "pg_run stmt s = stmt (s\<lparr>pg_faults := fs\<rparr>)"
      and "pg_faults s = None # fs \<or> (pg_faults s = [] \<and> fs = [])"
proof (cases "pg_faults s")
  case Nil
  then have "pg_run stmt s = stmt (s\<lparr>pg_faults := []\<rparr>)"
    by (simp add: pg_run_def pg_faults_Nil_id)
  with Nil show ?thesis using run by blast
next
  case (Cons f fs)
  then show ?thesis using fault run by (cases f) (simp_all add: pg_run_def)
qed

text \<open>What a statement keeps, its execution keeps, whether or not it fails.\<close>

lemma pg_run_keeps:
  assumes "I s" and "\<And>fs. I (s\<lparr>pg_faults := fs\<rparr>) = I s" and "\<And>s. I s \<Longrightarrow> I (snd (stmt s))"
  shows "I (snd (pg_run stmt s))"
proof (cases rule: pg_run_cases [of s stmt])
  case (fault e fs)
  then show ?thesis using assms by simp
next
  case (run fs)
  then show ?thesis using assms(1) assms(2) [of fs] assms(3) [of "s\<lparr>pg_faults := fs\<rparr>"] by simp
qed

text \<open>The state an operation leaves is the state its statement leaves.\<close>

lemma snd_store_op [simp]:
  "snd (UpsertNotification X np s) = (case np of None \<Rightarrow> s | Some n \<Rightarrow> snd (pg_run (sql_upsert_notification X n) s))"
  "snd (InsertSiteDelivery X r np s)
     = (case np of None \<Rightarrow> s | Some n \<Rightarrow> snd (pg_run (sql_insert_delivery X (n_ID n) r) s))"
  "snd (GetPreferences X u s) = snd (pg_run (sql_get_preferences X u) s)"
  "snd (UpsertPreference X u pp s) = (case pp of None \<Rightarrow> s | Some p \<Rightarrow>
     snd (pg_run (sql_upsert_preference X u (p_Channel p) (p_Enabled p) (rawJSON (p_Config p)) (p_Topics p)) s))"
  "snd (CountUnread X r s) = snd (pg_run (sql_count_unread X r) s)"
  "snd (MarkRead X r i s) = snd (pg_run (sql_update_deliveries X set_read r i) s)"
  "snd (Dismiss X r i s) = snd (pg_run (sql_update_deliveries X set_dismissed r i) s)"
  "snd (UpsertPushSubscription X u ep k a ua s) = snd (pg_run (sql_upsert_push X u ep k a ua) s)"
  "snd (DeletePushSubscription X u ep s) = snd (pg_run (sql_delete_push X u ep) s)"
  "snd (ListPushSubscriptionsForSubject X u s) = snd (pg_run (sql_list_push X u) s)"
  by (simp_all add: UpsertNotification_def InsertSiteDelivery_def GetPreferences_def UpsertPreference_def
      CountUnread_def MarkRead_def Dismiss_def UpsertPushSubscription_def DeletePushSubscription_def
      ListPushSubscriptionsForSubject_def split: option.split sum.split prod.split)

lemma snd_ListTopicSubscribers [simp]:
  "snd (ListTopicSubscribers X t s) = s\<lparr>pg_faults := tl (pg_faults s)\<rparr>"
  by (auto simp: ListTopicSubscribers_def pg_run_def pg_faults_Nil_id split: list.split option.split)

lemma snd_ListInbox [simp]:
  "snd (ListInbox X r l k s) = s\<lparr>pg_faults := tl (pg_faults s)\<rparr>"
  by (auto simp: ListInbox_def Let_def pg_run_def pg_faults_Nil_id sql_list_inbox_def
      split: list.split option.split prod.split sum.split)

text \<open>A statement that succeeded ran on the tables as they were.\<close>

lemma pg_run_Inr:
  assumes "pg_run stmt s = (Inr x, s')"
  obtains fs where "stmt (s\<lparr>pg_faults := fs\<rparr>) = (Inr x, s')"
  using assms by (cases rule: pg_run_cases [of s stmt]) auto

lemma pg_run_no_faults: "pg_faults s = [] \<Longrightarrow> pg_run stmt s = stmt s"
  by (simp add: pg_run_def)

lemma set_upsert_row: "set (upsert_row p new upd rs) \<subseteq> insert new (upd ` set rs \<union> set rs)"
  by (induction rs) auto

lemma keys_upsert_row:
  assumes "\<And>r. p r \<longleftrightarrow> key r = key new" and "\<And>r. p r \<Longrightarrow> key (upd r) = key r"
  shows "key ` set (upsert_row p new upd rs) = insert (key new) (key ` set rs)"
proof (induction rs)
  case (Cons r rs)
  then show ?case using assms [of r] by auto
qed simp

lemma distinct_upsert_row:
  assumes "\<And>r. p r \<longleftrightarrow> key r = key new" and "\<And>r. p r \<Longrightarrow> key (upd r) = key r"
    and "distinct (map key rs)"
  shows "distinct (map key (upsert_row p new upd rs))"
  using assms(3)
proof (induction rs)
  case (Cons r rs)
  show ?case
  proof (cases "p r")
    case True
    then show ?thesis using Cons.prems assms(2) [OF True] by simp
  next
    case False
    then have "key r \<noteq> key new" using assms(1) by auto
    then have "key r \<notin> key ` set (upsert_row p new upd rs)"
      using keys_upsert_row [of p key new upd rs] assms(1,2) Cons.prems by auto
    then show ?thesis using False Cons by simp
  qed
qed simp

lemma find_upsert_row_same:
  assumes "p new" and "\<And>r. p r \<Longrightarrow> p (upd r)"
  shows "find p (upsert_row p new upd rs)
           = Some (case find p rs of Some r \<Rightarrow> upd r | None \<Rightarrow> new)"
  using assms by (induction rs) auto

lemma find_upsert_row_other:
  assumes "\<not> q new" and "\<And>r. p r \<Longrightarrow> \<not> q r \<and> \<not> q (upd r)"
  shows "find q (upsert_row p new upd rs) = find q rs"
  using assms by (induction rs) auto

text \<open>An update that writes back what is there: the upsert only ever appends.\<close>

lemma upsert_row_noop:
  assumes "\<And>r. p r \<Longrightarrow> upd r = r"
  shows "upsert_row p new upd rs = (if find p rs = None then rs @ [new] else rs)"
  using assms by (induction rs) auto

lemma upsert_row_twice:
  assumes "p new" and "\<And>r. p r \<Longrightarrow> p (upd r)" and "\<And>r. upd' (upd r) = upd r" and "upd' new = new"
  shows "upsert_row p new' upd' (upsert_row p new upd rs) = upsert_row p new upd rs"
  using assms by (induction rs) auto

section \<open>Integrity of the tables\<close>

definition delivery_key :: "delivery_row \<Rightarrow> string \<times> string" where
  "delivery_key d = (dr_notification_id d, dr_recipient d)"

definition preference_key :: "preference_row \<Rightarrow> string \<times> string" where
  "preference_key r = (pr_subject r, pr_channel r)"

definition push_key :: "push_subscription_row \<Rightarrow> string \<times> string" where
  "push_key r = (ps_subject r, ps_endpoint r)"

definition read_time_ok :: "delivery_row \<Rightarrow> bool" where
  "read_time_ok d \<longleftrightarrow> (dr_read d \<longleftrightarrow> dr_read_at d \<noteq> None)"

definition pg_inv :: "pg \<Rightarrow> bool" where
  "pg_inv s \<longleftrightarrow>
     distinct (map nr_id (notifications s))
     \<and> distinct (map delivery_key (notification_deliveries s))
     \<and> distinct (map preference_key (notification_preferences s))
     \<and> distinct (map push_key (push_subscriptions s))
     \<and> dr_notification_id ` set (notification_deliveries s) \<subseteq> nr_id ` set (notifications s)
     \<and> list_all read_time_ok (notification_deliveries s)"

definition empty_pg :: "gotime \<Rightarrow> goerr option list \<Rightarrow> pg" where
  "empty_pg now faults = \<lparr>notifications = [], notification_deliveries = [], notification_preferences = [],
     topic_subscriptions = [], push_subscriptions = [], pg_now = now, pg_serial = 0, pg_faults = faults\<rparr>"

lemma pg_inv_faults [simp]: "pg_inv (s\<lparr>pg_faults := fs\<rparr>) = pg_inv s"
  by (simp add: pg_inv_def)

lemma find_notification_iff:
  "find_notification nid s \<noteq> None \<longleftrightarrow> nid \<in> nr_id ` set (notifications s)"
  by (auto simp: find_notification_def find_None_iff)

lemma find_notification_SomeD:
  "find_notification nid s = Some r \<Longrightarrow> r \<in> set (notifications s) \<and> nr_id r = nid
     \<and> nid \<in> nr_id ` set (notifications s)"
  by (auto simp: find_notification_def dest!: find_SomeD)

lemma row_of_keys [simp]:
  "nr_id (notification_row_of nid md n t) = nid"
  "nr_created_at (notification_row_of nid md n t) = t"
  "delivery_key (new_delivery nid rcpt t) = (nid, rcpt)"
  "dr_notification_id (new_delivery nid rcpt t) = nid"
  "dr_recipient (new_delivery nid rcpt t) = rcpt"
  "preference_key (preference_row_of u ch en cfg tps t) = (u, ch)"
  "push_key (push_row_of pid u ep k a ua t) = (u, ep)"
  "read_time_ok (new_delivery nid rcpt t)"
  by (simp_all add: notification_row_of_def new_delivery_def preference_row_of_def push_row_of_def
      delivery_key_def preference_key_def push_key_def read_time_ok_def)

lemma pg_inv_sql_upsert_notification: "pg_inv s \<Longrightarrow> pg_inv (snd (sql_upsert_notification X n s))"
proof -
  assume inv: "pg_inv s"
  let ?rows = "\<lambda>nid md. upsert_row (\<lambda>r. nr_id r = nid) (notification_row_of nid md n (pg_now s))
                 (\<lambda>r. notification_row_of nid md n (nr_created_at r)) (notifications s)"
  have "distinct (map nr_id (?rows nid md))" for nid md
    using inv by (intro distinct_upsert_row) (auto simp: pg_inv_def)
  moreover have "nr_id ` set (?rows nid md) = insert nid (nr_id ` set (notifications s))" for nid md
    by (subst keys_upsert_row) auto
  ultimately show ?thesis
    using inv by (auto simp: sql_upsert_notification_def pg_inv_def split: option.split)
qed

lemma pg_inv_run:
  "pg_inv s \<Longrightarrow> (\<And>s. pg_inv s \<Longrightarrow> pg_inv (snd (stmt s))) \<Longrightarrow> pg_inv (snd (pg_run stmt s))"
  by (rule pg_run_keeps) simp_all

lemma insert_delivery_rows:
  "upsert_row (\<lambda>r. dr_notification_id r = nid \<and> dr_recipient r = rcpt) new
     (\<lambda>r. r\<lparr>dr_notification_id := nid\<rparr>) (notification_deliveries s)
   = (if find_delivery nid rcpt s = None then notification_deliveries s @ [new]
      else notification_deliveries s)"
  by (subst upsert_row_noop) (auto simp: find_delivery_def)

lemma pg_inv_sql_insert_delivery: "pg_inv s \<Longrightarrow> pg_inv (snd (sql_insert_delivery X rawid r s))"
  by (auto simp: sql_insert_delivery_def insert_delivery_rows pg_inv_def find_delivery_def
      find_None_iff delivery_key_def split: option.split dest: find_notification_SomeD)

lemma pg_inv_sql_upsert_preference:
  assumes "pg_inv s"
  shows "pg_inv (snd (sql_upsert_preference X u ch en cfg tps s))"
proof -
  have "distinct (map preference_key (upsert_row (\<lambda>r. pr_subject r = v \<and> pr_channel r = ch)
      (preference_row_of v ch en c tps (pg_now s))
      (\<lambda>r. r\<lparr>pr_enabled := en, pr_config := c, pr_topics := tps, pr_updated_at := pg_now s\<rparr>)
      (notification_preferences s)))" for v c
    using assms by (intro distinct_upsert_row) (auto simp: pg_inv_def preference_key_def preference_row_of_def)
  then show ?thesis
    using assms by (auto simp: sql_upsert_preference_def pg_inv_def split: option.split)
qed

lemma pg_inv_sql_upsert_push:
  assumes "pg_inv s"
  shows "pg_inv (snd (sql_upsert_push X u ep k a ua s))"
proof -
  have "distinct (map push_key (upsert_row (\<lambda>r. ps_subject r = v \<and> ps_endpoint r = ep)
      (push_row_of pid v ep k a w (pg_now s))
      (\<lambda>r. r\<lparr>ps_p256dh_key := k, ps_auth_key := a, ps_user_agent := w, ps_updated_at := pg_now s\<rparr>)
      (push_subscriptions s)))" for v w pid
    using assms by (intro distinct_upsert_row) (auto simp: pg_inv_def push_key_def push_row_of_def)
  then show ?thesis
    using assms by (auto simp: sql_upsert_push_def pg_inv_def split: option.split)
qed

lemma delivery_key_update:
  "delivery_key (set_read s d) = delivery_key d" "delivery_key (set_dismissed s d) = delivery_key d"
  "read_time_ok d \<Longrightarrow> read_time_ok (set_dismissed s d)" "read_time_ok (set_read s d)"
  by (simp_all add: set_read_def set_dismissed_def delivery_key_def read_time_ok_def split: option.split)

lemma pg_inv_sql_update_deliveries:
  assumes "pg_inv s"
    and "\<And>d. delivery_key (upd s d) = delivery_key d" and "\<And>d. read_time_ok d \<Longrightarrow> read_time_ok (upd s d)"
  shows "pg_inv (snd (sql_update_deliveries X upd r i s))"
proof -
  have "dr_notification_id (upd s d) = dr_notification_id d" for d
    using assms(2) [of d] by (simp add: delivery_key_def)
  moreover have "delivery_key \<circ> (\<lambda>d. if P d then upd s d else d) = delivery_key" for P
    using assms(2) by (auto simp: fun_eq_iff)
  ultimately show ?thesis
    using assms(1,3) unfolding sql_update_deliveries_def pg_inv_def Let_def
    by (auto simp: list_all_iff split: option.split)
qed

lemma pg_inv_sql_delete_push: "pg_inv s \<Longrightarrow> pg_inv (snd (sql_delete_push X u ep s))"
  by (auto simp: sql_delete_push_def pg_inv_def distinct_map inj_on_def split: option.split)

lemma sql_queries_keep_state [simp]:
  "snd (sql_get_preferences X u s) = s" "snd (sql_count_unread X r s) = s"
  "snd (sql_list_push X u s) = s" "snd (sql_list_inbox X r l k s) = s"
  by (simp_all add: sql_get_preferences_def sql_count_unread_def sql_list_push_def sql_list_inbox_def
      split: option.split)

text \<open>Every operation of the store keeps the integrity of the tables.\<close>

lemma pg_inv_operations [keeps]:
  "pg_inv s \<Longrightarrow> pg_inv (snd (UpsertNotification X np s))"
  "pg_inv s \<Longrightarrow> pg_inv (snd (InsertSiteDelivery X r np s))"
  "pg_inv s \<Longrightarrow> pg_inv (snd (ListTopicSubscribers X t s))"
  "pg_inv s \<Longrightarrow> pg_inv (snd (GetPreferences X u s))"
  "pg_inv s \<Longrightarrow> pg_inv (snd (UpsertPreference X u pp s))"
  "pg_inv s \<Longrightarrow> pg_inv (snd (ListInbox X r l k s))"
  "pg_inv s \<Longrightarrow> pg_inv (snd (CountUnread X r s))"
  "pg_inv s \<Longrightarrow> pg_inv (snd (MarkRead X r i s))"
  "pg_inv s \<Longrightarrow> pg_inv (snd (Dismiss X r i s))"
  "pg_inv s \<Longrightarrow> pg_inv (snd (UpsertPushSubscription X u ep k' a ua s))"
  "pg_inv s \<Longrightarrow> pg_inv (snd (DeletePushSubscription X u ep s))"
  "pg_inv s \<Longrightarrow> pg_inv (snd (ListPushSubscriptionsForSubject X u s))"
  by (auto split: option.split
      intro!: pg_inv_run pg_inv_sql_upsert_notification pg_inv_sql_insert_delivery
        pg_inv_sql_upsert_preference pg_inv_sql_upsert_push pg_inv_sql_update_deliveries
        pg_inv_sql_delete_push
      simp: delivery_key_update)

section \<open>Reachable states\<close>

text \<open>
  One step is one operation of \<open>pg_op\<close>, called with any arguments by any part of the service, or a change the
  service does not make: time passes, the script of failures changes, and the topic
  subscriptions (which no operation of the service writes) are edited.
\<close>

datatype pg_op =
    StoreNotification "notification option"
  | InsertDelivery string "notification option"
  | ListSubscribers string
  | ReadPreferences string
  | PutPreference string "preference option"
  | ReadInbox string int int
  | ReadCount string
  | ReadItem string string
  | DismissItem string string
  | PutPush string string string string string
  | DropPush string string
  | ReadPush string
  | Clock gotime
  | Outages "goerr option list"
  | EditTopics "topic_subscription_row list"

fun pg_effect :: "pg_server \<Rightarrow> pg_op \<Rightarrow> pg \<Rightarrow> pg" where
  "pg_effect X (StoreNotification np) s = snd (UpsertNotification X np s)"
| "pg_effect X (InsertDelivery r np) s = snd (InsertSiteDelivery X r np s)"
| "pg_effect X (ListSubscribers t) s = snd (ListTopicSubscribers X t s)"
| "pg_effect X (ReadPreferences u) s = snd (GetPreferences X u s)"
| "pg_effect X (PutPreference u pp) s = snd (UpsertPreference X u pp s)"
| "pg_effect X (ReadInbox r l k) s = snd (ListInbox X r l k s)"
| "pg_effect X (ReadCount r) s = snd (CountUnread X r s)"
| "pg_effect X (ReadItem r i) s = snd (MarkRead X r i s)"
| "pg_effect X (DismissItem r i) s = snd (Dismiss X r i s)"
| "pg_effect X (PutPush u ep p a ua) s = snd (UpsertPushSubscription X u ep p a ua s)"
| "pg_effect X (DropPush u ep) s = snd (DeletePushSubscription X u ep s)"
| "pg_effect X (ReadPush u) s = snd (ListPushSubscriptionsForSubject X u s)"
| "pg_effect X (Clock t) s = s\<lparr>pg_now := t\<rparr>"
| "pg_effect X (Outages fs) s = s\<lparr>pg_faults := fs\<rparr>"
| "pg_effect X (EditTopics ts) s = s\<lparr>topic_subscriptions := ts\<rparr>"

fun op_enabled :: "pg_op \<Rightarrow> pg \<Rightarrow> bool" where
  "op_enabled (Clock t) s \<longleftrightarrow> pg_now s \<le> t"
| "op_enabled _ s \<longleftrightarrow> True"

inductive pg_steps :: "pg_server \<Rightarrow> pg \<Rightarrow> pg_op list \<Rightarrow> pg \<Rightarrow> bool" for X s where
  none: "pg_steps X s [] s"
| more: "pg_steps X s ops t \<Longrightarrow> op_enabled op t \<Longrightarrow> pg_steps X s (ops @ [op]) (pg_effect X op t)"

definition pg_reachable :: "pg_server \<Rightarrow> pg \<Rightarrow> bool" where
  "pg_reachable X s \<longleftrightarrow> (\<exists>now fs ops. pg_steps X (empty_pg now fs) ops s)"

lemma pg_steps_one: "op_enabled op s \<Longrightarrow> pg_steps X s [op] (pg_effect X op s)"
  using more [OF none, of op s X] by simp

lemma pg_steps_append:
  assumes "pg_steps X s ops t"
  shows "pg_steps X t ops' t' \<Longrightarrow> pg_steps X s (ops @ ops') t'"
proof (induction rule: pg_steps.induct)
  case (more ops' t' op)
  then show ?case using pg_steps.more [of X s "ops @ ops'" t' op] by simp
qed (simp add: assms)

lemma pg_effect_inv [keeps]: "pg_inv s \<Longrightarrow> pg_inv (pg_effect X op s)"
  by (cases op) (simp_all add: pg_inv_operations del: snd_store_op snd_ListTopicSubscribers snd_ListInbox,
      simp_all add: pg_inv_def)

lemma pg_steps_inv: "pg_steps X s ops t \<Longrightarrow> pg_inv s \<Longrightarrow> pg_inv t"
  by (induction rule: pg_steps.induct) (simp_all add: pg_effect_inv)

text \<open>
  C9: in every state the store can reach, whatever operations are called in whatever order and
  whichever of them fail: ids of notifications, (notification, recipient) of deliveries,
  (subject, channel) of preferences and (subject, endpoint) of push subscriptions are unique, every
  delivery refers to a stored notification, and a delivery has a read time exactly when it is read.
\<close>

theorem store_integrity: "pg_reachable X s \<Longrightarrow> pg_inv s"
  unfolding pg_reachable_def by (elim exE, erule pg_steps_inv) (simp add: pg_inv_def empty_pg_def)

text \<open>A concrete server for the witnesses: texts are cast by lowering their letters.\<close>

definition sample_server :: pg_server where
  "sample_server = \<lparr>uuid_cast = (\<lambda>t. if t = [] then None else Some (map ascii_lower t)),
     gen_uuid = (\<lambda>k. replicate (Suc k) (CHR ''0'')), jsonb = Some\<rparr>"

definition sample_pg :: pg where
  "sample_pg = snd (InsertSiteDelivery sample_server ''R1'' (Some (zero_notification\<lparr>n_ID := ''A1''\<rparr>))
     (snd (UpsertNotification sample_server (Some (zero_notification\<lparr>n_ID := ''A1''\<rparr>)) (empty_pg 5 []))))"

lemma sample_pg_reachable: "pg_reachable sample_server sample_pg"
proof -
  let ?n = "Some (zero_notification\<lparr>n_ID := ''A1''\<rparr>)"
  let ?s = "pg_effect sample_server (StoreNotification ?n) (empty_pg 5 [])"
  have "pg_steps sample_server (empty_pg 5 []) [StoreNotification ?n] ?s"
    "pg_steps sample_server ?s [InsertDelivery ''R1'' ?n] (pg_effect sample_server (InsertDelivery ''R1'' ?n) ?s)"
    by (rule pg_steps_one, simp only: op_enabled.simps)+
  from pg_steps_append [OF this] have "pg_steps sample_server (empty_pg 5 []) [StoreNotification ?n, InsertDelivery ''R1'' ?n] sample_pg"
    unfolding sample_pg_def by (simp del: snd_store_op)
  then show ?thesis unfolding pg_reachable_def by blast
qed

lemma sample_lower: "ascii_lower CHR ''A'' = CHR ''a''" "ascii_lower CHR ''R'' = CHR ''r''"
    "ascii_lower CHR ''1'' = CHR ''1''"
  by code_simp+

lemma sample_pg_eq:
  "sample_pg = (empty_pg 5 [])\<lparr>notifications := [notification_row_of ''a1'' ''{}'' (zero_notification\<lparr>n_ID := ''A1''\<rparr>) 5],
     notification_deliveries := [new_delivery ''a1'' ''r1'' 5]\<rparr>"
  by (simp add: sample_pg_def UpsertNotification_def InsertSiteDelivery_def pg_run_def empty_pg_def
      sql_upsert_notification_def sql_insert_delivery_def sample_server_def zero_notification_def
      mapToJSON_def find_notification_def find_delivery_def sample_lower)

theorem store_integrity_witness:
  "pg_inv sample_pg \<and> map delivery_key (notification_deliveries sample_pg) = [(''a1'', ''r1'')]"
  using store_integrity [OF sample_pg_reachable] by (simp add: sample_pg_eq)

section \<open>Deliveries by key\<close>

lemma find_delivery_iff:
  assumes "pg_inv s"
  shows "find_delivery n u s = Some d \<longleftrightarrow>
           d \<in> set (notification_deliveries s) \<and> dr_notification_id d = n \<and> dr_recipient d = u"
proof
  assume "find_delivery n u s = Some d"
  then show "d \<in> set (notification_deliveries s) \<and> dr_notification_id d = n \<and> dr_recipient d = u"
    by (auto simp: find_delivery_def dest!: find_SomeD)
next
  assume d: "d \<in> set (notification_deliveries s) \<and> dr_notification_id d = n \<and> dr_recipient d = u"
  then obtain d' where f: "find_delivery n u s = Some d'"
    by (cases "find_delivery n u s") (auto simp: find_delivery_def find_None_iff)
  then have "d' \<in> set (notification_deliveries s)" "delivery_key d' = delivery_key d"
    using d by (auto simp: find_delivery_def delivery_key_def dest!: find_SomeD)
  with d assms have "d' = d"
    by (auto simp: pg_inv_def intro: distinct_map_key)
  with f show "find_delivery n u s = Some d" by simp
qed

lemma find_notification_iff_row:
  assumes "pg_inv s"
  shows "find_notification k s = Some r \<longleftrightarrow> r \<in> set (notifications s) \<and> nr_id r = k"
proof
  assume "find_notification k s = Some r"
  then show "r \<in> set (notifications s) \<and> nr_id r = k"
    by (blast dest: find_notification_SomeD)
next
  assume r: "r \<in> set (notifications s) \<and> nr_id r = k"
  then obtain r' where f: "find_notification k s = Some r'"
    by (cases "find_notification k s") (auto simp: find_notification_def find_None_iff)
  note r' = find_notification_SomeD [OF f]
  have "distinct (map nr_id (notifications s))" using assms by (simp add: pg_inv_def)
  then have "r' = r" by (rule distinct_map_key) (use r r' in auto)
  with f show "find_notification k s = Some r" by simp
qed

definition unread_ids :: "string \<Rightarrow> pg \<Rightarrow> string set" where
  "unread_ids u s = {n. \<exists>d. find_delivery n u s = Some d \<and> \<not> dr_read d \<and> \<not> dr_dismissed d}"

lemma distinct_filter_key:
  assumes "pg_inv s"
  shows "distinct (map dr_notification_id (filter (\<lambda>d. dr_recipient d = u \<and> P d) (notification_deliveries s)))"
proof -
  have "distinct (map delivery_key (filter (\<lambda>d. dr_recipient d = u \<and> P d) (notification_deliveries s)))"
    using assms by (simp add: pg_inv_def distinct_map_filter)
  then have d: "distinct (filter (\<lambda>d. dr_recipient d = u \<and> P d) (notification_deliveries s))"
    and i: "inj_on delivery_key (set (filter (\<lambda>d. dr_recipient d = u \<and> P d) (notification_deliveries s)))"
    unfolding distinct_map by blast+
  have "inj_on dr_notification_id (set (filter (\<lambda>d. dr_recipient d = u \<and> P d) (notification_deliveries s)))"
    by (rule inj_onI, rule inj_onD [OF i]) (auto simp: delivery_key_def)
  with d show ?thesis unfolding distinct_map by blast
qed

lemma count_unread_card:
  assumes "pg_inv s"
  shows "length (filter (\<lambda>d. dr_recipient d = u \<and> \<not> dr_dismissed d \<and> \<not> dr_read d)
           (notification_deliveries s)) = card (unread_ids u s)"
proof -
  let ?rows = "filter (\<lambda>d. dr_recipient d = u \<and> \<not> dr_dismissed d \<and> \<not> dr_read d) (notification_deliveries s)"
  have "unread_ids u s = dr_notification_id ` set ?rows"
    by (auto simp: unread_ids_def find_delivery_iff [OF assms] image_iff)
  moreover have "distinct (map dr_notification_id ?rows)"
    by (rule distinct_filter_key [OF assms])
  ultimately show ?thesis
    using distinct_card [of "map dr_notification_id ?rows"] by simp
qed

end
