(* ===== verification/StoreInbox.thy ===== *)
theory StoreInbox
  imports StoreProps
begin

text \<open>
  The inbox contract of the store: what reading, dismissing and counting promise to a caller who
  sees only the flags of his own items, as the locale \<open>inbox_store\<close>, and its interpretation on the
  operations of \<open>Store\<close>; then the pages of \<open>ListInbox\<close> and the effect of a redelivery.
\<close>

section \<open>The contract\<close>

text \<open>
  \<open>flags u n s\<close> is \<open>None\<close> when recipient \<open>u\<close> has no item \<open>n\<close>, otherwise its read and dismissed flags.
  \<open>canon\<close> is the reading of a caller's text as a recipient or an id.
\<close>

locale inbox_store =
  fixes inv :: "'s \<Rightarrow> bool"
    and canon :: "string \<Rightarrow> string option"
    and flags :: "string \<Rightarrow> string \<Rightarrow> 's \<Rightarrow> (bool \<times> bool) option"
    and mark_read :: "string \<Rightarrow> string \<Rightarrow> 's \<Rightarrow> error \<times> 's"
    and dismiss :: "string \<Rightarrow> string \<Rightarrow> 's \<Rightarrow> error \<times> 's"
    and count_unread :: "string \<Rightarrow> 's \<Rightarrow> nat result \<times> 's"
  assumes inv_mark_read: "inv s \<Longrightarrow> inv (snd (mark_read r i s))"
    and inv_dismiss: "inv s \<Longrightarrow> inv (snd (dismiss r i s))"
    and finite_items: "finite {n. flags u n s \<noteq> None}"
    and mark_read_done: "fst (mark_read r i s) = None \<Longrightarrow>
          \<exists>u n rd di. canon r = Some u \<and> canon i = Some n \<and> flags u n s = Some (rd, di)
            \<and> (\<forall>u' n'. flags u' n' (snd (mark_read r i s))
                  = (if u' = u \<and> n' = n then Some (True, di) else flags u' n' s))"
    and mark_read_failed: "fst (mark_read r i s) \<noteq> None \<Longrightarrow> flags u n (snd (mark_read r i s)) = flags u n s"
    and dismiss_done: "fst (dismiss r i s) = None \<Longrightarrow>
          \<exists>u n rd di. canon r = Some u \<and> canon i = Some n \<and> flags u n s = Some (rd, di)
            \<and> (\<forall>u' n'. flags u' n' (snd (dismiss r i s))
                  = (if u' = u \<and> n' = n then Some (rd, True) else flags u' n' s))"
    and dismiss_failed: "fst (dismiss r i s) \<noteq> None \<Longrightarrow> flags u n (snd (dismiss r i s)) = flags u n s"
    and count_unread_value: "inv s \<Longrightarrow> fst (count_unread r s) = Inr k \<Longrightarrow>
          \<exists>u. canon r = Some u \<and> k = card {n. flags u n s = Some (False, False)}"
begin

definition unread :: "string \<Rightarrow> 's \<Rightarrow> string set" where
  "unread u s = {n. flags u n s = Some (False, False)}"

lemma finite_unread [simp]: "finite (unread u s)"
  by (rule finite_subset [OF _ finite_items [of u s]]) (auto simp: unread_def)

lemma unread_mark_read:
  assumes "fst (mark_read r i s) = None" and "canon r = Some u" and "canon i = Some n"
  shows "unread u' (snd (mark_read r i s)) = (if u' = u then unread u s - {n} else unread u' s)"
proof -
  from mark_read_done [OF assms(1)] assms(2,3) obtain rd di where
    f: "\<And>u' n'. flags u' n' (snd (mark_read r i s)) = (if u' = u \<and> n' = n then Some (True, di) else flags u' n' s)"
    by auto
  show ?thesis by (auto simp: unread_def f)
qed

lemma unread_dismiss:
  assumes "fst (dismiss r i s) = None" and "canon r = Some u" and "canon i = Some n"
  shows "unread u' (snd (dismiss r i s)) = (if u' = u then unread u s - {n} else unread u' s)"
proof -
  from dismiss_done [OF assms(1)] assms(2,3) obtain rd di where
    f: "\<And>u' n'. flags u' n' (snd (dismiss r i s)) = (if u' = u \<and> n' = n then Some (rd, True) else flags u' n' s)"
    by auto
  show ?thesis by (auto simp: unread_def f)
qed

lemma unread_failed:
  "fst (mark_read r i s) \<noteq> None \<Longrightarrow> unread u (snd (mark_read r i s)) = unread u s"
  "fst (dismiss r i s) \<noteq> None \<Longrightarrow> unread u (snd (dismiss r i s)) = unread u s"
  by (simp_all add: unread_def mark_read_failed dismiss_failed)

text \<open>Neither operation ever adds an unread item to anyone.\<close>

lemma unread_shrinks:
  "unread u (snd (mark_read r i s)) \<subseteq> unread u s" "unread u (snd (dismiss r i s)) \<subseteq> unread u s"
proof -
  show "unread u (snd (mark_read r i s)) \<subseteq> unread u s"
  proof (cases "fst (mark_read r i s)")
    case None
    then obtain v n where "canon r = Some v" "canon i = Some n" using mark_read_done [OF None] by blast
    then show ?thesis using unread_mark_read [OF None, of v n u] by auto
  qed (simp add: unread_failed)
  show "unread u (snd (dismiss r i s)) \<subseteq> unread u s"
  proof (cases "fst (dismiss r i s)")
    case None
    then obtain v n where "canon r = Some v" "canon i = Some n" using dismiss_done [OF None] by blast
    then show ?thesis using unread_dismiss [OF None, of v n u] by auto
  qed (simp add: unread_failed)
qed

lemma count_is_card: "inv s \<Longrightarrow> fst (count_unread r s) = Inr k \<Longrightarrow> canon r = Some u \<Longrightarrow> k = card (unread u s)"
  using count_unread_value by (fastforce simp: unread_def)

text \<open>Reading an item lowers its owner's count by one if it was unread, and nobody else's.\<close>

lemma count_after_mark_read:
  assumes "inv s" and "fst (mark_read r i s) = None" and "canon r = Some u" and "canon i = Some n"
    and "canon r' = Some u'" and "fst (count_unread r' s) = Inr k"
    and "fst (count_unread r' (snd (mark_read r i s))) = Inr k'"
  shows "if u' = u \<and> flags u n s = Some (False, False) then k = Suc k' else k' = k"
proof -
  have "k = card (unread u' s)" by (rule count_is_card [OF assms(1,6,5)])
  moreover have "k' = card (unread u' (snd (mark_read r i s)))"
    by (rule count_is_card [OF inv_mark_read [OF assms(1)] assms(7,5)])
  ultimately show ?thesis
    using card_Suc_Diff1 [OF finite_unread, of n u s]
    by (auto simp: unread_mark_read [OF assms(2-4)]) (simp_all add: unread_def)
qed

lemma count_after_dismiss:
  assumes "inv s" and "fst (dismiss r i s) = None" and "canon r = Some u" and "canon i = Some n"
    and "canon r' = Some u'" and "fst (count_unread r' s) = Inr k"
    and "fst (count_unread r' (snd (dismiss r i s))) = Inr k'"
  shows "if u' = u \<and> flags u n s = Some (False, False) then k = Suc k' else k' = k"
proof -
  have "k = card (unread u' s)" by (rule count_is_card [OF assms(1,6,5)])
  moreover have "k' = card (unread u' (snd (dismiss r i s)))"
    by (rule count_is_card [OF inv_dismiss [OF assms(1)] assms(7,5)])
  ultimately show ?thesis
    using card_Suc_Diff1 [OF finite_unread, of n u s]
    by (auto simp: unread_dismiss [OF assms(2-4)]) (simp_all add: unread_def)
qed

end

section \<open>The contract holds of the store\<close>

definition pg_flags :: "string \<Rightarrow> string \<Rightarrow> pg \<Rightarrow> (bool \<times> bool) option" where
  "pg_flags u n s = map_option (\<lambda>d. (dr_read d, dr_dismissed d)) (find_delivery n u s)"

lemma pg_flags_faults [simp]: "pg_flags u n (s\<lparr>pg_faults := fs\<rparr>) = pg_flags u n s"
  by (simp add: pg_flags_def find_delivery_def)

lemma find_map_update:
  assumes "\<And>d. dr_notification_id (f d) = dr_notification_id d" and "\<And>d. dr_recipient (f d) = dr_recipient d"
  shows "find (\<lambda>d. dr_notification_id d = n' \<and> dr_recipient d = u')
           (map (\<lambda>d. if dr_recipient d = u \<and> dr_notification_id d = n then f d else d) ds)
       = map_option (\<lambda>d. if u' = u \<and> n' = n then f d else d)
           (find (\<lambda>d. dr_notification_id d = n' \<and> dr_recipient d = u') ds)"
  by (induction ds) (use assms in auto)

lemma find_delivery_filter:
  "filter (\<lambda>d. dr_recipient d = u \<and> dr_notification_id d = n) (notification_deliveries s) = []
     \<longleftrightarrow> find_delivery n u s = None"
  by (auto simp: find_delivery_def find_None_iff filter_empty_conv)

text \<open>An update of deliveries either changes the one row it names or reports that there is none.\<close>

lemma update_deliveries_found:
  assumes "sql_update_deliveries X upd r i s = (Inr k, s')" and "k \<noteq> 0"
    and "\<And>d. delivery_key (upd s d) = delivery_key d"
  obtains u n d where "uuid_cast X r = Some u" "uuid_cast X i = Some n" "find_delivery n u s = Some d"
    "\<And>u' n'. find_delivery n' u' s' = (if u' = u \<and> n' = n then Some (upd s d) else find_delivery n' u' s)"
proof -
  from assms(1) obtain u n where un: "uuid_cast X r = Some u" "uuid_cast X i = Some n"
    by (auto simp: sql_update_deliveries_def split: option.splits)
  have k: "k = length (filter (\<lambda>d. dr_recipient d = u \<and> dr_notification_id d = n) (notification_deliveries s))"
    and s': "s' = s\<lparr>notification_deliveries := map (\<lambda>d. if dr_recipient d = u \<and> dr_notification_id d = n
                then upd s d else d) (notification_deliveries s)\<rparr>"
    using assms(1) un by (auto simp: sql_update_deliveries_def Let_def)
  from k assms(2) obtain d where d: "find_delivery n u s = Some d"
    using find_delivery_filter [of u n s] by (cases "find_delivery n u s") auto
  have keys: "dr_notification_id (upd s d) = dr_notification_id d" "dr_recipient (upd s d) = dr_recipient d" for d
    using assms(3) [of d] by (simp_all add: delivery_key_def)
  have "find_delivery n' u' s' = (if u' = u \<and> n' = n then Some (upd s d) else find_delivery n' u' s)" for u' n'
  proof -
    have "find_delivery n' u' s' = map_option (\<lambda>d. if u' = u \<and> n' = n then upd s d else d) (find_delivery n' u' s)"
      unfolding s' find_delivery_def using find_map_update [of "upd s", OF keys] by simp
    then show ?thesis using d by (cases "find_delivery n' u' s") auto
  qed
  then show thesis using that un d by blast
qed

lemma update_deliveries_missing:
  assumes "fst (sql_update_deliveries X upd r i s) = Inl e \<or> fst (sql_update_deliveries X upd r i s) = Inr 0"
  shows "snd (sql_update_deliveries X upd r i s) = s"
proof (cases "uuid_cast X r = None \<or> uuid_cast X i = None")
  case True
  then show ?thesis by (auto simp: sql_update_deliveries_def split: option.split)
next
  case False
  then obtain u n where un: "uuid_cast X r = Some u" "uuid_cast X i = Some n" by auto
  then have "filter (\<lambda>d. dr_recipient d = u \<and> dr_notification_id d = n) (notification_deliveries s) = []"
    using assms by (simp add: sql_update_deliveries_def Let_def)
  then have "map (\<lambda>d. if dr_recipient d = u \<and> dr_notification_id d = n then upd s d else d)
      (notification_deliveries s) = notification_deliveries s"
    by (intro map_idI) (auto simp: filter_empty_conv)
  then show ?thesis using un by (simp add: sql_update_deliveries_def Let_def)
qed

text \<open>The two updates share their shape: \<open>op\<close> is either of them.\<close>

lemma pg_update_done:
  assumes "pg_run (sql_update_deliveries X upd r i) s = (Inr k, s')" and "k \<noteq> 0"
    and "\<And>s d. delivery_key (upd s d) = delivery_key d"
  obtains u n d t where "uuid_cast X r = Some u" "uuid_cast X i = Some n" "find_delivery n u s = Some d"
    "\<And>u' n'. find_delivery n' u' s' = (if u' = u \<and> n' = n then Some (upd t d) else find_delivery n' u' s)"
proof -
  obtain fs where run: "sql_update_deliveries X upd r i (s\<lparr>pg_faults := fs\<rparr>) = (Inr k, s')"
    using pg_run_Inr [OF assms(1)] by blast
  have ff: "find_delivery n u (s\<lparr>pg_faults := fs\<rparr>) = find_delivery n u s" for n u
    by (simp add: find_delivery_def)
  show thesis
    by (rule update_deliveries_found [OF run assms(2) assms(3)]) (rule that, unfold ff, assumption+)
qed

lemma pg_update_failed:
  assumes "pg_run (sql_update_deliveries X upd r i) s = (x, s')" and "(\<exists>e. x = Inl e) \<or> x = Inr 0"
  shows "find_delivery n u s' = find_delivery n u s"
proof (cases rule: pg_run_cases [of s "sql_update_deliveries X upd r i"])
  case (fault e fs)
  then show ?thesis using assms(1) by (auto simp: find_delivery_def)
next
  case (run fs)
  then have "snd (sql_update_deliveries X upd r i (s\<lparr>pg_faults := fs\<rparr>)) = s\<lparr>pg_faults := fs\<rparr>"
    using assms update_deliveries_missing [of X upd r i "s\<lparr>pg_faults := fs\<rparr>"] by (metis fst_conv)
  with run(1) assms(1) have "s' = s\<lparr>pg_faults := fs\<rparr>" by (metis snd_conv)
  then show ?thesis by (simp add: find_delivery_def)
qed

lemma set_read_flags: "(dr_read (set_read t d), dr_dismissed (set_read t d)) = (True, dr_dismissed d)"
  by (simp add: set_read_def)

lemma set_dismissed_flags: "(dr_read (set_dismissed t d), dr_dismissed (set_dismissed t d)) = (dr_read d, True)"
  by (simp add: set_dismissed_def)

lemma MarkRead_done:
  assumes "fst (MarkRead X r i s) = None"
  obtains u n d t where "uuid_cast X r = Some u" "uuid_cast X i = Some n" "find_delivery n u s = Some d"
    "\<And>u' n'. find_delivery n' u' (snd (MarkRead X r i s))
        = (if u' = u \<and> n' = n then Some (set_read t d) else find_delivery n' u' s)"
proof -
  obtain k s' where run: "pg_run (sql_update_deliveries X set_read r i) s = (Inr k, s')" "k \<noteq> 0"
    using assms by (auto simp: MarkRead_def split: prod.splits sum.splits if_splits)
  then have s': "snd (MarkRead X r i s) = s'" by simp
  show thesis
    by (rule pg_update_done [OF run]) (use that s' in \<open>auto simp: delivery_key_update\<close>)
qed

lemma Dismiss_done:
  assumes "fst (Dismiss X r i s) = None"
  obtains u n d t where "uuid_cast X r = Some u" "uuid_cast X i = Some n" "find_delivery n u s = Some d"
    "\<And>u' n'. find_delivery n' u' (snd (Dismiss X r i s))
        = (if u' = u \<and> n' = n then Some (set_dismissed t d) else find_delivery n' u' s)"
proof -
  obtain k s' where run: "pg_run (sql_update_deliveries X set_dismissed r i) s = (Inr k, s')" "k \<noteq> 0"
    using assms by (auto simp: Dismiss_def split: prod.splits sum.splits if_splits)
  then have s': "snd (Dismiss X r i s) = s'" by simp
  show thesis
    by (rule pg_update_done [OF run]) (use that s' in \<open>auto simp: delivery_key_update\<close>)
qed

lemma MarkRead_flags:
  assumes "fst (MarkRead X r i s) = None"
  shows "\<exists>u n rd di. uuid_cast X r = Some u \<and> uuid_cast X i = Some n \<and> pg_flags u n s = Some (rd, di)
      \<and> (\<forall>u' n'. pg_flags u' n' (snd (MarkRead X r i s))
            = (if u' = u \<and> n' = n then Some (True, di) else pg_flags u' n' s))"
proof -
  from MarkRead_done [OF assms] obtain u n d t where un: "uuid_cast X r = Some u" "uuid_cast X i = Some n"
    and d: "find_delivery n u s = Some d"
    and f: "\<And>u' n'. find_delivery n' u' (snd (MarkRead X r i s))
        = (if u' = u \<and> n' = n then Some (set_read t d) else find_delivery n' u' s)"
    by blast
  let ?rd = "dr_read d" and ?di = "dr_dismissed d"
  have "pg_flags u' n' (snd (MarkRead X r i s))
      = (if u' = u \<and> n' = n then Some (True, ?di) else pg_flags u' n' s)" for u' n'
    unfolding pg_flags_def f by (simp add: set_read_def)
  moreover have "pg_flags u n s = Some (?rd, ?di)" by (simp add: pg_flags_def d)
  ultimately show ?thesis using un by blast
qed

lemma Dismiss_flags:
  assumes "fst (Dismiss X r i s) = None"
  shows "\<exists>u n rd di. uuid_cast X r = Some u \<and> uuid_cast X i = Some n \<and> pg_flags u n s = Some (rd, di)
      \<and> (\<forall>u' n'. pg_flags u' n' (snd (Dismiss X r i s))
            = (if u' = u \<and> n' = n then Some (rd, True) else pg_flags u' n' s))"
proof -
  from Dismiss_done [OF assms] obtain u n d t where un: "uuid_cast X r = Some u" "uuid_cast X i = Some n"
    and d: "find_delivery n u s = Some d"
    and f: "\<And>u' n'. find_delivery n' u' (snd (Dismiss X r i s))
        = (if u' = u \<and> n' = n then Some (set_dismissed t d) else find_delivery n' u' s)"
    by blast
  let ?rd = "dr_read d" and ?di = "dr_dismissed d"
  have "pg_flags u' n' (snd (Dismiss X r i s))
      = (if u' = u \<and> n' = n then Some (?rd, True) else pg_flags u' n' s)" for u' n'
    unfolding pg_flags_def f by (simp add: set_dismissed_def)
  moreover have "pg_flags u n s = Some (?rd, ?di)" by (simp add: pg_flags_def d)
  ultimately show ?thesis using un by blast
qed

lemma MarkRead_failed:
  assumes "fst (MarkRead X r i s) \<noteq> None"
  shows "find_delivery n u (snd (MarkRead X r i s)) = find_delivery n u s"
proof -
  obtain x s' where run: "pg_run (sql_update_deliveries X set_read r i) s = (x, s')" by fastforce
  with assms have "(\<exists>e. x = Inl e) \<or> x = Inr 0"
    by (auto simp: MarkRead_def split: sum.splits if_splits)
  with run show ?thesis using pg_update_failed by simp
qed

lemma Dismiss_failed:
  assumes "fst (Dismiss X r i s) \<noteq> None"
  shows "find_delivery n u (snd (Dismiss X r i s)) = find_delivery n u s"
proof -
  obtain x s' where run: "pg_run (sql_update_deliveries X set_dismissed r i) s = (x, s')" by fastforce
  with assms have "(\<exists>e. x = Inl e) \<or> x = Inr 0"
    by (auto simp: Dismiss_def split: sum.splits if_splits)
  with run show ?thesis using pg_update_failed by simp
qed

lemma unread_ids_flags: "unread_ids u s = {n. pg_flags u n s = Some (False, False)}"
  by (auto simp: unread_ids_def pg_flags_def)

lemma CountUnread_value:
  assumes "pg_inv s" and "fst (CountUnread X r s) = Inr k"
  shows "\<exists>u. uuid_cast X r = Some u \<and> k = card {n. pg_flags u n s = Some (False, False)}"
proof -
  obtain s' where "pg_run (sql_count_unread X r) s = (Inr k, s')"
    using assms(2) by (auto simp: CountUnread_def split: prod.splits sum.splits)
  then obtain fs where run: "sql_count_unread X r (s\<lparr>pg_faults := fs\<rparr>) = (Inr k, s')"
    by (rule pg_run_Inr)
  then obtain u where u: "uuid_cast X r = Some u"
    by (auto simp: sql_count_unread_def split: option.splits)
  with run have "k = card (unread_ids u s)"
    by (auto simp: sql_count_unread_def count_unread_card [OF assms(1)])
  with u show ?thesis by (simp add: unread_ids_flags)
qed

lemma finite_pg_flags: "finite {n. pg_flags u n s \<noteq> None}"
proof (rule finite_subset)
  show "{n. pg_flags u n s \<noteq> None} \<subseteq> dr_notification_id ` set (notification_deliveries s)"
    by (auto simp: pg_flags_def find_delivery_def dest!: find_SomeD)
qed simp

interpretation pg_inbox: inbox_store pg_inv "uuid_cast X" pg_flags "MarkRead X" "Dismiss X" "CountUnread X" for X
proof
  show "finite {n. pg_flags u n s \<noteq> None}" for u s
    by (rule finite_pg_flags)
  show "pg_inv s \<Longrightarrow> pg_inv (snd (MarkRead X r i s))" for s r i
    by (rule pg_inv_operations)
  show "pg_inv s \<Longrightarrow> pg_inv (snd (Dismiss X r i s))" for s r i
    by (rule pg_inv_operations)
  show "fst (MarkRead X r i s) \<noteq> None \<Longrightarrow> pg_flags u n (snd (MarkRead X r i s)) = pg_flags u n s" for r i s u n
    unfolding pg_flags_def by (subst MarkRead_failed, assumption, rule refl)
  show "fst (Dismiss X r i s) \<noteq> None \<Longrightarrow> pg_flags u n (snd (Dismiss X r i s)) = pg_flags u n s" for r i s u n
    unfolding pg_flags_def by (subst Dismiss_failed, assumption, rule refl)
  show "pg_inv s \<Longrightarrow> fst (CountUnread X r s) = Inr k \<Longrightarrow>
      \<exists>u. uuid_cast X r = Some u \<and> k = card {n. pg_flags u n s = Some (False, False)}" for s r k
    by (rule CountUnread_value)
qed (rule MarkRead_flags Dismiss_flags, assumption)+

lemma CountUnread_rows:
  assumes "fst (CountUnread X r s) = Inr k" and "uuid_cast X r = Some u"
  shows "k = length (filter (\<lambda>d. dr_recipient d = u \<and> \<not> dr_dismissed d \<and> \<not> dr_read d) (notification_deliveries s))"
proof -
  obtain s' where "pg_run (sql_count_unread X r) s = (Inr k, s')"
    using assms(1) by (auto simp: CountUnread_def split: prod.splits sum.splits)
  then obtain fs where "sql_count_unread X r (s\<lparr>pg_faults := fs\<rparr>) = (Inr k, s')" by (rule pg_run_Inr)
  then show ?thesis using assms(2) by (auto simp: sql_count_unread_def)
qed

lemma sample_inbox:
  "pg_inv sample_pg" "uuid_cast sample_server ''R1'' = Some ''r1''" "uuid_cast sample_server ''A1'' = Some ''a1''"
  "fst (MarkRead sample_server ''R1'' ''A1'' sample_pg) = None"
  "fst (CountUnread sample_server ''R1'' sample_pg) = Inr 1"
  "fst (CountUnread sample_server ''R1'' (snd (MarkRead sample_server ''R1'' ''A1'' sample_pg))) = Inr 0"
  "pg_flags ''r1'' ''a1'' sample_pg = Some (False, False)"
  by (simp_all add: sample_pg_eq sample_server_def sample_lower empty_pg_def pg_run_def MarkRead_def CountUnread_def
      sql_update_deliveries_def sql_count_unread_def Let_def new_delivery_def set_read_def pg_flags_def
      find_delivery_def pg_inv_def read_time_ok_def notification_row_of_def)

lemma MarkRead_rows:
  assumes "pg_faults s = []" and "uuid_cast X r = Some u" and "uuid_cast X i = Some n"
  shows "MarkRead X r i s = (if find_delivery n u s = None then Some ErrNoRows else None,
     s\<lparr>notification_deliveries := map (\<lambda>d. if dr_recipient d = u \<and> dr_notification_id d = n
        then set_read s d else d) (notification_deliveries s)\<rparr>)"
  using find_delivery_filter [of u n s]
  by (simp add: MarkRead_def pg_run_no_faults [OF assms(1)] sql_update_deliveries_def assms(2,3) Let_def)

lemma MarkRead_missing:
  assumes "pg_faults s = []" and "uuid_cast X r = Some u" and "uuid_cast X i = Some n"
    and "find_delivery n u s = None"
  shows "MarkRead X r i s = (Some ErrNoRows, s)"
proof -
  have "map (\<lambda>d. if dr_recipient d = u \<and> dr_notification_id d = n then set_read s d else d)
      (notification_deliveries s) = notification_deliveries s"
    using find_delivery_filter [of u n s] assms(4) by (intro map_idI) (auto simp: filter_empty_conv)
  then show ?thesis using assms by (simp add: MarkRead_rows)
qed

lemma MarkRead_found:
  assumes "pg_faults s = []" and "uuid_cast X r = Some u" and "uuid_cast X i = Some n"
    and "find_delivery n u s = Some d"
  shows "find_delivery n' u' (snd (MarkRead X r i s))
      = (if u' = u \<and> n' = n then Some (set_read s d) else find_delivery n' u' s)" (is ?one)
    and "notification_deliveries (snd (MarkRead X r i ((snd (MarkRead X r i s))\<lparr>pg_now := later\<rparr>)))
      = notification_deliveries (snd (MarkRead X r i s))" (is ?two)
proof -
  note rows = MarkRead_rows [OF assms(1-3)]
  have keys: "dr_notification_id (set_read s d) = dr_notification_id d"
      "dr_recipient (set_read s d) = dr_recipient d" for d
    by (simp_all add: set_read_def)
  show ?one
    unfolding rows find_delivery_def using find_map_update [of "set_read s", OF keys] assms(4)
    by (auto simp: find_delivery_def option.map_ident)
  have twice: "set_read t (set_read s d) = set_read s d" for t d
    by (simp add: set_read_def split: option.split)
  show ?two
    unfolding rows by (subst MarkRead_rows [OF _ assms(2,3)]) (auto simp: assms(1) keys twice)
qed

text \<open>
  \<open>MarkRead\<close> on each branch, the server answering: a text that is no uuid is an error of the
  statement; an item the recipient does not have gives \<open>ErrNoRows\<close> and changes nothing; otherwise
  it returns nil, the item is read with its first read time kept, no other item changes, and a
  later second call changes no item at all.
\<close>

theorem mark_read_branches:
  assumes "pg_faults s = []"
  shows "case (uuid_cast X r, uuid_cast X i) of
      (Some u, Some n) \<Rightarrow>
        (case find_delivery n u s of
           None \<Rightarrow> MarkRead X r i s = (Some ErrNoRows, s)
         | Some d \<Rightarrow>
             (let s' = snd (MarkRead X r i s) in
              fst (MarkRead X r i s) = None
              \<and> (\<forall>u' n'. find_delivery n' u' s' = (if u' = u \<and> n' = n then Some (set_read s d) else find_delivery n' u' s))
              \<and> notification_deliveries (snd (MarkRead X r i (s'\<lparr>pg_now := later\<rparr>))) = notification_deliveries s'))
    | _ \<Rightarrow> MarkRead X r i s = (Some (Wrapf ''mark read: %w'' [] (sql_error ''invalid input syntax for type uuid'')), s)"
proof (cases "uuid_cast X r = None \<or> uuid_cast X i = None")
  case True
  then show ?thesis
    by (auto simp: MarkRead_def pg_run_no_faults [OF assms] sql_update_deliveries_def split: option.split)
next
  case False
  then obtain u n where un: "uuid_cast X r = Some u" "uuid_cast X i = Some n" by auto
  show ?thesis
  proof (cases "find_delivery n u s")
    case None
    then show ?thesis using MarkRead_missing [OF assms un] by (simp add: un)
  next
    case (Some d)
    then have "fst (MarkRead X r i s) = None" using MarkRead_rows [OF assms un] by simp
    then show ?thesis
      using MarkRead_found [OF assms un Some] by (simp only: un Some Let_def prod.case option.case simp_thms)
  qed
qed

theorem mark_read_branches_witness:
  "MarkRead sample_server ''R1'' ''R1'' sample_pg = (Some ErrNoRows, sample_pg)"
proof -
  have "pg_faults sample_pg = []" "find_delivery ''r1'' ''r1'' sample_pg = None"
    by (simp_all add: sample_pg_eq empty_pg_def find_delivery_def new_delivery_def)
  then show ?thesis
    using mark_read_branches [of sample_pg sample_server "''R1''" "''R1''"] by (simp add: sample_inbox(2))
qed

end
