(* ===== verification/StoreQueries.thy ===== *)
theory StoreQueries
  imports StoreInbox
begin

text \<open>
  The listing of the inbox and its pages, the insertion of a delivery and of a notification (once
  and again), the preferences of a subject with their defaults, and the push subscriptions.
\<close>

section \<open>The inbox listing\<close>

definition visible :: "string \<Rightarrow> pg \<Rightarrow> (notification_row \<times> delivery_row) set" where
  "visible u s = {(n, d). d \<in> set (notification_deliveries s) \<and> dr_recipient d = u \<and> \<not> dr_dismissed d
     \<and> n \<in> set (notifications s) \<and> nr_id n = dr_notification_id d}"

definition newer :: "notification_row \<times> delivery_row \<Rightarrow> notification_row \<times> delivery_row \<Rightarrow> bool" where
  "newer a b \<longleftrightarrow> inbox_key b < inbox_key a"

lemma set_ordered_inbox: "set (ordered_inbox u s) = visible u s"
  by (auto simp: ordered_inbox_def inbox_rows_def visible_def)

lemma join_single:
  assumes "distinct (map nr_id ns)" and "dr_notification_id d \<in> nr_id ` set ns"
  shows "\<exists>n. nr_id n = dr_notification_id d
     \<and> concat (map (\<lambda>n. if nr_id n = dr_notification_id d then [(n, d)] else []) ns) = [(n, d)]"
proof -
  have "concat (map (\<lambda>n. if nr_id n = dr_notification_id d then [(n, d)] else []) ns)
      = map (\<lambda>n. (n, d)) (filter (\<lambda>n. nr_id n = dr_notification_id d) ns)"
    by (induction ns) auto
  moreover from assms(2) obtain n where "n \<in> set ns" "nr_id n = dr_notification_id d" by auto
  ultimately show ?thesis using filter_eq_single [OF assms(1)] by fastforce
qed

lemma join_ids:
  assumes "distinct (map nr_id ns)" and "dr_notification_id ` set ds \<subseteq> nr_id ` set ns"
  shows "map (\<lambda>r. nr_id (fst r)) [(n, d). d \<leftarrow> ds, P d, n \<leftarrow> ns, nr_id n = dr_notification_id d]
       = map dr_notification_id (filter P ds)"
  using assms(2)
proof (induction ds)
  case (Cons d ds)
  from Cons.prems obtain n where "nr_id n = dr_notification_id d"
    "concat (map (\<lambda>n. if nr_id n = dr_notification_id d then [(n, d)] else []) ns) = [(n, d)]"
    using join_single [OF assms(1), of d] by auto
  then show ?case using Cons by simp
qed simp

lemma inbox_row_ids:
  assumes "pg_inv s"
  shows "map (\<lambda>r. nr_id (fst r)) (inbox_rows u s)
       = map dr_notification_id (filter (\<lambda>d. dr_recipient d = u \<and> \<not> dr_dismissed d) (notification_deliveries s))"
  unfolding inbox_rows_def using assms by (intro join_ids) (auto simp: pg_inv_def)

lemma distinct_inbox_ids: "pg_inv s \<Longrightarrow> distinct (map (\<lambda>r. nr_id (fst r)) (inbox_rows u s))"
  by (simp add: inbox_row_ids distinct_filter_key)

lemma join_rows:
  assumes "distinct (map nr_id ns)" and "dr_notification_id ` set ds \<subseteq> nr_id ` set ns"
  shows "map snd [(n, d). d \<leftarrow> ds, P d, n \<leftarrow> ns, nr_id n = dr_notification_id d] = filter P ds"
  using assms(2)
proof (induction ds)
  case (Cons d ds)
  from Cons.prems obtain n where
    "concat (map (\<lambda>n. if nr_id n = dr_notification_id d then [(n, d)] else []) ns) = [(n, d)]"
    using join_single [OF assms(1), of d] by auto
  then show ?case using Cons by simp
qed simp

lemma inbox_row_deliveries:
  assumes "pg_inv s"
  shows "map snd (inbox_rows u s)
       = filter (\<lambda>d. dr_recipient d = u \<and> \<not> dr_dismissed d) (notification_deliveries s)"
  unfolding inbox_rows_def using assms by (intro join_rows) (auto simp: pg_inv_def)

lemma sorted_ordered_inbox:
  assumes "pg_inv s"
  shows "sorted_wrt newer (ordered_inbox u s)" and "distinct (ordered_inbox u s)"
proof -
  let ?xs = "sort_key inbox_key (inbox_rows u s)"
  have "mset (map (\<lambda>r. nr_id (fst r)) ?xs) = mset (map (\<lambda>r. nr_id (fst r)) (inbox_rows u s))" by simp
  then have d: "distinct (map (\<lambda>r. nr_id (fst r)) ?xs)"
    using distinct_inbox_ids [OF assms] mset_eq_imp_distinct_iff by blast
  then have "distinct (map inbox_key ?xs)"
    by (auto simp: distinct_conv_nth inbox_key_def)
  moreover have "sorted (map inbox_key ?xs)" by simp
  ultimately have "sorted_wrt (<) (map inbox_key ?xs)" by (simp only: strict_sorted_iff)
  then show "sorted_wrt newer (ordered_inbox u s)"
    by (simp add: ordered_inbox_def sorted_wrt_rev sorted_wrt_map newer_def)
  show "distinct (ordered_inbox u s)"
    using d by (simp add: ordered_inbox_def distinct_map)
qed

section \<open>The unread count\<close>

lemma CountUnread_visible:
  assumes "pg_inv s" and "fst (CountUnread X r s) = Inr k" and "uuid_cast X r = Some u"
  shows "k = card {nd \<in> visible u s. \<not> dr_read (snd nd)}"
proof -
  have "distinct (inbox_rows u s)"
    using distinct_inbox_ids [OF assms(1), of u] by (simp add: distinct_map)
  then have "card (set (filter (\<lambda>nd. \<not> dr_read (snd nd)) (inbox_rows u s)))
      = length (filter (\<lambda>nd. \<not> dr_read (snd nd)) (inbox_rows u s))"
    by (intro distinct_card distinct_filter)
  also have "\<dots> = length (filter (\<lambda>d. \<not> dr_read d) (map snd (inbox_rows u s)))"
    by (simp add: filter_map o_def)
  also have "\<dots> = k"
    unfolding inbox_row_deliveries [OF assms(1)] filter_filter CountUnread_rows [OF assms(2,3)]
    by (intro arg_cong [of _ _ length] filter_cong) auto
  finally show ?thesis by (simp add: set_ordered_inbox [symmetric] ordered_inbox_def)
qed

text \<open>
  C27: the unread count is the number of the user's visible items that are not read, and it follows his
  actions: a successful \<open>MarkRead\<close> or \<open>Dismiss\<close> of an item by its recipient lowers his count by
  exactly one if the item was neither read nor dismissed and leaves it otherwise, and leaves
  the count of every other recipient.
\<close>

theorem unread_count_follows:
  assumes "pg_inv s" and "op = MarkRead X \<or> op = Dismiss X"
    and "fst (op r i s) = None" and "uuid_cast X r = Some u" and "uuid_cast X i = Some n"
    and "uuid_cast X r' = Some u'" and "fst (CountUnread X r' s) = Inr k"
    and "fst (CountUnread X r' (snd (op r i s))) = Inr k'"
  shows "k = card {nd \<in> visible u' s. \<not> dr_read (snd nd)}
     \<and> k' = card {nd \<in> visible u' (snd (op r i s)). \<not> dr_read (snd nd)}
     \<and> (if u' = u \<and> pg_flags u n s = Some (False, False) then k = Suc k' else k' = k)"
proof (intro conjI)
  show "k = card {nd \<in> visible u' s. \<not> dr_read (snd nd)}"
    by (rule CountUnread_visible [OF assms(1,7,6)])
  have "pg_inv (snd (op r i s))"
    using assms(2) pg_inbox.inv_mark_read [OF assms(1)] pg_inbox.inv_dismiss [OF assms(1)] by auto
  then show "k' = card {nd \<in> visible u' (snd (op r i s)). \<not> dr_read (snd nd)}"
    by (rule CountUnread_visible [OF _ assms(8,6)])
  show "if u' = u \<and> pg_flags u n s = Some (False, False) then k = Suc k' else k' = k"
    using assms(2)
  proof
    assume op: "op = MarkRead X"
    show ?thesis by (rule pg_inbox.count_after_mark_read) (use assms op in \<open>simp_all only: op\<close>)
  next
    assume op: "op = Dismiss X"
    show ?thesis by (rule pg_inbox.count_after_dismiss) (use assms op in \<open>simp_all only: op\<close>)
  qed
qed

theorem unread_count_follows_witness:
  "fst (CountUnread sample_server ''R1'' sample_pg) = Inr 1
   \<and> card {nd \<in> visible ''r1'' sample_pg. \<not> dr_read (snd nd)} = 1
   \<and> fst (CountUnread sample_server ''R1'' (snd (MarkRead sample_server ''R1'' ''A1'' sample_pg))) = Inr 0"
  using unread_count_follows [OF sample_inbox(1) disjI1 [OF refl] sample_inbox(4,2,3,2,5,6)] sample_inbox(5-7)
  by simp

definition scan_rows :: "(notification_row \<times> delivery_row) list \<Rightarrow> delivery list" where
  "scan_rows rows = map (\<lambda>(n, d). scanDelivery n d) rows"

lemma ListInbox_rows:
  assumes "pg_faults s = []" and "uuid_cast X r = Some u"
  shows "ListInbox X r limit offset s =
    (Inr (scan_rows (take (nat (if limit \<le> 0 \<or> limit > 100 then 50 else limit))
       (drop (nat offset) (ordered_inbox u s)))), s)"
  by (simp add: ListInbox_def pg_run_no_faults [OF assms(1)] sql_list_inbox_def assms(2) scan_rows_def)

text \<open>
  A page of the inbox: for every limit and offset the caller sends, the server answering, at
  most 100 items, all of them the recipient's own undismissed deliveries joined with their
  notifications, no item twice, newest first (ties by id), and the tables are unchanged.
\<close>

theorem inbox_page:
  assumes "pg_inv s" and "pg_faults s = []" and "uuid_cast X r = Some u"
  shows "\<exists>rows. ListInbox X r limit offset s = (Inr (scan_rows rows), s) \<and> length rows \<le> 100
    \<and> set rows \<subseteq> visible u s \<and> distinct rows \<and> sorted_wrt newer rows"
proof -
  let ?n = "nat (if limit \<le> 0 \<or> limit > 100 then 50 else limit)"
  let ?rows = "take ?n (drop (nat offset) (ordered_inbox u s))"
  have "set ?rows \<subseteq> visible u s"
    using set_take_subset set_drop_subset by (fastforce simp: set_ordered_inbox [symmetric])
  moreover have "?n \<le> 100" by auto
  then have "length ?rows \<le> 100" by (rule order_trans [rotated]) simp
  moreover have "distinct ?rows" "sorted_wrt newer ?rows"
    using sorted_ordered_inbox [OF assms(1)] by (simp_all add: sorted_wrt_take sorted_wrt_drop)
  ultimately show ?thesis
    using ListInbox_rows [OF assms(2,3)] by blast
qed

lemma pages_tile: "concat (map (\<lambda>i. take l (drop (i * l) xs)) [0..<m]) = take (m * l) xs"
  by (induction m) (simp_all add: page_concat add.commute)

text \<open>
  C28: the pages tile the inbox: for a page size the handler accepts (1 to 100), the pages at offsets
  0, l, 2l, ... put together are a list of exactly the visible items, each once, newest first,
  as soon as there are enough pages, nothing having changed in between.
\<close>

theorem inbox_pages_tile:
  assumes "pg_inv s" and "pg_faults s = []" and "uuid_cast X r = Some u"
    and "0 < l" and "l \<le> 100" and "card (visible u s) \<le> m * l"
  shows "\<exists>rows. map (\<lambda>i. fst (ListInbox X r (int l) (int (i * l)) s)) [0..<m]
        = map (\<lambda>i. Inr (scan_rows (take l (drop (i * l) rows)))) [0..<m]
      \<and> concat (map (\<lambda>i. take l (drop (i * l) rows)) [0..<m]) = rows
      \<and> set rows = visible u s \<and> distinct rows \<and> sorted_wrt newer rows"
proof -
  have "length (ordered_inbox u s) \<le> m * l"
    using assms(6) distinct_card [OF sorted_ordered_inbox(2) [OF assms(1)]] by (simp add: set_ordered_inbox)
  moreover have "fst (ListInbox X r (int l) (int (i * l)) s)
      = Inr (scan_rows (take l (drop (i * l) (ordered_inbox u s))))" for i
    using assms(4,5) by (simp add: ListInbox_rows [OF assms(2,3)] nat_mult_distrib)
  ultimately show ?thesis
    using sorted_ordered_inbox [OF assms(1)] set_ordered_inbox [of u s]
    by (intro exI [of _ "ordered_inbox u s"]) (simp add: pages_tile)
qed

lemma sample_visible: "pg_faults sample_pg = []" "card (visible ''r1'' sample_pg) = 1"
proof -
  show "pg_faults sample_pg = []" by (simp add: sample_pg_eq empty_pg_def)
  have "visible ''r1'' sample_pg =
     {(notification_row_of ''a1'' ''{}'' (zero_notification\<lparr>n_ID := ''A1''\<rparr>) 5, new_delivery ''a1'' ''r1'' 5)}"
    by (auto simp: visible_def sample_pg_eq empty_pg_def) (simp add: new_delivery_def)
  then show "card (visible ''r1'' sample_pg) = 1" by simp
qed

theorem inbox_page_witness:
  "\<exists>rows. ListInbox sample_server ''R1'' 20 0 sample_pg = (Inr (scan_rows rows), sample_pg) \<and> length rows \<le> 100"
  using inbox_page [OF sample_inbox(1) sample_visible(1) sample_inbox(2)] by blast

theorem inbox_pages_tile_witness:
  "\<exists>rows. set rows = visible ''r1'' sample_pg \<and> distinct rows
    \<and> map (\<lambda>i. fst (ListInbox sample_server ''R1'' (int 20) (int (i * 20)) sample_pg)) [0..<2]
        = map (\<lambda>i. Inr (scan_rows (take 20 (drop (i * 20) rows)))) [0..<2]"
  using inbox_pages_tile [OF sample_inbox(1) sample_visible(1) sample_inbox(2), of 20 2] sample_visible(2)
  by auto

section \<open>Storing a notification and a delivery\<close>

lemma find_notification_faults [simp]: "find_notification k (s\<lparr>pg_faults := fs\<rparr>) = find_notification k s"
  by (simp add: find_notification_def)

lemma find_delivery_faults [simp]: "find_delivery k u (s\<lparr>pg_faults := fs\<rparr>) = find_delivery k u s"
  by (simp add: find_delivery_def)

lemma find_notification_upsert:
  "find (\<lambda>r. nr_id r = k') (upsert_row (\<lambda>r. nr_id r = k) (notification_row_of k md n t0)
      (\<lambda>r. notification_row_of k md n (nr_created_at r)) rows)
   = (if k' = k then Some (notification_row_of k md n
        (case find (\<lambda>r. nr_id r = k) rows of Some r \<Rightarrow> nr_created_at r | None \<Rightarrow> t0))
      else find (\<lambda>r. nr_id r = k') rows)"
proof (cases "k' = k")
  case True
  then show ?thesis by (subst True, subst find_upsert_row_same) (auto split: option.split)
next
  case False
  then show ?thesis by (subst find_upsert_row_other) auto
qed

text \<open>
  Storing a notification: when \<open>UpsertNotification\<close> returns nil, the caller's notification has
  been given the canonical id and the creation time of the stored row, the row under that id
  holds its fields, the row of a notification stored before under the id keeps its creation
  time, and no other notification and no delivery changes.
\<close>

theorem upsert_notification_stores:
  assumes "fst (UpsertNotification X (Some n) s) = (None, Some n')"
  shows "\<exists>k md s'. snd (UpsertNotification X (Some n) s) = s'
     \<and> (n_ID n \<noteq> [] \<longrightarrow> uuid_cast X (n_ID n) = Some k) \<and> jsonb X (mapToJSON (n_Metadata n)) = Some md
     \<and> n' = n\<lparr>n_ID := k, n_CreatedAt := (case find_notification k s of Some r \<Rightarrow> nr_created_at r | None \<Rightarrow> pg_now s)\<rparr>
     \<and> find_notification k s' = Some (notification_row_of k md n (n_CreatedAt n'))
     \<and> (\<forall>k'. k' \<noteq> k \<longrightarrow> find_notification k' s' = find_notification k' s)
     \<and> notification_deliveries s' = notification_deliveries s"
proof -
  obtain k t s' where run: "pg_run (sql_upsert_notification X n) s = (Inr (k, t), s')"
    and n': "n' = n\<lparr>n_ID := k, n_CreatedAt := t\<rparr>"
    using assms by (auto simp: UpsertNotification_def split: prod.splits sum.splits)
  obtain fs where sql: "sql_upsert_notification X n (s\<lparr>pg_faults := fs\<rparr>) = (Inr (k, t), s')"
    using pg_run_Inr [OF run] by blast
  then obtain md where md: "jsonb X (mapToJSON (n_Metadata n)) = Some md"
    by (auto simp: sql_upsert_notification_def split: option.splits if_splits)
  have t: "t = (case find_notification k s of Some r \<Rightarrow> nr_created_at r | None \<Rightarrow> pg_now s)"
    and rows: "notifications s' = upsert_row (\<lambda>r. nr_id r = k) (notification_row_of k md n (pg_now s))
        (\<lambda>r. notification_row_of k md n (nr_created_at r)) (notifications s)"
    and dels: "notification_deliveries s' = notification_deliveries s"
    and k: "n_ID n \<noteq> [] \<longrightarrow> uuid_cast X (n_ID n) = Some k"
    using sql md by (auto simp: sql_upsert_notification_def split: option.splits if_splits)
  have "find_notification k' s' = (if k' = k then Some (notification_row_of k md n t) else find_notification k' s)" for k'
    unfolding find_notification_def rows find_notification_upsert t by (simp add: find_notification_def)
  moreover have "snd (UpsertNotification X (Some n) s) = s'" by (simp add: run)
  ultimately show ?thesis using n' md dels k t
    by (intro exI [of _ k] exI [of _ md] exI [of _ s']) simp
qed

lemma InsertSiteDelivery_rows:
  assumes "fst (InsertSiteDelivery X r (Some n) s) = Inr item"
  shows "\<exists>k u. uuid_cast X (n_ID n) = Some k \<and> uuid_cast X r = Some u \<and> find_notification k s \<noteq> None
     \<and> (case find_delivery k u s of
          None \<Rightarrow> notification_deliveries (snd (InsertSiteDelivery X r (Some n) s))
                    = notification_deliveries s @ [new_delivery k u (pg_now s)]
                  \<and> \<not> d_Read item \<and> \<not> d_Dismissed item \<and> d_ReadAt item = None
        | Some d \<Rightarrow> notification_deliveries (snd (InsertSiteDelivery X r (Some n) s)) = notification_deliveries s
                  \<and> d_Read item = dr_read d \<and> d_Dismissed item = dr_dismissed d \<and> d_ReadAt item = dr_read_at d)
     \<and> notifications (snd (InsertSiteDelivery X r (Some n) s)) = notifications s"
proof -
  obtain row s' where run: "pg_run (sql_insert_delivery X (n_ID n) r) s = (Inr row, s')"
    and item: "d_Read item = dr_read row" "d_Dismissed item = dr_dismissed row" "d_ReadAt item = dr_read_at row"
    using assms by (auto simp: InsertSiteDelivery_def split: prod.splits sum.splits)
  obtain fs where sql: "sql_insert_delivery X (n_ID n) r (s\<lparr>pg_faults := fs\<rparr>) = (Inr row, s')"
    using pg_run_Inr [OF run] by blast
  then obtain k u where ku: "uuid_cast X (n_ID n) = Some k" "uuid_cast X r = Some u" "find_notification k s \<noteq> None"
    by (auto simp: sql_insert_delivery_def split: option.splits if_splits)
  have row: "row = (case find_delivery k u s of Some d \<Rightarrow> d | None \<Rightarrow> new_delivery k u (pg_now s))"
    and rows: "notification_deliveries s' = (if find_delivery k u s = None
        then notification_deliveries s @ [new_delivery k u (pg_now s)] else notification_deliveries s)"
    and ns: "notifications s' = notifications s"
    using sql ku insert_delivery_rows [of k u _ "s\<lparr>pg_faults := fs\<rparr>"]
    by (auto simp: sql_insert_delivery_def split: option.splits)
  have "snd (InsertSiteDelivery X r (Some n) s) = s'" by (simp add: run)
  then show ?thesis
    using ku row rows item ns by (intro exI [of _ k] exI [of _ u]) (auto simp: new_delivery_def split: option.split)
qed

lemma sample_upsert:
  "fst (UpsertNotification sample_server (Some (zero_notification\<lparr>n_ID := ''A1''\<rparr>)) (sample_pg\<lparr>pg_now := 9\<rparr>))
     = (None, Some (zero_notification\<lparr>n_ID := ''a1'', n_CreatedAt := 5\<rparr>))"
  by (simp add: UpsertNotification_def pg_run_def sample_pg_eq empty_pg_def notification_row_of_def
      sql_upsert_notification_def sample_server_def zero_notification_def mapToJSON_def find_notification_def
      sample_lower)

theorem upsert_notification_stores_witness:
  "\<exists>s'. snd (UpsertNotification sample_server (Some (zero_notification\<lparr>n_ID := ''A1''\<rparr>)) (sample_pg\<lparr>pg_now := 9\<rparr>)) = s'
     \<and> notification_deliveries s' = notification_deliveries sample_pg"
  using upsert_notification_stores [OF sample_upsert] by auto

lemma sample_redelivery:
  "\<exists>item. fst (InsertSiteDelivery sample_server ''R1'' (Some (zero_notification\<lparr>n_ID := ''A1''\<rparr>)) sample_pg) = Inr item"
  by (simp add: InsertSiteDelivery_def pg_run_def sample_pg_eq empty_pg_def notification_row_of_def new_delivery_def
      sql_insert_delivery_def sample_server_def zero_notification_def find_notification_def find_delivery_def
      sample_lower)

section \<open>Preferences\<close>

lemma sort_key_find:
  assumes "distinct (map f xs)"
  shows "find (\<lambda>x. f x = k) (sort_key f xs) = find (\<lambda>x. f x = k) xs"
proof -
  have d: "distinct (map f (sort_key f xs))"
    using assms by (metis mset_eq_imp_distinct_iff mset_map mset_sort)
  have "find (\<lambda>x. f x = k) ys = Some x \<longleftrightarrow> x \<in> set ys \<and> f x = k" if "distinct (map f ys)" for ys x
    using that by (induction ys) auto
  then show ?thesis
    using d assms by (metis (no_types, lifting) not_None_eq set_sort)
qed

lemma distinct_channels:
  assumes "pg_inv s"
  shows "distinct (map pr_channel (filter (\<lambda>r. pr_subject r = u) (notification_preferences s)))"
proof -
  have "distinct (map preference_key (filter (\<lambda>r. pr_subject r = u) (notification_preferences s)))"
    using assms by (simp add: pg_inv_def distinct_map_filter)
  then show ?thesis by (auto simp: distinct_conv_nth preference_key_def in_set_conv_nth)
      (metis (mono_tags, lifting) mem_Collect_eq nth_mem set_filter)
qed

definition stored_preference :: "string \<Rightarrow> Channel \<Rightarrow> pg \<Rightarrow> preference_row option" where
  "stored_preference u c s = find (\<lambda>r. pr_subject r = u \<and> pr_channel r = c) (notification_preferences s)"

lemma GetPreferences_rows:
  assumes "pg_faults s = []" and "uuid_cast X subject = Some u"
  shows "GetPreferences X subject s = (Inr (map (scan_preference subject)
     (sort_key pr_channel (filter (\<lambda>r. pr_subject r = u) (notification_preferences s)))), s)"
  by (simp add: GetPreferences_def pg_run_no_faults [OF assms(1)] sql_get_preferences_def assms(2))

lemma find_map_scan:
  "find (\<lambda>q. p_Channel q = c) (map (scan_preference subject) rows)
     = map_option (scan_preference subject) (find (\<lambda>r. pr_channel r = c) rows)"
  by (induction rows) (auto simp: scan_preference_def)

lemma find_filter: "find P (filter Q xs) = find (\<lambda>x. Q x \<and> P x) xs"
  by (induction xs) auto

lemma GetPreferences_find:
  assumes "pg_inv s" and "pg_faults s = []" and "uuid_cast X subject = Some u"
  obtains prefs where "GetPreferences X subject s = (Inr prefs, s)" "sorted (map p_Channel prefs)"
    "distinct (map p_Channel prefs)"
    "\<And>c. find (\<lambda>q. p_Channel q = c) prefs = map_option (scan_preference subject) (stored_preference u c s)"
proof -
  let ?rows = "filter (\<lambda>r. pr_subject r = u) (notification_preferences s)"
  let ?prefs = "map (scan_preference subject) (sort_key pr_channel ?rows)"
  have ch: "map p_Channel ?prefs = map pr_channel (sort_key pr_channel ?rows)"
    by (simp add: scan_preference_def)
  have "mset (map pr_channel (sort_key pr_channel ?rows)) = mset (map pr_channel ?rows)" by simp
  then have "distinct (map p_Channel ?prefs)"
    unfolding ch using distinct_channels [OF assms(1)] mset_eq_imp_distinct_iff by blast
  moreover have "sorted (map p_Channel ?prefs)" unfolding ch by simp
  moreover have "find (\<lambda>q. p_Channel q = c) ?prefs = map_option (scan_preference subject) (stored_preference u c s)" for c
    unfolding find_map_scan sort_key_find [OF distinct_channels [OF assms(1)]] find_filter stored_preference_def ..
  ultimately show thesis using that GetPreferences_rows [OF assms(2,3)] by blast
qed

lemma stored_preference_upsert:
  assumes "pg_faults s = []" and "uuid_cast X subject = Some u" and "jsonb X (rawJSON (p_Config p)) = Some cfg"
  obtains s' where "UpsertPreference X subject (Some p) s = (None, s')"
    "pg_faults s' = []"
    "\<And>u' c. stored_preference u' c s' = (if u' = u \<and> c = p_Channel p
        then Some (preference_row_of u c (p_Enabled p) cfg (p_Topics p) (pg_now s)) else stored_preference u' c s)"
proof -
  let ?new = "preference_row_of u (p_Channel p) (p_Enabled p) cfg (p_Topics p) (pg_now s)"
  let ?upd = "\<lambda>r. r\<lparr>pr_enabled := p_Enabled p, pr_config := cfg, pr_topics := p_Topics p, pr_updated_at := pg_now s\<rparr>"
  let ?s' = "s\<lparr>notification_preferences := upsert_row (\<lambda>r. pr_subject r = u \<and> pr_channel r = p_Channel p)
      ?new ?upd (notification_preferences s)\<rparr>"
  have np: "notification_preferences ?s' = upsert_row (\<lambda>r. pr_subject r = u \<and> pr_channel r = p_Channel p)
      ?new ?upd (notification_preferences s)" by simp
  have upd: "?upd r = ?new" if "pr_subject r = u \<and> pr_channel r = p_Channel p" for r
    using that by (cases r) (simp add: preference_row_of_def)
  have "stored_preference u' c ?s' = (if u' = u \<and> c = p_Channel p then Some ?new else stored_preference u' c s)" for u' c
  proof (cases "u' = u \<and> c = p_Channel p")
    case True
    have "stored_preference u (p_Channel p) ?s' = Some ?new"
      unfolding stored_preference_def np
      by (subst find_upsert_row_same) (auto simp: preference_row_of_def split: option.split dest!: find_SomeD)
    with True show ?thesis by simp
  next
    case False
    then show ?thesis
      unfolding stored_preference_def np
      by (subst find_upsert_row_other) (auto simp: preference_row_of_def)
  qed
  moreover have "UpsertPreference X subject (Some p) s = (None, ?s')"
    by (simp add: UpsertPreference_def pg_run_no_faults [OF assms(1)] sql_upsert_preference_def assms)
  ultimately show thesis using that [of ?s'] assms(1) by simp
qed

text \<open>
  What a subject stores as a preference is what the service reads back: after
  \<open>UpsertPreference\<close>, \<open>GetPreferences\<close> returns, ordered by channel and with one entry per channel,
  the preference just written for its channel and the former answer for every other channel; the
  preferences of other subjects are as before.
\<close>

theorem preference_put_get:
  assumes "pg_inv s" and "pg_faults s = []" and "uuid_cast X subject = Some u"
    and "jsonb X (rawJSON (p_Config p)) = Some cfg"
    and "UpsertPreference X subject (Some p) s = (err, s')"
    and "fst (GetPreferences X subject s) = Inr before"
  shows "\<exists>prefs. err = None \<and> fst (GetPreferences X subject s') = Inr prefs
     \<and> sorted (map p_Channel prefs) \<and> distinct (map p_Channel prefs)
     \<and> find (\<lambda>q. p_Channel q = p_Channel p) prefs
         = Some (p\<lparr>p_Subject := subject, p_Config := cfg, p_UpdatedAt := pg_now s\<rparr>)
     \<and> (\<forall>c. c \<noteq> p_Channel p \<longrightarrow> find (\<lambda>q. p_Channel q = c) prefs = find (\<lambda>q. p_Channel q = c) before)
     \<and> (\<forall>u' c. u' \<noteq> u \<longrightarrow> stored_preference u' c s' = stored_preference u' c s)"
proof -
  have inv: "pg_inv s'" using pg_inv_operations(5) [OF assms(1), of X subject "Some p"] assms(5) by simp
  have s': "err = None" "pg_faults s' = []"
    and st: "\<And>u' c. stored_preference u' c s' = (if u' = u \<and> c = p_Channel p
        then Some (preference_row_of u c (p_Enabled p) cfg (p_Topics p) (pg_now s)) else stored_preference u' c s)"
    using stored_preference_upsert [OF assms(2-4)] assms(5) by (metis prod.inject)+
  obtain prefs where new: "GetPreferences X subject s' = (Inr prefs, s')" "sorted (map p_Channel prefs)"
      "distinct (map p_Channel prefs)"
      "\<And>c. find (\<lambda>q. p_Channel q = c) prefs = map_option (scan_preference subject) (stored_preference u c s')"
    using GetPreferences_find [OF inv s'(2) assms(3)] by blast
  have old: "\<And>c. find (\<lambda>q. p_Channel q = c) before = map_option (scan_preference subject) (stored_preference u c s)"
    using GetPreferences_find [OF assms(1-3)] assms(6) by (metis fst_conv sum.inject(2))
  show ?thesis
    using new old s' st by (intro exI [of _ prefs]) (simp add: scan_preference_def preference_row_of_def)
qed

section \<open>Defaults\<close>

definition indexes :: "preference list \<Rightarrow> (Channel \<rightharpoonup> nat) \<Rightarrow> bool" where
  "indexes out index \<longleftrightarrow> (\<forall>c i. index c = Some i \<longleftrightarrow> i < length out \<and> p_Channel (out ! i) = c)"

lemma indexesD: "indexes out index \<Longrightarrow> index c = Some i \<longleftrightarrow> i < length out \<and> p_Channel (out ! i) = c"
  by (simp add: indexes_def)

lemma indexes_distinct: "indexes out index \<Longrightarrow> distinct (map p_Channel out)"
proof -
  assume i: "indexes out index"
  have "i = j" if "i < length out" "j < length out" "p_Channel (out ! i) = p_Channel (out ! j)" for i j
  proof -
    have "index (p_Channel (out ! i)) = Some i" "index (p_Channel (out ! i)) = Some j"
      using i that by (simp_all add: indexes_def)
    then show ?thesis by simp
  qed
  then show ?thesis by (auto simp: distinct_conv_nth)
qed

lemma indexes_put:
  assumes "indexes out index" and "index (p_Channel pref) = Some i"
  shows "indexes (out[i := pref]) index"
proof -
  have i: "i < length out" "p_Channel (out ! i) = p_Channel pref"
    using assms by (auto simp: indexes_def)
  then have "p_Channel (out[i := pref] ! j) = p_Channel (out ! j)" if "j < length out" for j
    using that by (cases "j = i") auto
  then show ?thesis by (simp add: indexes_def [of "out[i := pref]"] indexesD [OF assms(1)] cong: conj_cong)
qed

lemma indexes_append:
  assumes "indexes out index" and "index (p_Channel pref) = None"
  shows "indexes (out @ [pref]) (index(p_Channel pref \<mapsto> length out))"
proof -
  have "p_Channel (out ! j) \<noteq> p_Channel pref" if "j < length out" for j
    using indexesD [OF assms(1), of "p_Channel pref" j] assms(2) that by simp
  then show ?thesis
    by (auto simp: indexes_def [of "out @ [pref]"] indexesD [OF assms(1)] nth_append less_Suc_eq)
qed

lemma indexes_find_put:
  assumes "indexes out index" and "index (p_Channel pref) = Some i"
  shows "find (\<lambda>q. p_Channel q = c) (out[i := pref])
       = (if c = p_Channel pref then Some pref else find (\<lambda>q. p_Channel q = c) out)"
proof -
  have i: "i < length out" "p_Channel (out ! i) = p_Channel pref"
    using assms by (auto simp: indexes_def)
  have other: "p_Channel (out ! j) \<noteq> p_Channel pref" if "j < length out" "j \<noteq> i" for j
  proof
    assume "p_Channel (out ! j) = p_Channel pref"
    with assms(1) that(1) have "index (p_Channel pref) = Some j" by (simp add: indexes_def)
    with assms(2) that(2) show False by simp
  qed
  have "find (\<lambda>q. p_Channel q = p_Channel pref) (out[i := pref]) = Some pref"
    unfolding find_Some_iff using i other
    by (intro exI [of _ i]) (auto simp: nth_list_update)
  moreover have "find P (out[i := pref]) = find P out" if "\<not> P pref" "\<not> P (out ! i)" for P :: "preference \<Rightarrow> bool"
    using that i(1) by (induction out arbitrary: i) (auto split: nat.splits)
  ultimately show ?thesis using i by auto
qed

lemma find_append: "find P (xs @ ys) = (case find P xs of Some x \<Rightarrow> Some x | None \<Rightarrow> find P ys)"
  by (induction xs) auto

lemma merge_loop_spec:
  "indexes out index \<Longrightarrow>
     distinct (map p_Channel (merge_loop prefs out index))
     \<and> (\<exists>ext. map p_Channel (merge_loop prefs out index) = map p_Channel out @ ext)
     \<and> find (\<lambda>q. p_Channel q = c) (merge_loop prefs out index)
        = (case find (\<lambda>q. p_Channel q = c) (rev prefs) of Some q \<Rightarrow> Some q | None \<Rightarrow> find (\<lambda>q. p_Channel q = c) out)"
proof (induction prefs out index rule: merge_loop.induct)
  case (1 out index)
  then show ?case by (simp add: indexes_distinct)
next
  case (2 pref prefs out index)
  show ?case
  proof (cases "index (p_Channel pref)")
    case None
    obtain m where m: "merge_loop prefs (out @ [pref]) (index(p_Channel pref \<mapsto> length out)) = m" by simp
    note IH = 2(1) [OF None indexes_append [OF 2(3) None], unfolded m]
    have eq: "merge_loop (pref # prefs) out index = m" using None m by simp
    have "find (\<lambda>q. p_Channel q = p_Channel pref) out = None"
      using None 2(3) unfolding find_None_iff indexes_def by (metis in_set_conv_nth option.distinct(1))
    then show ?thesis
      unfolding eq using IH by (auto simp: find_append split: option.splits)
  next
    case (Some i)
    obtain m where m: "merge_loop prefs (out[i := pref]) index = m" by simp
    note IH = 2(2) [OF Some indexes_put [OF 2(3) Some], unfolded m]
    have eq: "merge_loop (pref # prefs) out index = m" using Some m by simp
    have "map p_Channel (out[i := pref]) = map p_Channel out"
      using Some 2(3) by (auto simp: indexes_def map_update list_update_same_conv)
    then show ?thesis
      unfolding eq using IH indexes_find_put [OF 2(3) Some, of c]
      by (auto simp: find_append split: option.splits)
  qed
qed

text \<open>
  The preferences shown to a user: one entry per channel, site and web push always present
  and first; the entry of a channel is the stored one when there is one and the default
  (site on, web push off) otherwise.
\<close>

theorem merge_defaults_spec:
  "distinct (map p_Channel (MergeDefaults subject prefs))
   \<and> (\<exists>ext. map p_Channel (MergeDefaults subject prefs) = [ChannelSite, ChannelWebPush] @ ext)
   \<and> find (\<lambda>q. p_Channel q = c) (MergeDefaults subject prefs)
      = (case find (\<lambda>q. p_Channel q = c) (rev prefs) of
           Some q \<Rightarrow> Some q | None \<Rightarrow> find (\<lambda>q. p_Channel q = c) (DefaultPreferences subject))"
proof -
  have "indexes (DefaultPreferences subject) [ChannelSite \<mapsto> 0, ChannelWebPush \<mapsto> 1]"
    by (auto simp: indexes_def DefaultPreferences_def channel_defs less_Suc_eq nth_Cons split: nat.splits)
  from merge_loop_spec [OF this, of prefs c] show ?thesis
    by (simp add: MergeDefaults_def DefaultPreferences_def)
qed

lemma preference_put_get_witness_state:
  "UpsertPreference sample_server ''R1'' (Some (hd (DefaultPreferences ''R1''))) sample_pg
     = (None, snd (UpsertPreference sample_server ''R1'' (Some (hd (DefaultPreferences ''R1''))) sample_pg))"
  "fst (GetPreferences sample_server ''R1'' sample_pg) = Inr []"
  "jsonb sample_server (rawJSON (p_Config (hd (DefaultPreferences ''R1'')))) = Some ''{}''"
  by (simp_all add: UpsertPreference_def GetPreferences_def sample_pg_eq empty_pg_def pg_run_def sample_server_def
      sql_upsert_preference_def sql_get_preferences_def DefaultPreferences_def rawJSON_def sample_lower
      del: snd_store_op)

theorem preference_put_get_witness:
  "\<exists>prefs. fst (GetPreferences sample_server ''R1''
        (snd (UpsertPreference sample_server ''R1'' (Some (hd (DefaultPreferences ''R1''))) sample_pg))) = Inr prefs
     \<and> distinct (map p_Channel prefs)"
  using preference_put_get [OF sample_inbox(1) sample_visible(1) sample_inbox(2)
      preference_put_get_witness_state(3,1,2)] by blast

section \<open>Push subscriptions\<close>

lemma filter_upsert_row_other:
  assumes "\<not> Q new" and "\<And>r. p r \<Longrightarrow> \<not> Q r \<and> \<not> Q (upd r)"
  shows "filter Q (upsert_row p new upd rs) = filter Q rs"
  by (induction rs) (use assms in auto)

lemma filter_upsert_row_same:
  assumes "distinct (map key rs)" and "\<And>r. p r \<longleftrightarrow> key r = key new" and "\<And>r. p r \<Longrightarrow> p (upd r)"
  shows "filter p (upsert_row p new upd rs) = [case find p rs of Some r \<Rightarrow> upd r | None \<Rightarrow> new]"
  using assms(1)
proof (induction rs)
  case Nil
  then show ?case using assms(2) by simp
next
  case (Cons r rs)
  have "filter p rs = []" if "p r"
  proof -
    have "key y \<noteq> key new" if "y \<in> set rs" for y
      using that Cons.prems assms(2) [of r] \<open>p r\<close> by (auto dest: sym)
    then show ?thesis by (auto simp: filter_empty_conv assms(2))
  qed
  then show ?case using Cons assms(3) by auto
qed

definition push_entry :: "push_subscription_row \<Rightarrow> PushSubscriptionRow" where
  "push_entry r = \<lparr>Endpoint = ps_endpoint r, P256dhKey = ps_p256dh_key r, AuthKey = ps_auth_key r\<rparr>"

definition push_list :: "string \<Rightarrow> pg \<Rightarrow> PushSubscriptionRow list" where
  "push_list u s = map push_entry (filter (\<lambda>r. ps_subject r = u) (push_subscriptions s))"

lemma ListPush_value:
  "pg_faults s = [] \<Longrightarrow> uuid_cast X subject = Some u \<Longrightarrow>
     ListPushSubscriptionsForSubject X subject s = (Inr (push_list u s), s)"
  by (simp add: ListPushSubscriptionsForSubject_def pg_run_no_faults sql_list_push_def push_list_def
      push_entry_def [abs_def])

lemma filter_push_list:
  "filter (\<lambda>e. P (Endpoint e)) (push_list u s)
     = map push_entry (filter (\<lambda>r. ps_subject r = u \<and> P (ps_endpoint r)) (push_subscriptions s))"
  by (simp add: push_list_def filter_map o_def push_entry_def conj_commute)

text \<open>
  C29: a browser's subscription: after \<open>UpsertPushSubscription\<close> the subject has exactly one entry for
  the endpoint, with the keys just given, and his other entries are as before; after
  \<open>DeletePushSubscription\<close> the entry is gone and the others are as before. Neither touches another
  subject's entries.
\<close>

theorem push_subscription_lifecycle:
  assumes "pg_inv s" and "pg_faults s = []" and "uuid_cast X subject = Some u"
  shows "\<exists>s1 s2. UpsertPushSubscription X subject ep p256dh auth ua s = (None, s1)
     \<and> filter (\<lambda>e. Endpoint e = ep) (push_list u s1) = [\<lparr>Endpoint = ep, P256dhKey = p256dh, AuthKey = auth\<rparr>]
     \<and> filter (\<lambda>e. Endpoint e \<noteq> ep) (push_list u s1) = filter (\<lambda>e. Endpoint e \<noteq> ep) (push_list u s)
     \<and> DeletePushSubscription X subject ep s1 = (None, s2)
     \<and> ListPushSubscriptionsForSubject X subject s2 = (Inr (filter (\<lambda>e. Endpoint e \<noteq> ep) (push_list u s)), s2)
     \<and> (\<forall>v. v \<noteq> u \<longrightarrow> push_list v s1 = push_list v s \<and> push_list v s2 = push_list v s)"
proof -
  let ?hit = "\<lambda>r. ps_subject r = u \<and> ps_endpoint r = ep"
  let ?new = "push_row_of (gen_uuid X (pg_serial s)) u ep p256dh auth (nullif_empty ua) (pg_now s)"
  let ?upd = "\<lambda>r. r\<lparr>ps_p256dh_key := p256dh, ps_auth_key := auth,
      ps_user_agent := nullif_empty ua, ps_updated_at := pg_now s\<rparr>"
  define rows where "rows = upsert_row ?hit ?new ?upd (push_subscriptions s)"
  define s1 where "s1 = s\<lparr>push_subscriptions := rows, pg_serial := Suc (pg_serial s)\<rparr>"
  define s2 where "s2 = s1\<lparr>push_subscriptions := filter (\<lambda>r. \<not> ?hit r) rows\<rparr>"
  have ups: "UpsertPushSubscription X subject ep p256dh auth ua s = (None, s1)"
    by (simp add: UpsertPushSubscription_def pg_run_no_faults assms(2,3) sql_upsert_push_def s1_def rows_def)
  have del: "DeletePushSubscription X subject ep s1 = (None, s2)"
    by (simp add: DeletePushSubscription_def pg_run_no_faults assms(2,3) sql_delete_push_def s1_def s2_def)
  have "filter ?hit rows = [case find ?hit (push_subscriptions s) of Some r \<Rightarrow> ?upd r | None \<Rightarrow> ?new]"
    unfolding rows_def using assms(1)
    by (intro filter_upsert_row_same [where key = push_key]) (auto simp: pg_inv_def push_key_def push_row_of_def)
  then have one: "filter (\<lambda>e. Endpoint e = ep) (push_list u s1) = [\<lparr>Endpoint = ep, P256dhKey = p256dh, AuthKey = auth\<rparr>]"
    by (auto simp: filter_push_list [of "\<lambda>x. x = ep"] s1_def push_entry_def push_row_of_def
        split: option.split dest!: find_SomeD)
  have others: "filter Q rows = filter Q (push_subscriptions s)"
    if "\<And>r. Q r \<longleftrightarrow> P (ps_subject r) (ps_endpoint r)" "\<not> P u ep" for Q P
    unfolding rows_def by (rule filter_upsert_row_other) (auto simp: that push_row_of_def)
  have rest: "filter (\<lambda>e. Endpoint e \<noteq> ep) (push_list u s1) = filter (\<lambda>e. Endpoint e \<noteq> ep) (push_list u s)"
    unfolding filter_push_list [of "\<lambda>x. x \<noteq> ep"] using others [of _ "\<lambda>v e. v = u \<and> e \<noteq> ep"] by (simp add: s1_def)
  have "push_list u s2 = filter (\<lambda>e. Endpoint e \<noteq> ep) (push_list u s1)"
    unfolding filter_push_list [of "\<lambda>x. x \<noteq> ep"] by (simp add: push_list_def s1_def s2_def) (metis (full_types))
  then have gone: "ListPushSubscriptionsForSubject X subject s2 = (Inr (filter (\<lambda>e. Endpoint e \<noteq> ep) (push_list u s)), s2)"
    using rest ListPush_value [of s2 X subject u] assms(2,3) by (simp add: s1_def s2_def)
  have "push_list v s1 = push_list v s \<and> push_list v s2 = push_list v s" if "v \<noteq> u" for v
  proof -
    have "filter (\<lambda>r. ps_subject r = v) rows = filter (\<lambda>r. ps_subject r = v) (push_subscriptions s)"
      using others [of _ "\<lambda>w e. w = v"] that by simp
    moreover have "filter (\<lambda>r. ps_subject r = v) (filter (\<lambda>r. \<not> ?hit r) rows) = filter (\<lambda>r. ps_subject r = v) rows"
      using that by (auto intro: filter_cong)
    ultimately show ?thesis by (simp add: push_list_def s1_def s2_def)
  qed
  with ups one rest del gone show ?thesis by blast
qed

theorem push_subscription_lifecycle_witness:
  "\<exists>s1. UpsertPushSubscription sample_server ''R1'' ''https://p/1'' ''k'' ''a'' [] sample_pg = (None, s1)
     \<and> filter (\<lambda>e. Endpoint e = ''https://p/1'') (push_list ''r1'' s1)
        = [\<lparr>Endpoint = ''https://p/1'', P256dhKey = ''k'', AuthKey = ''a''\<rparr>]"
  using push_subscription_lifecycle [OF sample_inbox(1) sample_visible(1) sample_inbox(2)] by blast

end
