(* ===== verification/DispatchProps.thy ===== *)
theory DispatchProps
  imports Dispatch StoreQueries
begin

text \<open>
  What a dispatch does and what its error means. The abstract specification is the list of events of
  a dispatch: a recipient whose channels could not be resolved, or a call of a provider with its
  result. The loops of the dispatcher are shown to compute exactly the calls, the counters and the
  joined error of this list. The store contract of the dispatcher is the locale
  \<open>dispatch_store\<close>, interpreted on the PostgreSQL store.
\<close>

section \<open>Events\<close>

datatype event = ResolveFailed string goerr | SendResult Channel string error

fun send_events ::
  "'w dispatcher \<Rightarrow> notification \<Rightarrow> string \<Rightarrow> resolved_preference list \<Rightarrow> 'w \<Rightarrow> event list \<times> 'w" where
  "send_events d n r [] w = ([], w)"
| "send_events d n r (t # ts) w =
     (case registry_Get (dp_providers d) (rp_Channel t) of
        None \<Rightarrow> send_events d n r ts w
      | Some prov \<Rightarrow>
          (let (err, w1) = pv_Send prov n r (rp_Config t) w; (evs, w2) = send_events d n r ts w1
           in (SendResult (rp_Channel t) r err # evs, w2)))"

fun dispatch_events :: "'w dispatcher \<Rightarrow> notification \<Rightarrow> string list \<Rightarrow> 'w \<Rightarrow> event list \<times> 'w" where
  "dispatch_events d n [] w = ([], w)"
| "dispatch_events d n (r # rs) w =
     (case resolveChannels d r n w of
        (Inl e, w1) \<Rightarrow> (let (evs, w2) = dispatch_events d n rs w1 in (ResolveFailed r e # evs, w2))
      | (Inr ts, w1) \<Rightarrow>
          (let (evs1, w2) = send_events d n r ts w1; (evs2, w3) = dispatch_events d n rs w2
           in (evs1 @ evs2, w3)))"

definition event_failure :: "event \<Rightarrow> error" where
  "event_failure ev = (case ev of
       ResolveFailed r e \<Rightarrow> Some (Wrapf ''resolve channels for %s: %w'' [AStr r] e)
     | SendResult c r err \<Rightarrow> map_option (Wrapf ''%s send to %s: %w'' [AStr c, AStr r]) err)"

definition failures :: "event list \<Rightarrow> goerr list" where
  "failures evs = List.map_filter event_failure evs"

definition sent_channels :: "event list \<Rightarrow> Channel list" where
  "sent_channels evs = concat (map (\<lambda>ev. case ev of SendResult c r err \<Rightarrow> [c] | _ \<Rightarrow> []) evs)"

definition failed_channels :: "event list \<Rightarrow> Channel list" where
  "failed_channels evs =
     concat (map (\<lambda>ev. case ev of SendResult c r (Some e) \<Rightarrow> [c] | _ \<Rightarrow> []) evs)"

definition join_onto :: "goerr \<Rightarrow> error \<Rightarrow> error" where
  "join_onto e acc = errors_Join [acc, Some e]"

definition join_failures :: "event list \<Rightarrow> error \<Rightarrow> error" where
  "join_failures evs acc = fold join_onto (failures evs) acc"

definition after_events :: "event list \<Rightarrow> 'w \<Rightarrow> 'w env \<Rightarrow> 'w env" where
  "after_events evs w s = s\<lparr>world := w, providerSends := providerSends s @ sent_channels evs,
     providerErrors := providerErrors s @ failed_channels evs\<rparr>"

lemma events_simps [simp]:
  "failures [] = []" "failures (ResolveFailed r e # evs) = Wrapf ''resolve channels for %s: %w'' [AStr r] e # failures evs"
  "failures (SendResult c r None # evs) = failures evs"
  "failures (SendResult c r (Some e) # evs) = Wrapf ''%s send to %s: %w'' [AStr c, AStr r] e # failures evs"
  "sent_channels [] = []" "sent_channels (ResolveFailed r e # evs) = sent_channels evs"
  "sent_channels (SendResult c r err # evs) = c # sent_channels evs"
  "failed_channels [] = []" "failed_channels (ResolveFailed r e # evs) = failed_channels evs"
  "failed_channels (SendResult c r None # evs) = failed_channels evs"
  "failed_channels (SendResult c r (Some e) # evs) = c # failed_channels evs"
  by (simp_all add: failures_def event_failure_def sent_channels_def failed_channels_def map_filter_simps)

lemma events_append [simp]:
  "failures (evs @ evs') = failures evs @ failures evs'"
  "sent_channels (evs @ evs') = sent_channels evs @ sent_channels evs'"
  "failed_channels (evs @ evs') = failed_channels evs @ failed_channels evs'"
  by (simp_all add: failures_def sent_channels_def failed_channels_def List.map_filter_def)

lemma join_failures_simps [simp]:
  "join_failures [] acc = acc"
  "join_failures (ResolveFailed r e # evs) acc
     = join_failures evs (join_onto (Wrapf ''resolve channels for %s: %w'' [AStr r] e) acc)"
  "join_failures (SendResult c r None # evs) acc = join_failures evs acc"
  "join_failures (SendResult c r (Some e) # evs) acc
     = join_failures evs (join_onto (Wrapf ''%s send to %s: %w'' [AStr c, AStr r] e) acc)"
  "join_failures (evs @ evs') acc = join_failures evs' (join_failures evs acc)"
  by (simp_all add: join_failures_def)

lemma after_events_simps:
  "world (after_events evs w s) = w"
  "after_events [] (world s) s = s"
  "after_events evs' w' (after_events evs w s) = after_events (evs @ evs') w' s"
  by (simp_all add: after_events_def)

lemma send_loop_events:
  "send_loop d n r ts acc s =
     (case send_events d n r ts (world s) of (evs, w) \<Rightarrow> (join_failures evs acc, after_events evs w s))"
proof (induction d n r ts acc s rule: send_loop.induct)
  case (1 d n r acc s)
  then show ?case by (simp add: after_events_simps)
next
  case (2 d n r t ts acc s)
  show ?case
  proof (cases "registry_Get (dp_providers d) (rp_Channel t)")
    case None
    then show ?thesis using 2(1) by simp
  next
    case (Some prov)
    obtain err w1 where send: "pv_Send prov n r (rp_Config t) (world s) = (err, w1)" by fastforce
    let ?s1 = "s\<lparr>providerSends := providerSends s @ [rp_Channel t]\<rparr>"
    let ?s2 = "?s1\<lparr>world := w1\<rparr>"
    have step: "(err, ?s2) = in_world (pv_Send prov n r (rp_Config t)) ?s1"
      by (simp add: in_world_def send)
    obtain evs w2 where evs: "send_events d n r ts w1 = (evs, w2)" by fastforce
    show ?thesis
    proof (cases err)
      case None
      have "send_loop d n r ts acc ?s2 = (join_failures evs acc, after_events evs w2 ?s2)"
        using 2(2) [OF Some refl step refl None] evs by simp
      then show ?thesis
        using Some None evs by (simp add: send step [symmetric] after_events_def)
    next
      case err: (Some e)
      let ?e = "Wrapf ''%s send to %s: %w'' [AStr (rp_Channel t), AStr r] e"
      let ?s3 = "?s2\<lparr>providerErrors := providerErrors ?s2 @ [rp_Channel t]\<rparr>"
      have "send_loop d n r ts (errors_Join [acc, Some ?e]) ?s3
          = (join_failures evs (join_onto ?e acc), after_events evs w2 ?s3)"
        using 2(3) [OF Some refl step refl err] evs by (simp add: join_onto_def)
      then show ?thesis
        using Some err evs by (simp add: send step [symmetric] after_events_def)
    qed
  qed
qed

lemma in_world_pair: "f (world s) = (x, w) \<Longrightarrow> in_world f s = (x, s\<lparr>world := w\<rparr>)"
  by (simp add: in_world_def)

lemma recipient_loop_events:
  "recipient_loop d n rs acc s =
     (case dispatch_events d n rs (world s) of (evs, w) \<Rightarrow> (join_failures evs acc, after_events evs w s))"
proof (induction rs arbitrary: acc s)
  case Nil
  then show ?case by (simp add: after_events_simps)
next
  case (Cons r rs)
  obtain x w1 where x: "resolveChannels d r n (world s) = (x, w1)" by fastforce
  show ?case
  proof (cases x)
    case (Inl e)
    obtain evs w2 where "dispatch_events d n rs w1 = (evs, w2)" by fastforce
    then show ?thesis
      using Inl x by (simp add: in_world_pair [of "resolveChannels d r n"] Cons.IH join_onto_def after_events_def)
  next
    case (Inr ts)
    obtain evs1 w2 where e1: "send_events d n r ts w1 = (evs1, w2)" by fastforce
    obtain evs2 w3 where e2: "dispatch_events d n rs w2 = (evs2, w3)" by fastforce
    show ?thesis
      using Inr x e1 e2
      by (simp add: in_world_pair [of "resolveChannels d r n"] send_loop_events Cons.IH after_events_simps)
         (simp add: after_events_def)
  qed
qed

section \<open>The specification of a dispatch\<close>

definition acceptable_input :: "(string \<Rightarrow> bool) \<Rightarrow> notification option \<Rightarrow> bool" where
  "acceptable_input uuid_ok np = (case np of None \<Rightarrow> False | Some n \<Rightarrow> acceptable uuid_ok n)"

definition dispatch_spec ::
  "(string \<Rightarrow> bool) \<Rightarrow> 'w dispatcher \<Rightarrow> notification option \<Rightarrow> 'w
     \<Rightarrow> (goerr + event list) \<times> notification option \<times> 'w" where
  "dispatch_spec uuid_ok d np w =
     (if \<not> acceptable_input uuid_ok np then
        (Inl (Wrapf ''dispatch validate notification: %w'' [] (the (fst (ValidateNotification uuid_ok np)))),
         map_option Normalize np, w)
      else
        (case sa_UpsertNotification (dp_store d) (map_option Normalize np) w of
           ((Some e, np2), w1) \<Rightarrow> (Inl (Wrapf ''persist notification: %w'' [] e), np2, w1)
         | ((None, None), w1) \<Rightarrow> (Inr [], None, w1)
         | ((None, Some n), w1) \<Rightarrow>
             (case resolveRecipients d n w1 of
                (Inl e, w2) \<Rightarrow> (Inl e, Some n, w2)
              | (Inr rs, w2) \<Rightarrow>
                  (case dispatch_events d n rs w2 of (evs, w3) \<Rightarrow> (Inr evs, Some n, w3)))))"

lemma Dispatch_events:
  "Dispatch uuid_ok d np s =
     (case dispatch_spec uuid_ok d np (world s) of
        (Inl e, np', w) \<Rightarrow> ((Some e, np'), s\<lparr>world := w\<rparr>)
      | (Inr evs, np', w) \<Rightarrow> ((join_failures evs None, np'), after_events evs w s))"
proof (cases "acceptable_input uuid_ok np")
  case False
  then have "fst (ValidateNotification uuid_ok np) \<noteq> None"
    by (cases np) (auto simp: ValidateNotification_def validate_Normalize_iff acceptable_input_def)
  then obtain e where "fst (ValidateNotification uuid_ok np) = Some e" by blast
  moreover have "snd (ValidateNotification uuid_ok np) = map_option Normalize np"
    by (cases np) (simp_all add: ValidateNotification_def)
  ultimately have val: "ValidateNotification uuid_ok np = (Some e, map_option Normalize np)"
    by (simp add: prod_eq_iff)
  have "dispatch_spec uuid_ok d np (world s)
      = (Inl (Wrapf ''dispatch validate notification: %w'' [] e), map_option Normalize np, world s)"
    unfolding dispatch_spec_def using False by (simp only: if_True not_False_eq_True val fst_conv option.sel)
  moreover have "s\<lparr>world := world s\<rparr> = s" by (cases s) simp
  ultimately show ?thesis by (simp add: Dispatch_def val)
next
  case True
  then obtain n where np: "np = Some n" "acceptable uuid_ok n"
    by (cases np) (simp_all add: acceptable_input_def)
  then have val: "ValidateNotification uuid_ok np = (None, Some (Normalize n))"
    by (simp add: ValidateNotification_def validate_Normalize_iff)
  obtain e np2 w1 where ups: "sa_UpsertNotification (dp_store d) (Some (Normalize n)) (world s) = ((e, np2), w1)"
    by (metis prod.exhaust)
  show ?thesis
  proof (cases e)
    case (Some x)
    then show ?thesis using np val ups
      by (simp add: Dispatch_def dispatch_spec_def acceptable_input_def in_world_def)
  next
    case e: None
    show ?thesis
    proof (cases np2)
      case None
      then show ?thesis using np val ups e
        by (simp add: Dispatch_def dispatch_spec_def acceptable_input_def in_world_def after_events_def)
    next
      case (Some m)
      obtain x w2 where rec: "resolveRecipients d m w1 = (x, w2)" by fastforce
      then show ?thesis using np val ups e Some
        by (cases x) (auto simp: Dispatch_def dispatch_spec_def acceptable_input_def in_world_def recipient_loop_events
            after_events_def split: prod.split)
    qed
  qed
qed

text \<open>
  C10: the dispatcher implements its specification: an unacceptable notification, a failed
  \<open>UpsertNotification\<close> or a failed subscriber lookup ends it with that error and no send; otherwise
  it makes exactly the calls of the event list, in its order, going on after a failure, counts
  each call and each failed call by channel, and returns the join of all failures.
\<close>

theorem dispatch_refines_spec:
  "Dispatch uuid_ok d np s =
     (case dispatch_spec uuid_ok d np (world s) of
        (Inl e, np', w) \<Rightarrow> ((Some e, np'), s\<lparr>world := w\<rparr>)
      | (Inr evs, np', w) \<Rightarrow> ((join_failures evs None, np'), after_events evs w s))"
  by (rule Dispatch_events)

section \<open>What the error of a dispatch means\<close>

lemma fold_join_None_iff: "fold join_onto fs acc = None \<longleftrightarrow> fs = [] \<and> acc = None"
proof (induction fs arbitrary: acc)
  case (Cons f fs)
  then show ?case by (simp add: join_onto_def)
qed simp

lemma fold_join_permanent:
  "IsPermanentChannelOnly (fold join_onto fs acc) c \<longleftrightarrow>
     (if fs = [] then IsPermanentChannelOnly acc c
      else (acc = None \<or> IsPermanentChannelOnly acc c) \<and> list_all (\<lambda>e. IsPermanentChannelOnly (Some e) c) fs)"
  by (induction fs arbitrary: acc) (auto simp: join_onto_def)

definition event_ok :: "event \<Rightarrow> bool" where
  "event_ok ev = (case ev of ResolveFailed r e \<Rightarrow> False | SendResult c r err \<Rightarrow> err = None)"

definition event_permanent :: "Channel \<Rightarrow> event \<Rightarrow> bool" where
  "event_permanent ch ev = (case ev of
     ResolveFailed r e \<Rightarrow> IsPermanentChannelOnly (Some e) ch
   | SendResult c r err \<Rightarrow> IsPermanentChannelOnly err ch)"

lemma failures_Nil_iff: "failures evs = [] \<longleftrightarrow> list_all event_ok evs"
proof (induction evs)
  case (Cons ev evs)
  then show ?case by (cases ev; cases "case ev of SendResult c r err \<Rightarrow> err | _ \<Rightarrow> None") (auto simp: event_ok_def)
qed simp

lemma failures_permanent:
  "list_all (\<lambda>e. IsPermanentChannelOnly (Some e) ch) (failures evs)
     \<longleftrightarrow> list_all (\<lambda>ev. event_ok ev \<or> event_permanent ch ev) evs"
proof (induction evs)
  case (Cons ev evs)
  show ?case
  proof (cases ev)
    case (ResolveFailed r e)
    then show ?thesis using Cons by (simp add: event_ok_def event_permanent_def)
  next
    case (SendResult c r err)
    then show ?thesis using Cons by (cases err) (simp_all add: event_ok_def event_permanent_def)
  qed
qed simp

text \<open>
  How far a dispatch gets: the notification is refused, it cannot be stored, its subscribers cannot be
  listed, or it is sent, with the events of the sending (none when it has no recipients).
\<close>

datatype progress = Refused | NotStored goerr | NotListed goerr | Attempted "event list"

definition progress_of :: "(string \<Rightarrow> bool) \<Rightarrow> 'w dispatcher \<Rightarrow> notification option \<Rightarrow> 'w \<Rightarrow> progress" where
  "progress_of uuid_ok d np w =
     (if \<not> acceptable_input uuid_ok np then Refused
      else (case sa_UpsertNotification (dp_store d) (map_option Normalize np) w of
              ((Some e, _), _) \<Rightarrow> NotStored e
            | ((None, None), _) \<Rightarrow> Attempted []
            | ((None, Some n), w1) \<Rightarrow>
                if n_Recipients n \<noteq> [] then Attempted (fst (dispatch_events d n (n_Recipients n) w1))
                else (case sa_ListTopicSubscribers (dp_store d) (n_Topic n) w1 of
                        (Inl e, _) \<Rightarrow> NotListed e
                      | (Inr rs, w2) \<Rightarrow> Attempted (fst (dispatch_events d n rs w2)))))"

lemma validate_fields_shape:
  "validate_fields uuid_ok n = Some e \<Longrightarrow> \<exists>f as. e = Errorf f as"
  by (auto simp: validate_fields_def split: if_splits option.splits)

lemma validation_not_permanent:
  "fst (ValidateNotification uuid_ok np) = Some e \<Longrightarrow> \<not> IsPermanentChannelOnly (Some e) ch"
  by (cases np) (auto simp: ValidateNotification_def dest: validate_fields_shape)

lemma Dispatch_error:
  "fst (fst (Dispatch uuid_ok d np s)) =
     (case progress_of uuid_ok d np (world s) of
        Refused \<Rightarrow> map_option (Wrapf ''dispatch validate notification: %w'' []) (fst (ValidateNotification uuid_ok np))
      | NotStored e \<Rightarrow> Some (Wrapf ''persist notification: %w'' [] e)
      | NotListed e \<Rightarrow> Some (Wrapf ''list topic subscribers: %w'' [] e)
      | Attempted evs \<Rightarrow> fold join_onto (failures evs) None)"
proof (cases "acceptable_input uuid_ok np")
  case False
  then have "fst (ValidateNotification uuid_ok np) \<noteq> None"
    by (cases np) (auto simp: ValidateNotification_def validate_Normalize_iff acceptable_input_def)
  then show ?thesis using False
    by (auto simp: Dispatch_events dispatch_spec_def progress_of_def)
next
  case True
  then show ?thesis
    by (auto simp: Dispatch_events dispatch_spec_def progress_of_def resolveRecipients_def join_failures_def
        split: prod.split option.split sum.split)
qed

lemma refused_error:
  "progress_of uuid_ok d np w = Refused \<Longrightarrow> fst (ValidateNotification uuid_ok np) \<noteq> None"
  by (cases np) (auto simp: progress_of_def ValidateNotification_def validate_Normalize_iff acceptable_input_def
      split: if_splits prod.splits option.splits sum.splits)

text \<open>
  C11: a dispatch returns nil exactly when the notification was acceptable and stored, its recipients
  were found, every recipient's channels were resolved and every call of a provider succeeded. Its
  error is classified as permanent on a channel only exactly when something failed and every
  failure is permanent on that channel: a refused notification, a single temporary failure
  or a failure on another channel makes the message be retried.
\<close>

theorem dispatch_error_meaning:
  "(fst (fst (Dispatch uuid_ok d np s)) = None \<longleftrightarrow>
      (\<exists>evs. progress_of uuid_ok d np (world s) = Attempted evs \<and> list_all event_ok evs))
   \<and> (IsPermanentChannelOnly (fst (fst (Dispatch uuid_ok d np s))) ch \<longleftrightarrow>
        (case progress_of uuid_ok d np (world s) of
           Refused \<Rightarrow> False
         | NotStored e \<Rightarrow> IsPermanentChannelOnly (Some e) ch
         | NotListed e \<Rightarrow> IsPermanentChannelOnly (Some e) ch
         | Attempted evs \<Rightarrow> \<not> list_all event_ok evs \<and> list_all (\<lambda>ev. event_ok ev \<or> event_permanent ch ev) evs))"
proof (cases "progress_of uuid_ok d np (world s)")
  case Refused
  then obtain e where "fst (ValidateNotification uuid_ok np) = Some e" using refused_error [OF Refused] by auto
  then show ?thesis using Refused validation_not_permanent by (simp add: Dispatch_error)
qed (simp_all add: Dispatch_error fold_join_None_iff fold_join_permanent failures_Nil_iff failures_permanent)

definition sample_dispatcher :: "error \<Rightarrow> (string \<times> string) list dispatcher" where
  "sample_dispatcher err = \<lparr>dp_store = \<lparr>sa_UpsertNotification = (\<lambda>np w. ((None, np), w)),
       sa_ListTopicSubscribers = (\<lambda>t w. (Inr [], w)), sa_GetPreferences = (\<lambda>r w. (Inr [], w))\<rparr>,
     dp_providers = Some (NewRegistry [Some (log_provider ChannelSite err)])\<rparr>"

lemma sample_progress:
  "progress_of (\<lambda>_. True) (sample_dispatcher (Some (SendError ''web_push'' True (Sentinel ''gone''))))
      (Some sample_notification) []
     = Attempted [SendResult ''site'' ''u1'' (Some (SendError ''web_push'' True (Sentinel ''gone'')))]"
  "progress_of (\<lambda>_. False) (sample_dispatcher None) (Some sample_notification) [] = Refused"
  by code_simp+

theorem dispatch_error_meaning_witness:
  "IsPermanentChannelOnly (fst (fst (Dispatch (\<lambda>_. True)
      (sample_dispatcher (Some (SendError ''web_push'' True (Sentinel ''gone'')))) (Some sample_notification)
      \<lparr>world = [], providerSends = [], providerErrors = []\<rparr>))) ''web_push''
   \<and> fst (fst (Dispatch (\<lambda>_. False) (sample_dispatcher None) (Some sample_notification)
      \<lparr>world = [], providerSends = [], providerErrors = []\<rparr>)) \<noteq> None"
proof -
  let ?s = "\<lparr>world = [], providerSends = [], providerErrors = []\<rparr> :: (string \<times> string) list env"
  show ?thesis
    using dispatch_error_meaning [of "\<lambda>_. True" "sample_dispatcher (Some (SendError ''web_push'' True (Sentinel ''gone'')))"
        "Some sample_notification" ?s "''web_push''"]
      dispatch_error_meaning [of "\<lambda>_. False" "sample_dispatcher None" "Some sample_notification" ?s]
    by (simp add: sample_progress event_ok_def event_permanent_def)
qed

section \<open>The channels of a recipient\<close>

lemma by_channel_find:
  "distinct (map p_Channel prefs) \<Longrightarrow>
     by_channel prefs m c = (case find (\<lambda>q. p_Channel q = c) prefs of Some q \<Rightarrow> Some q | None \<Rightarrow> m c)"
proof (induction prefs arbitrary: m)
  case (Cons p prefs)
  have "find (\<lambda>q. p_Channel q = p_Channel p) prefs = None"
    using Cons.prems by (auto simp: find_key_None_iff)
  then show ?case using Cons by (auto split: option.split)
qed simp

definition chosen :: "preference list \<Rightarrow> notification \<Rightarrow> Channel \<Rightarrow> bool" where
  "chosen prefs n c \<longleftrightarrow>
     (case find (\<lambda>q. p_Channel q = c) prefs of
        Some q \<Rightarrow> p_Enabled q
          \<and> (if n_Channels n \<noteq> [] then c \<in> set (n_Channels n) else TopicMatches (p_Topics q) (n_Topic n))
      | None \<Rightarrow> (if n_Channels n \<noteq> [] then c \<in> set (n_Channels n) else prefs = [] \<and> c = ChannelSite))"

definition config_for :: "preference list \<Rightarrow> Channel \<Rightarrow> string" where
  "config_for prefs c = (case find (\<lambda>q. p_Channel q = c) prefs of Some q \<Rightarrow> p_Config q | None \<Rightarrow> [])"

lemma explicit_channels_spec:
  "map rp_Channel (explicit_channels m cs) = filter (\<lambda>c. case m c of Some q \<Rightarrow> p_Enabled q | None \<Rightarrow> True) cs
   \<and> (\<forall>t \<in> set (explicit_channels m cs). rp_Config t = (case m (rp_Channel t) of Some q \<Rightarrow> p_Config q | None \<Rightarrow> []))"
  by (induction cs) (auto split: option.split)

lemma enabled_channels_map:
  "enabled_channels topic prefs = map (\<lambda>q. \<lparr>rp_Channel = p_Channel q, rp_Config = p_Config q\<rparr>)
     (filter (\<lambda>q. p_Enabled q \<and> TopicMatches (p_Topics q) topic) prefs)"
  by (induction prefs) auto

lemma image_enabled:
  "c \<in> rp_Channel ` set (enabled_channels topic prefs)
     \<longleftrightarrow> (\<exists>q\<in>set prefs. (p_Enabled q \<and> TopicMatches (p_Topics q) topic) \<and> p_Channel q = c)"
  by (auto simp: enabled_channels_map image_iff)

lemma map_fst_eqI:
  fixes ts :: "resolved_preference list"
  assumes "distinct (map rp_Channel ts)" and "\<And>c. c \<in> rp_Channel ` set ts \<longleftrightarrow> P c"
    and "\<And>t. t \<in> set ts \<Longrightarrow> rp_Config t = cfg (rp_Channel t)"
  shows "t \<in> set ts \<longleftrightarrow> P (rp_Channel t) \<and> rp_Config t = cfg (rp_Channel t)"
proof
  assume "P (rp_Channel t) \<and> rp_Config t = cfg (rp_Channel t)"
  then obtain t' where t': "t' \<in> set ts" "rp_Channel t' = rp_Channel t" "rp_Config t = cfg (rp_Channel t)"
    using assms(2) by (metis imageE)
  then have "rp_Config t' = rp_Config t" using assms(3) [OF t'(1)] by simp
  then have "t' = t" using t'(2) by (intro resolved_preference.equality) simp_all
  with t' show "t \<in> set ts" by simp
qed (use assms in auto)

lemma channels_for_spec:
  assumes "distinct (map p_Channel prefs)" and "distinct (n_Channels n)"
  shows "distinct (map rp_Channel (channels_for prefs n))"
    and "t \<in> set (channels_for prefs n) \<longleftrightarrow> chosen prefs n (rp_Channel t) \<and> rp_Config t = config_for prefs (rp_Channel t)"
proof -
  consider "n_Channels n \<noteq> []" | "n_Channels n = []" "prefs = []" | "n_Channels n = []" "prefs \<noteq> []" by blast
  then have *: "distinct (map rp_Channel (channels_for prefs n))
      \<and> (\<forall>c. c \<in> rp_Channel ` set (channels_for prefs n) \<longleftrightarrow> chosen prefs n c)
      \<and> (\<forall>t \<in> set (channels_for prefs n). rp_Config t = config_for prefs (rp_Channel t))"
  proof cases
    case 1
    note spec = explicit_channels_spec [of "by_channel prefs Map.empty" "n_Channels n"]
    have "set (map rp_Channel (explicit_channels (by_channel prefs Map.empty) (n_Channels n)))
        = set (filter (\<lambda>c. case by_channel prefs Map.empty c of Some q \<Rightarrow> p_Enabled q | None \<Rightarrow> True) (n_Channels n))"
      using spec by (simp only:)
    then have "c \<in> rp_Channel ` set (channels_for prefs n) \<longleftrightarrow> chosen prefs n c" for c
      using 1 by (auto simp: channels_for_def chosen_def by_channel_find [OF assms(1)] split: option.splits)
    then show ?thesis
      using spec 1 assms by (auto simp: channels_for_def config_for_def by_channel_find split: option.splits)
  next
    case 2
    then show ?thesis by (auto simp: channels_for_def chosen_def config_for_def)
  next
    case 3
    have "map rp_Channel (enabled_channels (n_Topic n) prefs)
        = map p_Channel (filter (\<lambda>q. p_Enabled q \<and> TopicMatches (p_Topics q) (n_Topic n)) prefs)"
      by (simp add: enabled_channels_map)
    moreover have "c \<in> rp_Channel ` set (enabled_channels (n_Topic n) prefs) \<longleftrightarrow> chosen prefs n c" for c
      unfolding image_enabled
    proof (cases "find (\<lambda>q. p_Channel q = c) prefs")
      case None
      then have "c \<notin> p_Channel ` set prefs" by (simp add: find_key_None_iff)
      then show "(\<exists>q\<in>set prefs. (p_Enabled q \<and> TopicMatches (p_Topics q) (n_Topic n)) \<and> p_Channel q = c) \<longleftrightarrow> chosen prefs n c"
        using 3 None by (auto simp: chosen_def)
    next
      case (Some q)
      then have q: "q \<in> set prefs" "p_Channel q = c" using find_key_iff [OF assms(1)] by auto
      then have "\<forall>q' \<in> set prefs. p_Channel q' = c \<longrightarrow> q' = q"
        using assms(1) by (metis distinct_map_key)
      then have "(\<exists>q\<in>set prefs. (p_Enabled q \<and> TopicMatches (p_Topics q) (n_Topic n)) \<and> p_Channel q = c)
          \<longleftrightarrow> p_Enabled q \<and> TopicMatches (p_Topics q) (n_Topic n)"
        using q by blast
      then show "(\<exists>q\<in>set prefs. (p_Enabled q \<and> TopicMatches (p_Topics q) (n_Topic n)) \<and> p_Channel q = c) \<longleftrightarrow> chosen prefs n c"
        using 3 Some by (simp add: chosen_def)
    qed
    moreover have "rp_Config t = config_for prefs (rp_Channel t)" if "t \<in> set (enabled_channels (n_Topic n) prefs)" for t
    proof -
      from that obtain q where "q \<in> set prefs" and t: "t = \<lparr>rp_Channel = p_Channel q, rp_Config = p_Config q\<rparr>"
        by (auto simp: enabled_channels_map)
      then have "find (\<lambda>q'. p_Channel q' = p_Channel q) prefs = Some q"
        using find_key_iff [OF assms(1)] by auto
      then show ?thesis by (simp add: t config_for_def)
    qed
    ultimately show ?thesis
      using 3 assms(1) by (simp add: channels_for_def distinct_map_filter)
  qed
  then show "distinct (map rp_Channel (channels_for prefs n))" by blast
  show "t \<in> set (channels_for prefs n) \<longleftrightarrow> chosen prefs n (rp_Channel t) \<and> rp_Config t = config_for prefs (rp_Channel t)"
    by (rule map_fst_eqI) (use * in blast)+
qed

section \<open>The store contract of the dispatcher\<close>

definition providers_keep :: "('w \<Rightarrow> bool) \<Rightarrow> 'w registry option \<Rightarrow> bool" where
  "providers_keep good r \<longleftrightarrow>
     (\<forall>c p n rcpt cfg w. registry_Get r c = Some p \<longrightarrow> good w \<longrightarrow> good (snd (pv_Send p n rcpt cfg w)))"

definition send_keys :: "event list \<Rightarrow> (Channel \<times> string) list" where
  "send_keys evs = concat (map (\<lambda>ev. case ev of SendResult c r err \<Rightarrow> [(c, r)] | _ \<Rightarrow> []) evs)"

lemma send_keys_simps [simp]:
  "send_keys [] = []" "send_keys (ResolveFailed r e # evs) = send_keys evs"
  "send_keys (SendResult c r err # evs) = (c, r) # send_keys evs"
  "send_keys (evs @ evs') = send_keys evs @ send_keys evs'"
  by (simp_all add: send_keys_def)

lemma send_events_keys:
  "send_keys (fst (send_events d n r ts w))
     = map (\<lambda>c. (c, r)) (filter (\<lambda>c. registry_Get (dp_providers d) c \<noteq> None) (map rp_Channel ts))"
  by (induction ts arbitrary: w) (auto simp: case_prod_beta Let_def split: option.split)

lemma send_events_keep:
  "providers_keep good (dp_providers d) \<Longrightarrow> good w \<Longrightarrow> good (snd (send_events d n r ts w))"
  by (induction ts arbitrary: w) (auto simp: providers_keep_def case_prod_beta Let_def split: option.split)

locale dispatch_store =
  fixes inv :: "'w \<Rightarrow> bool" and sa :: "'w storeAccessor"
  assumes inv_upsert: "inv w \<Longrightarrow> inv (snd (sa_UpsertNotification sa np w))"
    and inv_subscribers: "inv w \<Longrightarrow> inv (snd (sa_ListTopicSubscribers sa topic w))"
    and inv_preferences: "inv w \<Longrightarrow> inv (snd (sa_GetPreferences sa r w))"
    and upsert_ok: "sa_UpsertNotification sa (Some n) w = ((None, np), w') \<Longrightarrow>
          \<exists>k t. np = Some (n\<lparr>n_ID := k, n_CreatedAt := t\<rparr>)"
    and one_per_channel: "inv w \<Longrightarrow> sa_GetPreferences sa r w = (Inr prefs, w') \<Longrightarrow> distinct (map p_Channel prefs)"
begin

lemma targets_spec:
  assumes "dp_store d = sa" and "inv w" and "distinct (n_Channels n)"
    and "resolveChannels d r n w = (Inr ts, w')"
  shows "\<exists>prefs. fst (sa_GetPreferences sa r w) = Inr prefs \<and> distinct (map rp_Channel ts)
     \<and> (\<forall>t. t \<in> set ts \<longleftrightarrow> chosen prefs n (rp_Channel t) \<and> rp_Config t = config_for prefs (rp_Channel t))"
proof -
  obtain prefs w1 where g: "sa_GetPreferences sa r w = (Inr prefs, w1)" and ts: "ts = channels_for prefs n"
    using assms(1,4) by (auto simp: resolveChannels_def split: prod.splits sum.splits)
  show ?thesis
    using channels_for_spec [OF one_per_channel [OF assms(2) g] assms(3)] g ts by auto
qed

lemma inv_resolve: "dp_store d = sa \<Longrightarrow> inv w \<Longrightarrow> inv (snd (resolveChannels d r n w))"
  using inv_preferences [of w r] by (auto simp: resolveChannels_def split: prod.split sum.split)

text \<open>No recipient of a list without repetitions gets two sends on one channel.\<close>

lemma sends_once:
  assumes "dp_store d = sa" and "providers_keep inv (dp_providers d)" and "distinct (n_Channels n)"
  shows "inv w \<Longrightarrow> distinct rs \<Longrightarrow>
     distinct (send_keys (fst (dispatch_events d n rs w))) \<and> snd ` set (send_keys (fst (dispatch_events d n rs w))) \<subseteq> set rs"
proof (induction rs arbitrary: w)
  case (Cons r rs)
  obtain x w1 where x: "resolveChannels d r n w = (x, w1)" by fastforce
  have w1: "inv w1" using inv_resolve [OF assms(1) Cons.prems(1), of r n] x by simp
  show ?case
  proof (cases x)
    case (Inl e)
    then show ?thesis using Cons.IH [OF w1] Cons.prems x by (simp add: case_prod_beta Let_def) blast
  next
    case (Inr ts)
    obtain evs w2 where evs: "send_events d n r ts w1 = (evs, w2)" by fastforce
    then have w2: "inv w2" using send_events_keep [OF assms(2) w1] by (metis snd_conv)
    have "distinct (map rp_Channel ts)"
      using targets_spec [OF assms(1) Cons.prems(1) assms(3)] x Inr by blast
    then have "distinct (send_keys evs)" "snd ` set (send_keys evs) \<subseteq> {r}"
      using send_events_keys [of d n r ts w1] evs by (auto simp: distinct_map inj_on_def)
    moreover have "distinct (send_keys (fst (dispatch_events d n rs w2)))"
        "snd ` set (send_keys (fst (dispatch_events d n rs w2))) \<subseteq> set rs" "r \<notin> set rs"
      using Cons.IH [OF w2] Cons.prems(2) by auto
    moreover have "fst (dispatch_events d n (r # rs) w) = evs @ fst (dispatch_events d n rs w2)"
      using x Inr evs by (simp add: case_prod_beta Let_def)
    ultimately show ?thesis by auto
  qed
qed simp

end

section \<open>The PostgreSQL store keeps the contract\<close>

definition pg_store :: "pg_server \<Rightarrow> pg storeAccessor" where
  "pg_store X = \<lparr>sa_UpsertNotification = UpsertNotification X,
     sa_ListTopicSubscribers = ListTopicSubscribers X, sa_GetPreferences = GetPreferences X\<rparr>"

lemma GetPreferences_distinct:
  assumes "pg_inv s" and "GetPreferences X r s = (Inr prefs, s')"
  shows "distinct (map p_Channel prefs)"
proof -
  obtain rows where run: "pg_run (sql_get_preferences X r) s = (Inr rows, s')"
    and prefs: "prefs = map (scan_preference r) rows"
    using assms(2) by (auto simp: GetPreferences_def split: prod.splits sum.splits)
  obtain fs where "sql_get_preferences X r (s\<lparr>pg_faults := fs\<rparr>) = (Inr rows, s')"
    by (rule pg_run_Inr [OF run])
  then obtain u where "rows = sort_key pr_channel (filter (\<lambda>r. pr_subject r = u) (notification_preferences s))"
    by (auto simp: sql_get_preferences_def split: option.splits)
  then have "mset (map p_Channel prefs) = mset (map pr_channel (filter (\<lambda>r. pr_subject r = u) (notification_preferences s)))"
    by (simp add: prefs scan_preference_def o_def)
  then show ?thesis using distinct_channels [OF assms(1)] mset_eq_imp_distinct_iff by blast
qed

lemma UpsertNotification_ok:
  assumes "UpsertNotification X (Some n) s = ((None, np), s')"
  shows "\<exists>k t. np = Some (n\<lparr>n_ID := k, n_CreatedAt := t\<rparr>)"
  using assms by (auto simp: UpsertNotification_def split: prod.splits sum.splits)

interpretation pg_dispatch: dispatch_store pg_inv "pg_store X" for X
proof
  show "pg_inv w \<Longrightarrow> pg_inv (snd (sa_UpsertNotification (pg_store X) np w))" for w np
    by (simp only: pg_store_def storeAccessor.simps pg_inv_operations)
  show "pg_inv w \<Longrightarrow> pg_inv (snd (sa_ListTopicSubscribers (pg_store X) topic w))" for w topic
    by (simp only: pg_store_def storeAccessor.simps pg_inv_operations)
  show "pg_inv w \<Longrightarrow> pg_inv (snd (sa_GetPreferences (pg_store X) r w))" for w r
    by (simp only: pg_store_def storeAccessor.simps pg_inv_operations)
  show "sa_UpsertNotification (pg_store X) (Some n) w = ((None, np), w') \<Longrightarrow>
      \<exists>k t. np = Some (n\<lparr>n_ID := k, n_CreatedAt := t\<rparr>)" for n w np w'
    by (simp only: pg_store_def storeAccessor.simps UpsertNotification_ok)
  show "pg_inv w \<Longrightarrow> sa_GetPreferences (pg_store X) r w = (Inr prefs, w') \<Longrightarrow> distinct (map p_Channel prefs)"
    for w r prefs w'
    by (simp only: pg_store_def storeAccessor.simps GetPreferences_distinct)
qed

text \<open>
  C26: the channels of a recipient: \<open>resolveChannels\<close> on the store's preferences returns each channel at
  most once, and exactly these: without explicit channels, the channels he has enabled whose topic
  filters admit the topic (or the site, when he has stored no preference); with explicit ones, all
  of them but those he has disabled, whatever his topic filters. A channel comes with its
  stored configuration.
\<close>

theorem channels_follow_preferences:
  assumes "pg_inv s" and "distinct (n_Channels n)" and "dp_store d = pg_store X"
    and "resolveChannels d r n s = (Inr ts, s')"
  shows "\<exists>prefs. fst (GetPreferences X r s) = Inr prefs \<and> distinct (map rp_Channel ts)
     \<and> (\<forall>t. t \<in> set ts \<longleftrightarrow> chosen prefs n (rp_Channel t) \<and> rp_Config t = config_for prefs (rp_Channel t))"
proof -
  have "sa_GetPreferences (pg_store X) = GetPreferences X" by (simp add: pg_store_def)
  then show ?thesis using pg_dispatch.targets_spec [OF assms(3,1,2,4)] by simp
qed

lemma dispatch_spec_recipients:
  assumes "dispatch_spec uuid_ok d (Some n) w = (Inr evs, np', w')" and "uniqueStrings (n_Recipients n) \<noteq> []"
    and "\<And>n np w'. sa_UpsertNotification (dp_store d) (Some n) w = ((None, np), w') \<Longrightarrow>
          \<exists>k t. np = Some (n\<lparr>n_ID := k, n_CreatedAt := t\<rparr>)"
  obtains k t w1 where "dispatch_events d ((Normalize n)\<lparr>n_ID := k, n_CreatedAt := t\<rparr>)
      (uniqueStrings (n_Recipients n)) w1 = (evs, w')" and "w1 = snd (sa_UpsertNotification (dp_store d) (Some (Normalize n)) w)"
    and "np' = Some ((Normalize n)\<lparr>n_ID := k, n_CreatedAt := t\<rparr>)"
proof -
  obtain e np2 w1 where ups: "sa_UpsertNotification (dp_store d) (Some (Normalize n)) w = ((e, np2), w1)"
    by (metis prod.exhaust)
  then have "e = None"
    using assms(1) by (cases e) (auto simp: dispatch_spec_def split: if_splits)
  with ups obtain k t where np2: "np2 = Some ((Normalize n)\<lparr>n_ID := k, n_CreatedAt := t\<rparr>)"
    using assms(3) by blast
  have "dispatch_events d ((Normalize n)\<lparr>n_ID := k, n_CreatedAt := t\<rparr>) (uniqueStrings (n_Recipients n)) w1 = (evs, w')"
    "np' = np2"
    using assms(1,2) ups np2 \<open>e = None\<close>
    by (auto simp: dispatch_spec_def resolveRecipients_def Normalize_def split: if_splits prod.splits)
  with ups np2 that show thesis by simp
qed

definition sample_pg_dispatcher :: "pg dispatcher" where
  "sample_pg_dispatcher = \<lparr>dp_store = pg_store sample_server,
     dp_providers = Some (NewRegistry [Some \<lparr>pv_Name = ''site'', pv_Channel = ChannelSite,
       pv_Send = (\<lambda>n r cfg s. (None, s)), pv_Close = (\<lambda>s. (None, s))\<rparr>])\<rparr>"

definition sample_message :: notification where
  "sample_message = zero_notification\<lparr>n_ID := ''a1'', n_Topic := ''t'', n_Title := ''t'',
     n_Recipients := [''r1'', '' r1'', ''r2'']\<rparr>"

lemma sample_pg_dispatch:
  "resolveChannels sample_pg_dispatcher ''r1'' sample_message sample_pg = (Inr [\<lparr>rp_Channel = ''site'', rp_Config = []\<rparr>], sample_pg)"
  by code_simp

theorem channels_follow_preferences_witness:
  "\<exists>prefs. fst (GetPreferences sample_server ''r1'' sample_pg) = Inr prefs \<and> chosen prefs sample_message ''site''"
proof -
  have "dp_store sample_pg_dispatcher = pg_store sample_server" by (simp add: sample_pg_dispatcher_def)
  moreover have "distinct (n_Channels sample_message)" by (simp add: sample_message_def zero_notification_def)
  ultimately obtain prefs where "fst (GetPreferences sample_server ''r1'' sample_pg) = Inr prefs"
    and "\<forall>t. t \<in> set [\<lparr>rp_Channel = ''site'', rp_Config = []\<rparr>] \<longleftrightarrow>
        chosen prefs sample_message (rp_Channel t) \<and> rp_Config t = config_for prefs (rp_Channel t)"
    using channels_follow_preferences [OF sample_inbox(1) _ _ sample_pg_dispatch] by blast
  then show ?thesis by (metis list.set_intros(1) resolved_preference.select_convs(1))
qed

end
