(* ===== verification/Rmq.thy ===== *)
theory Rmq
  imports Errors
begin

text \<open>
  \<open>internal/rmq\<close>: the batches a consumer session collects, the publisher, the session's set-up, the
  carrier of trace headers, and the connection manager with its reconnecting loop. The AMQP library
  is third-party code: its calls on a channel are the operations of a record \<open>amqp\<close> over a world
  \<open>'w\<close>. A \<open>select\<close> is resolved by a schedule: the list of what happens, in the order it is seen.
  Durations are nanoseconds in 64 bits, with the wrap-around of Go's arithmetic.
\<close>

section \<open>Tables and deliveries\<close>

text \<open>An \<open>amqp091.Table\<close> maps names to interface values; the code asks for strings, \<open>int64\<close>, tables
  and lists, and everything else is \<open>TOther\<close>.\<close>

datatype tval = TStr string | TInt64 int | TTable "(string \<times> tval) list" | TList "tval list" | TOther

type_synonym amqp_table = "tval go_map"

record amqp_delivery =
  dl_Headers :: amqp_table
  dl_Redelivered :: bool
  dl_DeliveryTag :: nat
  dl_Body :: string

section \<open>Trace headers (\<open>trace.go\<close>)\<close>

definition carrier_Get :: "amqp_table \<Rightarrow> string \<Rightarrow> string" where
  "carrier_Get c key = (case go_get c key of Some (TStr s) \<Rightarrow> s | _ \<Rightarrow> [])"

definition carrier_Set :: "string \<Rightarrow> string \<Rightarrow> amqp_table \<Rightarrow> amqp_table" where
  "carrier_Set key v c = go_put key (TStr v) c"

definition carrier_Keys :: "amqp_table \<Rightarrow> string list" where
  "carrier_Keys c = map fst c"

definition extractTraceHeaders :: "amqp_table option \<Rightarrow> amqp_table" where
  "extractTraceHeaders headers = (case headers of None \<Rightarrow> [] | Some t \<Rightarrow> t)"

section \<open>Collecting a batch (\<open>consumer.go\<close>)\<close>

datatype queue_event = Deliver amqp_delivery | DeliveriesClosed | CtxDone goerr | TimerFired

definition deliveries_closed :: goerr where
  "deliveries_closed = Errorf ''rmq: deliveries channel closed'' []"

text \<open>
  Both loops return \<open>None\<close> when the schedule ends before the code would return: the goroutine is
  still blocked. Otherwise the result comes with the rest of the schedule.
\<close>

fun collect_loop ::
  "int \<Rightarrow> amqp_delivery list \<Rightarrow> queue_event list \<Rightarrow> ((amqp_delivery list \<times> error) \<times> queue_event list) option" where
  "collect_loop maxN batch [] = (if int (length batch) < maxN then None else Some ((batch, None), []))"
| "collect_loop maxN batch (ev # evs) =
     (if int (length batch) < maxN then
        (case ev of
           CtxDone e \<Rightarrow> Some ((batch, Some e), evs)
         | TimerFired \<Rightarrow> Some ((batch, None), evs)
         | DeliveriesClosed \<Rightarrow> Some ((batch, Some deliveries_closed), evs)
         | Deliver d \<Rightarrow> collect_loop maxN (batch @ [d]) evs)
      else Some ((batch, None), ev # evs))"

fun first_select :: "queue_event list \<Rightarrow> ((goerr + amqp_delivery) \<times> queue_event list) option" where
  "first_select [] = None"
| "first_select (ev # evs) =
     (case ev of
        CtxDone e \<Rightarrow> Some (Inl e, evs)
      | Deliver d \<Rightarrow> Some (Inr d, evs)
      | DeliveriesClosed \<Rightarrow> Some (Inl deliveries_closed, evs)
      | TimerFired \<Rightarrow> first_select evs)"

definition CollectBatch ::
  "int \<Rightarrow> int \<Rightarrow> queue_event list \<Rightarrow> ((amqp_delivery list \<times> error) \<times> queue_event list) option" where
  "CollectBatch maxN maxWait evs =
     (if maxN < 1 then Some (([], Some (Errorf ''rmq: maxN must be >= 1'' [])), evs)
      else
        (let maxWait = (if maxWait < 0 then 0 else maxWait) in
         case first_select evs of
           None \<Rightarrow> None
         | Some (Inl e, rest) \<Rightarrow> Some (([], Some e), rest)
         | Some (Inr d, rest) \<Rightarrow>
             if maxN = 1 \<or> maxWait = 0 then Some (([d], None), rest)
             else collect_loop maxN [d] rest))"

section \<open>The library's operations on a channel\<close>

datatype confirmation = Confirmed bool | ConfirmCtxDone goerr

record amqp_message =
  am_exchange :: string
  am_key :: string
  am_headers :: amqp_table
  am_persistent :: bool
  am_content_type :: string
  am_body :: string

record 'w amqp =
  aq_Channel :: "'w \<Rightarrow> (goerr + nat) \<times> 'w"
  aq_Close :: "nat \<Rightarrow> 'w \<Rightarrow> error \<times> 'w"
  aq_Confirm :: "nat \<Rightarrow> 'w \<Rightarrow> error \<times> 'w"
  aq_Publish :: "nat \<Rightarrow> amqp_message \<Rightarrow> 'w \<Rightarrow> error \<times> 'w"
  aq_AwaitConfirm :: "nat \<Rightarrow> 'w \<Rightarrow> confirmation \<times> 'w"
  aq_QueueDeclare :: "nat \<Rightarrow> string \<Rightarrow> bool \<Rightarrow> amqp_table \<Rightarrow> 'w \<Rightarrow> error \<times> 'w"
  aq_Qos :: "nat \<Rightarrow> int \<Rightarrow> 'w \<Rightarrow> error \<times> 'w"
  aq_Consume :: "nat \<Rightarrow> string \<Rightarrow> 'w \<Rightarrow> error \<times> 'w"
  aq_trace_headers :: "'w \<Rightarrow> amqp_table"

section \<open>The publisher (\<open>publisher.go\<close>)\<close>

text \<open>\<open>defer ch.Close()\<close> with its error ignored: run at every return after the channel is open.\<close>

definition with_close :: "'w amqp \<Rightarrow> nat \<Rightarrow> error \<Rightarrow> 'w \<Rightarrow> error \<times> 'w" where
  "with_close Q ch err w = (err, snd (aq_Close Q ch w))"

definition message_for :: "string \<Rightarrow> amqp_table \<Rightarrow> string \<Rightarrow> amqp_message" where
  "message_for queue headers body = \<lparr>am_exchange = [], am_key = queue, am_headers = headers,
     am_persistent = True, am_content_type = ''application/json'', am_body = body\<rparr>"

definition PublishRaw :: "'w amqp \<Rightarrow> string \<Rightarrow> string \<Rightarrow> 'w \<Rightarrow> error \<times> 'w" where
  "PublishRaw Q queue body w =
     (case aq_Channel Q w of
        (Inl e, w1) \<Rightarrow> (Some (Wrapf ''open channel: %w'' [] e), w1)
      | (Inr ch, w1) \<Rightarrow>
          (case aq_Confirm Q ch w1 of
             (Some e, w2) \<Rightarrow> with_close Q ch (Some (Wrapf ''enable confirms: %w'' [] e)) w2
           | (None, w2) \<Rightarrow>
               (case aq_Publish Q ch (message_for queue (aq_trace_headers Q w2) body) w2 of
                  (Some e, w3) \<Rightarrow> with_close Q ch (Some (Wrapf ''publish to %s: %w'' [AStr queue] e)) w3
                | (None, w3) \<Rightarrow>
                    (case aq_AwaitConfirm Q ch w3 of
                       (Confirmed ack, w4) \<Rightarrow>
                         if \<not> ack then
                           with_close Q ch (Some (Errorf ''publish to %s: message nacked by broker'' [AStr queue])) w4
                         else with_close Q ch None w4
                     | (ConfirmCtxDone e, w4) \<Rightarrow> with_close Q ch (Some e) w4))))"

section \<open>Opening a consumer session\<close>

record queue_config =
  qc_Name :: string
  qc_Durable :: bool
  qc_Prefetch :: int
  qc_Args :: amqp_table

definition OpenConsumerSession :: "'w amqp \<Rightarrow> queue_config \<Rightarrow> 'w \<Rightarrow> (goerr + nat) \<times> 'w" where
  "OpenConsumerSession Q cfg w =
     (case aq_Channel Q w of
        (Inl e, w1) \<Rightarrow> (Inl (Wrapf ''open channel: %w'' [] e), w1)
      | (Inr ch, w1) \<Rightarrow>
          (case aq_QueueDeclare Q ch (qc_Name cfg) (qc_Durable cfg) (qc_Args cfg) w1 of
             (Some e, w2) \<Rightarrow>
               (Inl (Wrapf ''declare queue %s: %w'' [AStr (qc_Name cfg)] e), snd (aq_Close Q ch w2))
           | (None, w2) \<Rightarrow>
               (let prefetch = (if qc_Prefetch cfg \<le> 0 then 1 else qc_Prefetch cfg) in
                case aq_Qos Q ch prefetch w2 of
                  (Some e, w3) \<Rightarrow> (Inl (Wrapf ''set qos: %w'' [] e), snd (aq_Close Q ch w3))
                | (None, w3) \<Rightarrow>
                    (case aq_Consume Q ch (qc_Name cfg) w3 of
                       (Some e, w4) \<Rightarrow>
                         (Inl (Wrapf ''consume queue %s: %w'' [AStr (qc_Name cfg)] e), snd (aq_Close Q ch w4))
                     | (None, w4) \<Rightarrow> (Inr ch, w4)))))"

definition session_Close :: "'w amqp \<Rightarrow> nat option \<Rightarrow> 'w \<Rightarrow> error \<times> 'w" where
  "session_Close Q session w = (case session of None \<Rightarrow> (None, w) | Some ch \<Rightarrow> aq_Close Q ch w)"

text \<open>A session delivers the events of its queue; \<open>None\<close> is the nil session.\<close>

definition BatchConsume ::
  "queue_event list option \<Rightarrow> int \<Rightarrow> int \<Rightarrow> ((amqp_delivery list \<times> error) \<times> queue_event list) option" where
  "BatchConsume session maxN maxWait =
     (case session of
        None \<Rightarrow> Some (([], Some (Errorf ''rmq: nil consumer session'' [])), [])
      | Some evs \<Rightarrow> CollectBatch maxN maxWait evs)"

lemma BatchConsume_open [simp]: "BatchConsume (Some evs) n w = CollectBatch n w evs"
  by (simp add: BatchConsume_def)

text \<open>
  What the log shows of the broker's URL: \<open>net/url\<close> parses it, and the user is removed before it is printed.
\<close>

definition sanitizeURL :: "(string \<Rightarrow> 'u option) \<Rightarrow> ('u \<Rightarrow> 'u) \<Rightarrow> ('u \<Rightarrow> string) \<Rightarrow> string \<Rightarrow> string" where
  "sanitizeURL parse without_user redacted rawURL =
     (case parse rawURL of None \<Rightarrow> ''***'' | Some u \<Rightarrow> redacted (without_user u))"

lemma session_Close_simps [simp]:
  "session_Close Q None = Pair None" "session_Close Q (Some ch) = aq_Close Q ch"
  by (simp_all add: session_Close_def fun_eq_iff)

section \<open>Durations\<close>

definition wrap64 :: "int \<Rightarrow> int" where
  "wrap64 x = (x + 2 ^ 63) mod 2 ^ 64 - 2 ^ 63"

definition second :: int where "second = 1000000000"
definition millisecond :: int where "millisecond = 1000000"

definition next_backoff :: "int \<Rightarrow> int \<Rightarrow> int" where
  "next_backoff cap delay = min (wrap64 (delay * 2)) cap"

section \<open>The connection manager (\<open>connection.go\<close>)\<close>

text \<open>
  The manager's shared state and the program counter of the goroutine \<open>reconnectLoop\<close>: it waits for the
  loss of the connection (\<open>Watching\<close>), or for the delay before the next attempt (\<open>Waiting\<close>).
  The connection is \<open>None\<close> before the first dial, else it carries whether it is closed.
\<close>

datatype loop_pc = NotStarted | Watching | Waiting int | LoopDone

record conn_manager =
  cm_reconnectDelay :: int
  cm_conn :: "bool option"
  cm_closeRequested :: bool
  cm_loop :: loop_pc

definition defaultReconnectDelay :: int where
  "defaultReconnectDelay = 5 * second"

definition NewConnectionManager :: "int \<Rightarrow> conn_manager" where
  "NewConnectionManager delay =
     \<lparr>cm_reconnectDelay = (if delay = 0 then defaultReconnectDelay else delay), cm_conn = None,
      cm_closeRequested = False, cm_loop = NotStarted\<rparr>"

text \<open>\<open>dial\<close>: \<open>ctx_err\<close> is \<open>ctx.Err()\<close>, \<open>dialed\<close> the library's answer.\<close>

definition dial :: "error \<Rightarrow> error \<Rightarrow> conn_manager \<Rightarrow> error \<times> conn_manager" where
  "dial ctx_err dialed cm =
     (case ctx_err of
        Some e \<Rightarrow> (Some e, cm)
      | None \<Rightarrow> (case dialed of Some e \<Rightarrow> (Some e, cm) | None \<Rightarrow> (None, cm\<lparr>cm_conn := Some False\<rparr>)))"

definition Connect :: "error \<Rightarrow> error \<Rightarrow> conn_manager \<Rightarrow> error \<times> conn_manager" where
  "Connect ctx_err dialed cm =
     (case dial ctx_err dialed cm of
        (Some e, cm1) \<Rightarrow> (Some (Wrapf ''amqp initial connect: %w'' [] e), cm1)
      | (None, cm1) \<Rightarrow> (None, cm1\<lparr>cm_loop := Watching\<rparr>))"

definition IsConnected :: "conn_manager \<Rightarrow> bool" where
  "IsConnected cm \<longleftrightarrow> cm_conn cm = Some False"

definition cm_Channel :: "(goerr + nat) \<Rightarrow> conn_manager \<Rightarrow> goerr + nat" where
  "cm_Channel opened cm =
     (case cm_conn cm of
        None \<Rightarrow> Inl (Errorf ''amqp: connection not available'' [])
      | Some closed \<Rightarrow>
          if closed then Inl (Errorf ''amqp: connection not available'' []) else opened)"

text \<open>The parts of \<open>Close\<close>: it asks the loop to stop, and when the loop has stopped it closes.\<close>

definition request_close :: "conn_manager \<Rightarrow> conn_manager" where
  "request_close cm = cm\<lparr>cm_closeRequested := True\<rparr>"

definition finish_close :: "error \<Rightarrow> conn_manager \<Rightarrow> error \<times> conn_manager" where
  "finish_close closed_err cm =
     (case cm_conn cm of
        Some False \<Rightarrow> (closed_err, cm\<lparr>cm_conn := Some True\<rparr>)
      | _ \<Rightarrow> (None, cm))"

text \<open>
  What can happen to a running loop: the connection is lost, the delay elapses and the dial has a
  result, or the loop sees the close request. \<open>None\<close>: the event cannot be seen in this state.
\<close>

datatype loop_event = ConnectionLost | DelayElapsed error | SeesClose

definition loop_step :: "loop_event \<Rightarrow> conn_manager \<Rightarrow> conn_manager option" where
  "loop_step ev cm =
     (case cm_loop cm of
        Watching \<Rightarrow>
          (case ev of
             ConnectionLost \<Rightarrow> Some (cm\<lparr>cm_conn := Some True, cm_loop := Waiting (cm_reconnectDelay cm)\<rparr>)
           | SeesClose \<Rightarrow> if cm_closeRequested cm then Some (cm\<lparr>cm_loop := LoopDone\<rparr>) else None
           | DelayElapsed _ \<Rightarrow> None)
      | Waiting delay \<Rightarrow>
          (case ev of
             SeesClose \<Rightarrow> if cm_closeRequested cm then Some (cm\<lparr>cm_loop := LoopDone\<rparr>) else None
           | DelayElapsed dialed \<Rightarrow>
               (case dial None dialed cm of
                  (Some _, cm1) \<Rightarrow> Some (cm1\<lparr>cm_loop := Waiting (next_backoff (60 * second) delay)\<rparr>)
                | (None, cm1) \<Rightarrow> Some (cm1\<lparr>cm_loop := Watching\<rparr>))
           | ConnectionLost \<Rightarrow> None)
      | _ \<Rightarrow> None)"

fun loop_run :: "loop_event list \<Rightarrow> conn_manager \<Rightarrow> conn_manager option" where
  "loop_run [] cm = Some cm"
| "loop_run (ev # evs) cm = (case loop_step ev cm of None \<Rightarrow> None | Some cm' \<Rightarrow> loop_run evs cm')"

section \<open>Batches\<close>

definition delivered :: "queue_event list \<Rightarrow> amqp_delivery list" where
  "delivered evs = concat (map (\<lambda>ev. case ev of Deliver d \<Rightarrow> [d] | _ \<Rightarrow> []) evs)"

lemma delivered_simps [simp]:
  "delivered [] = []" "delivered (Deliver d # evs) = d # delivered evs"
  "delivered (CtxDone e # evs) = delivered evs" "delivered (TimerFired # evs) = delivered evs"
  "delivered (DeliveriesClosed # evs) = delivered evs"
  by (simp_all add: delivered_def)

lemma collect_loop_spec:
  assumes "collect_loop maxN batch evs = Some ((b, err), rest)"
  shows "b @ delivered rest = batch @ delivered evs \<and> prefix batch b
     \<and> int (length b) \<le> max maxN (int (length batch)) \<and> suffix rest evs"
  using assms
proof (induction maxN batch evs rule: collect_loop.induct)
  case (2 maxN batch ev evs)
  then show ?case
    by (cases ev) (auto split: if_splits simp: suffix_def prefix_def)
qed (auto split: if_splits)

lemma first_select_spec:
  assumes "first_select evs = Some (x, rest)"
  shows "delivered evs = (case x of Inr d \<Rightarrow> [d] | Inl _ \<Rightarrow> []) @ delivered rest \<and> suffix rest evs"
  using assms
proof (induction evs)
  case (Cons ev evs)
  then show ?case by (cases ev) (auto simp: suffix_def)
qed simp

lemma CollectBatch_conserves:
  assumes "CollectBatch maxN maxWait evs = Some ((batch, err), rest)"
  shows "batch @ delivered rest = delivered evs \<and> int (length batch) \<le> max maxN 0
     \<and> (err = None \<longrightarrow> batch \<noteq> []) \<and> suffix rest evs"
proof (cases "maxN < 1")
  case True
  then show ?thesis using assms by (auto simp: CollectBatch_def)
next
  case False
  then obtain x rest1 where x: "first_select evs = Some (x, rest1)"
    using assms by (auto simp: CollectBatch_def split: option.splits)
  note first = first_select_spec [OF x]
  show ?thesis
  proof (cases x)
    case (Inl e)
    then show ?thesis using assms False x first by (auto simp: CollectBatch_def)
  next
    case (Inr d)
    show ?thesis
    proof (cases "maxN = 1 \<or> maxWait \<le> 0")
      case True
      then have "batch = [d]" "rest = rest1"
        using assms False x Inr by (auto simp: CollectBatch_def split: if_splits)
      then show ?thesis using False first Inr by simp
    next
      case more: False
      then have "collect_loop maxN [d] rest1 = Some ((batch, err), rest)"
        using assms False x Inr by (simp add: CollectBatch_def split: if_splits)
      from collect_loop_spec [OF this] show ?thesis
        using False first Inr by (auto simp: prefix_def intro: suffix_order.order_trans)
    qed
  qed
qed

text \<open>
  A batch loses nothing: whatever the schedule, the batch and the deliveries still to come are
  the deliveries of the schedule in their order; the batch has at most \<open>maxN\<close> of them, and at least
  one when there is no error.
\<close>

theorem collect_batch_sound:
  assumes "CollectBatch maxN maxWait evs = Some ((batch, err), rest)"
  shows "batch @ delivered rest = delivered evs \<and> int (length batch) \<le> max maxN 0
     \<and> (err = None \<longrightarrow> batch \<noteq> []) \<and> suffix rest evs"
  using assms by (rule CollectBatch_conserves)

definition sample_delivery :: "nat \<Rightarrow> string \<Rightarrow> amqp_delivery" where
  "sample_delivery tag body = \<lparr>dl_Headers = [], dl_Redelivered = False, dl_DeliveryTag = tag, dl_Body = body\<rparr>"

theorem collect_batch_sound_witness:
  "CollectBatch 50 5 [TimerFired, Deliver (sample_delivery 1 ''x''), Deliver (sample_delivery 2 ''y''), TimerFired]
     = Some (([sample_delivery 1 ''x'', sample_delivery 2 ''y''], None), [])
   \<and> int (length [sample_delivery 1 ''x'', sample_delivery 2 ''y'']) \<le> max 50 0"
proof -
  have "CollectBatch 50 5 [TimerFired, Deliver (sample_delivery 1 ''x''), Deliver (sample_delivery 2 ''y''), TimerFired]
     = Some (([sample_delivery 1 ''x'', sample_delivery 2 ''y''], None), [])"
    by (simp add: CollectBatch_def)
  with collect_batch_sound [OF this] show ?thesis by blast
qed

section \<open>Publishing\<close>

text \<open>
  \<open>PublishRaw\<close> returns nil exactly when the channel was opened in confirm mode, the broker took the
  persistent message addressed to the queue and acknowledged it; and on every path on which a
  channel was opened, closing it is the last thing it does.
\<close>

theorem publish_confirmed:
  "(fst (PublishRaw Q queue body w) = None \<longleftrightarrow>
      (\<exists>ch w1 w2 w3 w4. aq_Channel Q w = (Inr ch, w1) \<and> aq_Confirm Q ch w1 = (None, w2)
         \<and> aq_Publish Q ch (message_for queue (aq_trace_headers Q w2) body) w2 = (None, w3)
         \<and> aq_AwaitConfirm Q ch w3 = (Confirmed True, w4)))
   \<and> (case aq_Channel Q w of
        (Inl e, w1) \<Rightarrow> PublishRaw Q queue body w = (Some (Wrapf ''open channel: %w'' [] e), w1)
      | (Inr ch, w1) \<Rightarrow> \<exists>w'. snd (PublishRaw Q queue body w) = snd (aq_Close Q ch w'))"
  by (cases "aq_Channel Q w")
     (auto simp: PublishRaw_def with_close_def split: sum.split prod.split option.split confirmation.split)

section \<open>Reconnecting\<close>

text \<open>What holds of the manager after a successful \<open>Connect\<close>, whatever happens to the loop.\<close>

definition cm_inv :: "conn_manager \<Rightarrow> bool" where
  "cm_inv cm \<longleftrightarrow> 0 < cm_reconnectDelay cm \<and> cm_reconnectDelay cm \<le> 60 * second
     \<and> (case cm_loop cm of
          NotStarted \<Rightarrow> False
        | Watching \<Rightarrow> cm_conn cm = Some False
        | Waiting delay \<Rightarrow> cm_conn cm = Some True \<and> cm_reconnectDelay cm \<le> delay \<and> delay \<le> 60 * second
        | LoopDone \<Rightarrow> cm_conn cm \<noteq> None \<and> cm_closeRequested cm)"

lemma next_backoff_bounds:
  "0 < delay \<Longrightarrow> delay \<le> cap \<Longrightarrow> cap \<le> 60 * second \<Longrightarrow> next_backoff cap delay = min (2 * delay) cap"
  by (simp add: next_backoff_def wrap64_def second_def)

lemma loop_step_inv: "loop_step ev cm = Some cm' \<Longrightarrow> cm_inv cm \<Longrightarrow> cm_inv cm'"
proof (cases "cm_loop cm")
  case (Waiting delay)
  assume step: "loop_step ev cm = Some cm'" and inv: "cm_inv cm"
  then have d: "0 < delay" "delay \<le> 60 * second" "cm_reconnectDelay cm \<le> delay" "cm_reconnectDelay cm \<le> 60 * second"
    using Waiting by (auto simp: cm_inv_def)
  have "cm_reconnectDelay cm \<le> min (2 * delay) (60 * second)" using d by auto
  then show ?thesis
    using step inv Waiting next_backoff_bounds [OF d(1,2)]
    by (auto simp: loop_step_def cm_inv_def dial_def split: loop_event.splits option.splits if_splits)
qed (auto simp: loop_step_def cm_inv_def split: loop_event.splits if_splits)

lemma loop_run_inv: "loop_run evs cm = Some cm' \<Longrightarrow> cm_inv cm \<Longrightarrow> cm_inv cm'"
  by (induction evs cm rule: loop_run.induct) (auto split: option.splits dest: loop_step_inv)

lemma min_doubled:
  fixes c delay :: int
  assumes "0 \<le> c"
  shows "min (2 ^ k * min (2 * delay) c) c = min (2 ^ Suc k * delay) c"
proof (cases "2 * delay \<le> c")
  case True
  then show ?thesis by (simp add: min_def ac_simps)
next
  case False
  have one: "c \<le> 2 ^ k * c"
    using mult_right_mono [of 1 "2 ^ k" c] assms by simp
  have "2 ^ k * c \<le> 2 ^ k * (2 * delay)" using False by (intro mult_left_mono) auto
  moreover have "2 ^ k * (2 * delay) = 2 ^ Suc k * delay" by simp
  ultimately have "c \<le> 2 ^ Suc k * delay" using one by linarith
  then show ?thesis using False one by (simp add: min_def)
qed

lemma failed_dials:
  "cm_loop cm = Waiting delay \<Longrightarrow> 0 < delay \<Longrightarrow> delay \<le> 60 * second \<Longrightarrow>
     \<exists>cm'. loop_run (replicate k (DelayElapsed (Some e))) cm = Some cm'
       \<and> cm_loop cm' = Waiting (min (2 ^ k * delay) (60 * second)) \<and> cm_conn cm' = cm_conn cm"
proof (induction k arbitrary: cm delay)
  case (Suc k)
  let ?next = "min (2 * delay) (60 * second)"
  have step: "loop_step (DelayElapsed (Some e)) cm = Some (cm\<lparr>cm_loop := Waiting ?next\<rparr>)"
    using Suc.prems by (simp add: loop_step_def dial_def next_backoff_bounds)
  have "0 < ?next" "?next \<le> 60 * second" using Suc.prems by (auto simp: second_def)
  from Suc.IH [OF _ this, of "cm\<lparr>cm_loop := Waiting ?next\<rparr>"] obtain cm' where
    "loop_run (replicate k (DelayElapsed (Some e))) (cm\<lparr>cm_loop := Waiting ?next\<rparr>) = Some cm'"
    "cm_loop cm' = Waiting (min (2 ^ k * ?next) (60 * second))" "cm_conn cm' = cm_conn cm"
    by auto
  moreover have "min (2 ^ k * ?next) (60 * second) = min (2 ^ Suc k * delay) (60 * second)"
    by (rule min_doubled) (simp add: second_def)
  ultimately show ?case using step by simp
qed simp



end
