(* ===== verification/Consumer.thy ===== *)
theory Consumer
  imports DispatchProps Rmq Config
begin

text \<open>
  \<open>internal/consumer/runner.go\<close>: the loop that takes batches from the queue, dispatches each message
  and settles it with the broker. The state keeps the dispatcher's environment, the acknowledgement
  calls in their order (the code ignores or only logs their errors) and the consumer's metrics.
  What the queue delivers is the schedule of \<open>Rmq\<close>.
\<close>

datatype ack_call = Ack nat bool | Nack nat bool bool

record 'w consumer_state =
  cs_env :: "'w env"
  cs_calls :: "ack_call list"
  cs_errors :: "string list"
  cs_seen :: nat
  cs_batches :: "nat list"

definition count_error :: "string \<Rightarrow> 'w consumer_state \<Rightarrow> 'w consumer_state" where
  "count_error label s = s\<lparr>cs_errors := cs_errors s @ [label]\<rparr>"

definition call :: "ack_call \<Rightarrow> 'w consumer_state \<Rightarrow> 'w consumer_state" where
  "call c s = s\<lparr>cs_calls := cs_calls s @ [c]\<rparr>"

section \<open>Decoding a batch\<close>

definition deathCount :: "amqp_delivery \<Rightarrow> int" where
  "deathCount d =
     (case go_get (dl_Headers d) ''x-death'' of
        None \<Rightarrow> (if dl_Redelivered d then 1 else 0)
      | Some xDeath \<Rightarrow>
          (case xDeath of
             TList deaths \<Rightarrow>
               (case deaths of
                  [] \<Rightarrow> 0
                | first # _ \<Rightarrow>
                    (case first of
                       TTable t \<Rightarrow> (case go_get t ''count'' of Some (TInt64 k) \<Rightarrow> k | _ \<Rightarrow> 0)
                     | _ \<Rightarrow> 0))
           | _ \<Rightarrow> 0))"

definition too_often :: "int \<Rightarrow> amqp_delivery \<Rightarrow> bool" where
  "too_often maxRedeliver d \<longleftrightarrow> maxRedeliver > 0 \<and> deathCount d \<ge> maxRedeliver"

fun decodeBatch ::
  "int \<Rightarrow> amqp_delivery list \<Rightarrow> 'w consumer_state
     \<Rightarrow> (notification list \<times> amqp_delivery list \<times> amqp_delivery list) \<times> 'w consumer_state" where
  "decodeBatch maxRedeliver [] s = (([], [], []), s)"
| "decodeBatch maxRedeliver (d # ds) s =
     (if too_often maxRedeliver d then
        (case decodeBatch maxRedeliver ds (count_error ''dlq'' s) of
           ((ns, good, poison), s') \<Rightarrow> ((ns, good, d # poison), s'))
      else
        (case unmarshal_notification (dl_Body d) of
           None \<Rightarrow>
             (case decodeBatch maxRedeliver ds (count_error ''decode_error'' s) of
                ((ns, good, poison), s') \<Rightarrow> ((ns, good, d # poison), s'))
         | Some n \<Rightarrow>
             (case decodeBatch maxRedeliver ds s of
                ((ns, good, poison), s') \<Rightarrow> ((n # ns, d # good, poison), s'))))"

section \<open>Settling\<close>

definition shouldAckAfterDispatchError :: "error \<Rightarrow> bool" where
  "shouldAckAfterDispatchError err = IsPermanentChannelOnly err ChannelWebPush"

definition settle_one ::
  "(string \<Rightarrow> bool) \<Rightarrow> 'w dispatcher \<Rightarrow> notification \<Rightarrow> amqp_delivery \<Rightarrow> 'w consumer_state \<Rightarrow> 'w consumer_state" where
  "settle_one uuid_ok d n dl s =
     (case Dispatch uuid_ok d (Some n) (cs_env s) of
        ((err, _), e) \<Rightarrow>
          (let s1 = s\<lparr>cs_env := e\<rparr> in
           if err \<noteq> None then
             (if shouldAckAfterDispatchError err then
                call (Ack (dl_DeliveryTag dl) False) (count_error ''web_push_permanent'' s1)
              else call (Nack (dl_DeliveryTag dl) False True) (count_error ''dispatch_error'' s1))
           else call (Ack (dl_DeliveryTag dl) False) s1))"

fun dispatch_loop ::
  "(string \<Rightarrow> bool) \<Rightarrow> 'w dispatcher \<Rightarrow> (notification \<times> amqp_delivery) list \<Rightarrow> 'w consumer_state \<Rightarrow> 'w consumer_state" where
  "dispatch_loop uuid_ok d [] s = s"
| "dispatch_loop uuid_ok d ((n, dl) # rest) s = dispatch_loop uuid_ok d rest (settle_one uuid_ok d n dl s)"

definition process_batch ::
  "(string \<Rightarrow> bool) \<Rightarrow> 'w dispatcher \<Rightarrow> int \<Rightarrow> amqp_delivery list \<Rightarrow> 'w consumer_state \<Rightarrow> 'w consumer_state" where
  "process_batch uuid_ok d maxRedeliver deliveries s =
     (case decodeBatch maxRedeliver deliveries s of
        ((ns, good, poison), s1) \<Rightarrow>
          (let s2 = fold (\<lambda>p. call (Nack (dl_DeliveryTag p) False False)) poison s1 in
           if length ns = 0 then s2
           else
             (let s3 = s2\<lparr>cs_batches := cs_batches s2 @ [length ns],
                          cs_seen := cs_seen s2 + length ns\<rparr>
              in dispatch_loop uuid_ok d (zip ns good) s3)))"

section \<open>A session\<close>

lemma collect_loop_shrinks:
  "collect_loop maxN batch evs = Some (r, rest) \<Longrightarrow> length rest \<le> length evs"
  by (induction maxN batch evs rule: collect_loop.induct) (auto split: if_splits queue_event.splits)

lemma first_select_shrinks: "first_select evs = Some (x, rest) \<Longrightarrow> length rest < length evs"
  by (induction evs) (auto split: queue_event.splits)

lemma CollectBatch_shrinks:
  assumes "CollectBatch maxN maxWait evs = Some ((batch, None), rest)"
  shows "length rest < length evs"
proof -
  have "\<not> maxN < 1" using assms by (auto simp: CollectBatch_def)
  then obtain x rest1 where x: "first_select evs = Some (x, rest1)"
    using assms by (auto simp: CollectBatch_def split: option.splits)
  then have "length rest \<le> length rest1"
    using assms \<open>\<not> maxN < 1\<close> collect_loop_shrinks
    by (cases x) (auto simp: CollectBatch_def Let_def split: if_splits)
  with first_select_shrinks [OF x] show ?thesis by simp
qed

text \<open>
  The loop of \<open>runSession\<close>. At its top it looks whether the context is done, without waiting;
  \<open>None\<close> is a session that is still running when the schedule ends.
\<close>

function session_loop ::
  "(string \<Rightarrow> bool) \<Rightarrow> 'w dispatcher \<Rightarrow> consumer_config \<Rightarrow> queue_event list \<Rightarrow> 'w consumer_state
     \<Rightarrow> (goerr \<times> 'w consumer_state \<times> queue_event list) option" where
  "session_loop uuid_ok d ccfg evs s =
     (case evs of
        CtxDone e # rest \<Rightarrow> Some (e, s, rest)
      | _ \<Rightarrow>
          (case BatchConsume (Some evs) (co_BatchSize ccfg) (co_FlushInterval ccfg) of
             None \<Rightarrow> None
           | Some ((deliveries, Some e), rest) \<Rightarrow> Some (e, s, rest)
           | Some ((deliveries, None), rest) \<Rightarrow>
               session_loop uuid_ok d ccfg rest
                 (if length deliveries = 0 then s
                  else process_batch uuid_ok d (co_MaxRedeliveries ccfg) deliveries s)))"
  by pat_completeness auto
termination
  by (relation "measure (\<lambda>(_, _, _, evs, _). length evs)") (auto dest: CollectBatch_shrinks)

declare session_loop.simps [simp del]

definition session_queue :: "consumer_config \<Rightarrow> queue_config" where
  "session_queue ccfg =
     \<lparr>qc_Name = cq_Name (co_Queue ccfg), qc_Durable = cq_Durable (co_Queue ccfg),
      qc_Prefetch = cq_Prefetch (co_Queue ccfg),
      qc_Args = [(''x-dead-letter-exchange'', TStr []),
                 (''x-dead-letter-routing-key'', TStr (cd_Name (co_DLQ ccfg)))]\<rparr>"

text \<open>The session is closed by a deferred call whenever it was opened.\<close>

definition runSession ::
  "(string \<Rightarrow> bool) \<Rightarrow> 'w amqp \<Rightarrow> 'w dispatcher \<Rightarrow> consumer_config \<Rightarrow> queue_event list \<Rightarrow> 'w consumer_state
     \<Rightarrow> (error \<times> 'w consumer_state \<times> queue_event list) option" where
  "runSession uuid_ok Q d ccfg evs s =
     (case in_world (OpenConsumerSession Q (session_queue ccfg)) (cs_env s) of
        (Inl e, env1) \<Rightarrow> Some (Some e, s\<lparr>cs_env := env1\<rparr>, evs)
      | (Inr ch, env1) \<Rightarrow>
          (case session_loop uuid_ok d ccfg evs (s\<lparr>cs_env := env1\<rparr>) of
             None \<Rightarrow> None
           | Some (e, s2, rest) \<Rightarrow>
               Some (Some e, s2\<lparr>cs_env := snd (in_world (session_Close Q (Some ch)) (cs_env s2))\<rparr>, rest)))"

section \<open>The sessions of the consumer\<close>

text \<open>
  How a session ended, as \<open>Run\<close> sees it: its error, whether the context is done by then, and whether it
  becomes done while \<open>Run\<close> waits. The result is the list of the waits before the next session.
\<close>

record session_end =
  se_err :: error
  se_ctx_done :: bool
  se_ctx_done_waiting :: bool

definition context_Canceled :: goerr where
  "context_Canceled = Sentinel ''context canceled''"

fun Run_loop :: "int \<Rightarrow> session_end list \<Rightarrow> int list" where
  "Run_loop backoff [] = []"
| "Run_loop backoff (se # rest) =
     (case se_err se of
        Some e \<Rightarrow>
          if se_ctx_done se \<or> errors_is e context_Canceled then []
          else backoff # (if se_ctx_done_waiting se then []
                          else Run_loop (next_backoff (30 * second) backoff) rest)
      | None \<Rightarrow> Run_loop second rest)"

definition Run :: "session_end list \<Rightarrow> int list" where
  "Run ends = Run_loop second ends"

end
