(* ===== verification/Http.thy ===== *)
theory Http
  imports Domain
begin

text \<open>
  What the HTTP handlers share: the parts of a request they read, the responses they write, and
  \<open>internal/httpauth/subject.go\<close>. The gateway's middleware (third-party) has put an identity into the
  request's context or not: it is the subject's text. \<open>httpx.ReadJSON\<close> (third-party) has decoded the
  body into the handler's struct or failed: its result is an argument of the handlers that
  read a body. \<open>uuid.Parse\<close> is the test \<open>uuid_ok\<close>.
\<close>

record request =
  hr_identity :: "string option"
  hr_id :: string
  hr_query :: "string \<Rightarrow> string"

datatype body_val =
    BStr string
  | BInt int
  | BDeliveries "delivery list"
  | BPreferences "preference list"

datatype response =
    WriteError goerr
  | WriteJSON int "(string \<times> body_val) list"
  | WriteHeader int

definition StatusOK :: int where "StatusOK = 200"
definition StatusAccepted :: int where "StatusAccepted = 202"
definition StatusNoContent :: int where "StatusNoContent = 204"

definition SubjectFromRequest :: "(string \<Rightarrow> bool) \<Rightarrow> request \<Rightarrow> goerr + string" where
  "SubjectFromRequest uuid_ok r =
     (case hr_identity r of
        None \<Rightarrow> Inl (CsarError Unauthorized ''missing gateway subject'' [])
      | Some subject \<Rightarrow>
          if subject = [] then Inl (CsarError Unauthorized ''missing gateway subject'' [])
          else if \<not> uuid_ok subject then
            Inl (CsarError Unauthorized ''gateway subject must be a valid UUID'' [])
          else Inr subject)"

definition unauthorized :: "goerr \<Rightarrow> bool" where
  "unauthorized e = (case e of CsarError k _ _ \<Rightarrow> k = Unauthorized | _ \<Rightarrow> False)"

lemma subject_cases:
  obtains (rejected) e where "SubjectFromRequest uuid_ok r = Inl e" "unauthorized e"
  | (accepted) u where "SubjectFromRequest uuid_ok r = Inr u" "hr_identity r = Some u" "uuid_ok u" "u \<noteq> []"
proof -
  have "(\<exists>e. SubjectFromRequest uuid_ok r = Inl e \<and> unauthorized e)
      \<or> (\<exists>u. SubjectFromRequest uuid_ok r = Inr u \<and> hr_identity r = Some u \<and> uuid_ok u \<and> u \<noteq> [])"
    by (cases "hr_identity r") (simp_all add: SubjectFromRequest_def unauthorized_def)
  then show thesis using rejected accepted by blast
qed

text \<open>A handler that needs a subject answers with an error of kind unauthorized, or acts for
  the identity of the request.\<close>

definition with_subject ::
  "(string \<Rightarrow> bool) \<Rightarrow> request \<Rightarrow> (string \<Rightarrow> 's \<Rightarrow> response \<times> 's) \<Rightarrow> 's \<Rightarrow> response \<times> 's" where
  "with_subject uuid_ok r body s =
     (case SubjectFromRequest uuid_ok r of Inl err \<Rightarrow> (WriteError err, s) | Inr subject \<Rightarrow> body subject s)"

end
