(* ===== verification/Pipeline.thy ===== *)
theory Pipeline
  imports Domain Rmq
begin

text \<open>
  \<open>internal/pipeline/buffer.go\<close>: the bounded buffer between the HTTP intake and the queue, with its
  publishing workers. The Go channel is the list of its elements; a send on a closed channel
  panics. A worker takes an element and publishes it with retries; publishing is the
  operation \<open>pub\<close> on a world \<open>'w\<close> (\<open>PublishRaw\<close> of \<open>Rmq\<close>). \<open>json.Marshal\<close> of a notification, which
  consists of strings, cannot fail: the branch for its error does not arise.
\<close>

definition ErrFull :: goerr where
  "ErrFull = Sentinel ''notify pipeline buffer full''"

datatype worker = Idle | Busy notification | Stopped

record buffer =
  bf_ch :: "notification list"
  bf_capacity :: nat
  bf_closed :: bool
  bf_workers :: "worker list"
  bf_EventsPublished :: nat
  bf_EventsDropped :: "string list"

definition NewBuffer :: "int \<Rightarrow> int \<Rightarrow> buffer" where
  "NewBuffer depth workers =
     (let depth = (if depth < 1 then 1 else depth); workers = (if workers < 1 then 1 else workers)
      in \<lparr>bf_ch = [], bf_capacity = nat depth, bf_closed = False, bf_workers = replicate (nat workers) Idle,
          bf_EventsPublished = 0, bf_EventsDropped = []\<rparr>)"

definition buffer_Depth :: "buffer \<Rightarrow> int" where
  "buffer_Depth b = int (length (bf_ch b))"

definition buffer_Capacity :: "buffer \<Rightarrow> int" where
  "buffer_Capacity b = int (bf_capacity b)"

text \<open>The outcome of a call that can panic: \<open>None\<close> is the panic.\<close>

definition Submit :: "notification option \<Rightarrow> buffer \<Rightarrow> (error \<times> buffer) option" where
  "Submit np b =
     (case np of
        None \<Rightarrow> Some (Some (Errorf ''nil notification'' []), b)
      | Some n \<Rightarrow>
          if bf_closed b then None
          else if length (bf_ch b) < bf_capacity b then Some (None, b\<lparr>bf_ch := bf_ch b @ [n]\<rparr>)
          else Some (Some ErrFull, b\<lparr>bf_EventsDropped := bf_EventsDropped b @ [''buffer_full'']\<rparr>))"

text \<open>
  \<open>Close\<close> closes the channel, which panics when it is closed already, and waits for the workers; it
  returns when the second test holds.
\<close>

definition buffer_Close :: "buffer \<Rightarrow> buffer option" where
  "buffer_Close b = (if bf_closed b then None else Some (b\<lparr>bf_closed := True\<rparr>))"

definition workers_done :: "buffer \<Rightarrow> bool" where
  "workers_done b \<longleftrightarrow> list_all (\<lambda>x. x = Stopped) (bf_workers b)"

section \<open>Publishing with retries\<close>

text \<open>
  The loop over the attempts; before each attempt but the first the worker sleeps. The result is
  whether the message was published, the sleeps, and the world.
\<close>

fun attempt_loop :: "('w \<Rightarrow> error \<times> 'w) \<Rightarrow> nat list \<Rightarrow> int \<Rightarrow> 'w \<Rightarrow> bool \<times> int list \<times> 'w" where
  "attempt_loop pub [] backoff w = (False, [], w)"
| "attempt_loop pub (attempt # rest) backoff w =
     (let sleep = (if attempt > 0 then [backoff] else []);
          backoff = (if attempt > 0 then next_backoff (5 * second) backoff else backoff);
          (err, w1) = pub w
      in if err = None then (True, sleep, w1)
         else (case attempt_loop pub rest backoff w1 of (ok, sleeps, w2) \<Rightarrow> (ok, sleep @ sleeps, w2)))"

definition maxAttempts :: nat where "maxAttempts = 4"

definition publishWithRetry ::
  "(string \<Rightarrow> 'w \<Rightarrow> error \<times> 'w) \<Rightarrow> notification \<Rightarrow> 'w \<Rightarrow> bool \<times> int list \<times> 'w" where
  "publishWithRetry pub n w =
     attempt_loop (pub (marshal_notification n)) [0..<maxAttempts] (100 * millisecond) w"

section \<open>The buffer at work\<close>

text \<open>
  The actions of the goroutines: a caller submits, worker \<open>i\<close> takes the next element, finishes the one it
  has, or stops because the closed channel is drained, and the owner closes. An action that
  cannot happen in a state is \<open>None\<close>. The events say what became of each notification.
\<close>

datatype action = DoSubmit "notification option" | DoTake nat | DoFinish nat | DoStop nat | DoClose

datatype buffer_event = Accepted notification | Refused notification | Published notification | Lost notification

definition finish ::
  "nat \<Rightarrow> notification \<Rightarrow> bool \<Rightarrow> buffer \<Rightarrow> buffer_event list \<times> buffer" where
  "finish i n ok b =
     (if ok then ([Published n], b\<lparr>bf_workers := (bf_workers b)[i := Idle],
                                   bf_EventsPublished := bf_EventsPublished b + 1\<rparr>)
      else ([Lost n], b\<lparr>bf_workers := (bf_workers b)[i := Idle],
                        bf_EventsDropped := bf_EventsDropped b @ [''publish_error'']\<rparr>))"

fun pipe_step ::
  "(string \<Rightarrow> 'w \<Rightarrow> error \<times> 'w) \<Rightarrow> action \<Rightarrow> buffer \<times> 'w \<Rightarrow> (buffer_event list \<times> buffer \<times> 'w) option" where
  "pipe_step pub (DoSubmit np) (b, w) =
     (case Submit np b of
        None \<Rightarrow> None
      | Some (err, b') \<Rightarrow>
          Some (case np of None \<Rightarrow> [] | Some n \<Rightarrow> if err = None then [Accepted n] else [Refused n], b', w))"
| "pipe_step pub (DoTake i) (b, w) =
     (if i < length (bf_workers b) \<and> bf_workers b ! i = Idle then
        (case bf_ch b of
           [] \<Rightarrow> None
         | n # ns \<Rightarrow> Some ([], b\<lparr>bf_ch := ns, bf_workers := (bf_workers b)[i := Busy n]\<rparr>, w))
      else None)"
| "pipe_step pub (DoFinish i) (b, w) =
     (if i < length (bf_workers b) then
        (case bf_workers b ! i of
           Busy n \<Rightarrow>
             (case publishWithRetry pub n w of
                (ok, _, w') \<Rightarrow> (case finish i n ok b of (evs, b') \<Rightarrow> Some (evs, b', w')))
         | _ \<Rightarrow> None)
      else None)"
| "pipe_step pub (DoStop i) (b, w) =
     (if i < length (bf_workers b) \<and> bf_workers b ! i = Idle \<and> bf_closed b \<and> bf_ch b = [] then
        Some ([], b\<lparr>bf_workers := (bf_workers b)[i := Stopped]\<rparr>, w)
      else None)"
| "pipe_step pub DoClose (b, w) = (case buffer_Close b of None \<Rightarrow> None | Some b' \<Rightarrow> Some ([], b', w))"

declare buffer_Close_def [simp]

fun pipe_run ::
  "(string \<Rightarrow> 'w \<Rightarrow> error \<times> 'w) \<Rightarrow> action list \<Rightarrow> buffer \<times> 'w \<Rightarrow> (buffer_event list \<times> buffer \<times> 'w) option" where
  "pipe_run pub [] s = Some ([], s)"
| "pipe_run pub (a # as) s =
     (case pipe_step pub a s of
        None \<Rightarrow> None
      | Some (evs, s1) \<Rightarrow> (case pipe_run pub as s1 of None \<Rightarrow> None | Some (evs', s2) \<Rightarrow> Some (evs @ evs', s2)))"

section \<open>Retries\<close>

definition tries :: "('w \<Rightarrow> error \<times> 'w) \<Rightarrow> nat \<Rightarrow> 'w \<Rightarrow> error" where
  "tries pub k w = fst (pub (((\<lambda>w. snd (pub w)) ^^ k) w))"

text \<open>
  C34: one message: it is tried at most four times, with pauses of 100, 200 and 400 milliseconds, until
  the first attempt that succeeds; it is published exactly when one of the four does. The
  number of failed attempts before is \<open>k\<close>.
\<close>

theorem publish_retries:
  "let p = pub (marshal_notification n);
       k = length (takeWhile (\<lambda>j. tries p j w \<noteq> None) [0..<4])
   in publishWithRetry pub n w =
        (k < 4, take (min k 3) [100 * millisecond, 200 * millisecond, 400 * millisecond],
         ((\<lambda>w. snd (p w)) ^^ (min (k + 1) 4)) w)"
proof -
  let ?p = "pub (marshal_notification n)"
  obtain e0 w1 where 0: "?p w = (e0, w1)" by fastforce
  obtain e1 w2 where 1: "?p w1 = (e1, w2)" by fastforce
  obtain e2 w3 where 2: "?p w2 = (e2, w3)" by fastforce
  obtain e3 w4 where 3: "?p w3 = (e3, w4)" by fastforce
  have b: "next_backoff (5 * second) (100 * millisecond) = 200 * millisecond"
    "next_backoff (5 * second) (200 * millisecond) = 400 * millisecond"
    by (simp_all add: next_backoff_def wrap64_def second_def millisecond_def)
  have up: "[0..<4] = [0, 1, 2, 3 :: nat]" by (simp add: upt_rec)
  have t: "tries ?p 0 w = e0" "tries ?p (Suc 0) w = e1" "tries ?p (Suc (Suc 0)) w = e2"
      "tries ?p (Suc (Suc (Suc 0))) w = e3"
    by (simp_all add: tries_def 0 1 2 3)
  show ?thesis
    unfolding Let_def publishWithRetry_def maxAttempts_def up
    by (cases e0; cases e1; cases e2; cases e3)
       (simp_all add: 0 1 2 3 b t eval_nat_numeral)
qed

section \<open>Nothing is lost on the way\<close>

definition accepted :: "buffer_event list \<Rightarrow> notification multiset" where
  "accepted evs = mset (List.map_filter (\<lambda>ev. case ev of Accepted n \<Rightarrow> Some n | _ \<Rightarrow> None) evs)"

definition published :: "buffer_event list \<Rightarrow> notification multiset" where
  "published evs = mset (List.map_filter (\<lambda>ev. case ev of Published n \<Rightarrow> Some n | _ \<Rightarrow> None) evs)"

definition lost :: "buffer_event list \<Rightarrow> notification multiset" where
  "lost evs = mset (List.map_filter (\<lambda>ev. case ev of Lost n \<Rightarrow> Some n | _ \<Rightarrow> None) evs)"

definition in_flight :: "buffer \<Rightarrow> notification multiset" where
  "in_flight b = mset (List.map_filter (\<lambda>x. case x of Busy n \<Rightarrow> Some n | _ \<Rightarrow> None) (bf_workers b))"

definition drop_labels :: "buffer_event list \<Rightarrow> string list" where
  "drop_labels evs = List.map_filter
     (\<lambda>ev. case ev of Refused n \<Rightarrow> Some ''buffer_full'' | Lost n \<Rightarrow> Some ''publish_error'' | _ \<Rightarrow> None) evs"

lemma accounts_append [simp]:
  "accepted (evs @ evs') = accepted evs + accepted evs'"
  "published (evs @ evs') = published evs + published evs'"
  "lost (evs @ evs') = lost evs + lost evs'"
  "drop_labels (evs @ evs') = drop_labels evs @ drop_labels evs'"
  by (simp_all add: accepted_def published_def lost_def drop_labels_def map_filter_append)

lemma accounts_single [simp]:
  "accepted [] = {#}" "published [] = {#}" "lost [] = {#}" "drop_labels [] = []"
  "accepted [Accepted n] = {#n#}" "published [Accepted n] = {#}" "lost [Accepted n] = {#}" "drop_labels [Accepted n] = []"
  "accepted [Refused n] = {#}" "published [Refused n] = {#}" "lost [Refused n] = {#}" "drop_labels [Refused n] = [''buffer_full'']"
  "accepted [Published n] = {#}" "published [Published n] = {#n#}" "lost [Published n] = {#}" "drop_labels [Published n] = []"
  "accepted [Lost n] = {#}" "published [Lost n] = {#}" "lost [Lost n] = {#n#}" "drop_labels [Lost n] = [''publish_error'']"
  by (simp_all add: accepted_def published_def lost_def drop_labels_def map_filter_simps)

lemma in_flight_update:
  assumes "i < length (bf_workers b)"
  shows "in_flight (b\<lparr>bf_workers := (bf_workers b)[i := x]\<rparr>)
           + (case bf_workers b ! i of Busy n \<Rightarrow> {#n#} | _ \<Rightarrow> {#})
       = in_flight b + (case x of Busy n \<Rightarrow> {#n#} | _ \<Rightarrow> {#})"
proof -
  let ?f = "\<lambda>x. case x of Busy n \<Rightarrow> Some n | _ \<Rightarrow> None"
  have one: "mset (List.map_filter ?f [y]) = (case y of Busy n \<Rightarrow> {#n#} | _ \<Rightarrow> {#})" for y
    by (cases y) (simp_all add: map_filter_simps)
  have split: "xs[i := y] = take i xs @ [y] @ drop (Suc i) xs" if "i < length xs" for xs :: "worker list" and y
    using that by (simp add: upd_conv_take_nth_drop)
  have "mset (List.map_filter ?f ((bf_workers b)[i := y]))
      = mset (List.map_filter ?f (take i (bf_workers b))) + (case y of Busy n \<Rightarrow> {#n#} | _ \<Rightarrow> {#})
        + mset (List.map_filter ?f (drop (Suc i) (bf_workers b)))" for y
    unfolding split [OF assms] map_filter_append mset_append one by (simp add: add.assoc)
  from this [of x] this [of "bf_workers b ! i"] show ?thesis
    by (simp add: in_flight_def ac_simps)
qed

definition buffer_inv :: "buffer \<Rightarrow> bool" where
  "buffer_inv b \<longleftrightarrow> length (bf_ch b) \<le> bf_capacity b"

lemma pipe_step_accounts:
  assumes "pipe_step pub a (b, w) = Some (evs, b', w')"
  shows "accepted evs + mset (bf_ch b) + in_flight b = mset (bf_ch b') + in_flight b' + published evs + lost evs
     \<and> bf_capacity b' = bf_capacity b \<and> (buffer_inv b \<longrightarrow> buffer_inv b')
     \<and> bf_EventsPublished b' = bf_EventsPublished b + size (published evs)
     \<and> bf_EventsDropped b' = bf_EventsDropped b @ drop_labels evs"
proof (cases a)
  case (DoSubmit np)
  then show ?thesis
    using assms by (cases np) (auto simp: Submit_def in_flight_def buffer_inv_def split: if_splits)
next
  case (DoTake i)
  then obtain n ns where b: "i < length (bf_workers b)" "bf_workers b ! i = Idle" "bf_ch b = n # ns"
    "evs = []" "b' = b\<lparr>bf_ch := ns, bf_workers := (bf_workers b)[i := Busy n]\<rparr>"
    using assms by (auto split: if_splits list.splits)
  then show ?thesis
    using in_flight_update [OF b(1), of "Busy n"] by (simp add: in_flight_def buffer_inv_def)
next
  case (DoFinish i)
  then obtain n ok where b: "i < length (bf_workers b)" "bf_workers b ! i = Busy n" "finish i n ok b = (evs, b')"
    using assms by (auto split: if_splits worker.splits prod.splits)
  then show ?thesis
    using in_flight_update [OF b(1), of Idle]
    by (cases ok) (auto simp: finish_def in_flight_def buffer_inv_def)
next
  case (DoStop i)
  then have b: "i < length (bf_workers b)" "bf_workers b ! i = Idle" "evs = []"
    "b' = b\<lparr>bf_workers := (bf_workers b)[i := Stopped]\<rparr>"
    using assms by (auto split: if_splits)
  then show ?thesis
    using in_flight_update [OF b(1), of Stopped] by (simp add: in_flight_def buffer_inv_def)
next
  case DoClose
  then show ?thesis using assms by (auto simp: in_flight_def buffer_inv_def split: if_splits)
qed

lemma pipe_run_accounts:
  "pipe_run pub as (b, w) = Some (evs, b', w') \<Longrightarrow>
     accepted evs + mset (bf_ch b) + in_flight b = mset (bf_ch b') + in_flight b' + published evs + lost evs
     \<and> bf_capacity b' = bf_capacity b \<and> (buffer_inv b \<longrightarrow> buffer_inv b')
     \<and> bf_EventsPublished b' = bf_EventsPublished b + size (published evs)
     \<and> bf_EventsDropped b' = bf_EventsDropped b @ drop_labels evs"
proof (induction as arbitrary: b w evs)
  case (Cons a as)
  obtain e1 b1 w1 where s: "pipe_step pub a (b, w) = Some (e1, b1, w1)"
    using Cons.prems by (auto split: option.splits)
  obtain e2 where r: "pipe_run pub as (b1, w1) = Some (e2, b', w')" and evs: "evs = e1 @ e2"
    using Cons.prems s by (auto split: option.splits)
  note step = pipe_step_accounts [OF s] and rest = Cons.IH [OF r]
  have "accepted e1 + (accepted e2 + (mset (bf_ch b) + in_flight b)) =
      accepted e2 + (accepted e1 + mset (bf_ch b) + in_flight b)" by (simp add: ac_simps)
  also have "\<dots> = accepted e2 + mset (bf_ch b1) + in_flight b1 + published e1 + lost e1"
    using step by (simp add: ac_simps)
  also have "\<dots> = mset (bf_ch b') + in_flight b' + published evs + lost evs"
    using rest by (simp add: evs ac_simps)
  finally show ?case using step rest by (simp add: evs ac_simps)
qed simp

lemma new_buffer_accounts:
  "bf_ch (NewBuffer depth workers) = []" "in_flight (NewBuffer depth workers) = {#}"
  "buffer_inv (NewBuffer depth workers)" "bf_EventsPublished (NewBuffer depth workers) = 0"
  "bf_EventsDropped (NewBuffer depth workers) = []" "bf_capacity (NewBuffer depth workers) = nat (max 1 depth)"
proof -
  have "List.map_filter (\<lambda>x. case x of Busy n \<Rightarrow> Some n | _ \<Rightarrow> None) (replicate k Idle) = ([] :: notification list)" for k
    by (induction k) (simp_all add: map_filter_simps)
  then show "in_flight (NewBuffer depth workers) = {#}" by (simp add: in_flight_def NewBuffer_def Let_def)
qed (auto simp: NewBuffer_def Let_def buffer_inv_def max_def)

text \<open>
  C14: whatever the goroutines do, in whatever order: every notification \<open>Submit\<close> accepted is waiting in
  the channel, in the hands of one worker, published, or counted as lost after four attempts, and
  it is exactly one of these; the channel never exceeds its capacity; and the counters are the
  numbers of published messages and, by reason, of refused and lost ones.
\<close>

theorem buffer_conserves:
  assumes "pipe_run pub as (NewBuffer depth workers, w) = Some (evs, b, w')"
  shows "accepted evs = mset (bf_ch b) + in_flight b + published evs + lost evs
     \<and> int (length (bf_ch b)) \<le> max 1 depth
     \<and> bf_EventsPublished b = size (published evs) \<and> bf_EventsDropped b = drop_labels evs"
  using pipe_run_accounts [OF assms] new_buffer_accounts [of depth workers]
  by (auto simp: buffer_inv_def)

definition no_publish :: "string \<Rightarrow> unit \<Rightarrow> error \<times> unit" where
  "no_publish body w = (Some (Sentinel ''down''), w)"

lemma no_publish_retry: "\<exists>sleeps. publishWithRetry no_publish n () = (False, sleeps, ())"
  by (simp add: publishWithRetry_def no_publish_def maxAttempts_def upt_rec Let_def)

lemma sample_pipe_run:
  "map_option (\<lambda>(evs, b, w). (evs, bf_ch b, bf_EventsDropped b))
     (pipe_run no_publish [DoSubmit (Some zero_notification), DoSubmit (Some zero_notification), DoTake 0, DoFinish 0]
        (NewBuffer 1 1, ()))
   = Some ([Accepted zero_notification, Refused zero_notification, Lost zero_notification], [],
           [''buffer_full'', ''publish_error''])"
proof -
  obtain sleeps where "publishWithRetry no_publish zero_notification () = (False, sleeps, ())"
    using no_publish_retry by blast
  then show ?thesis by (simp add: NewBuffer_def Submit_def ErrFull_def finish_def)
qed

theorem buffer_conserves_witness:
  "\<exists>evs b. pipe_run no_publish [DoSubmit (Some zero_notification), DoSubmit (Some zero_notification), DoTake 0, DoFinish 0]
        (NewBuffer 1 1, ()) = Some (evs, b, ())
     \<and> accepted evs = {#zero_notification#} \<and> bf_EventsDropped b = drop_labels evs"
proof -
  obtain evs b where run: "pipe_run no_publish
      [DoSubmit (Some zero_notification), DoSubmit (Some zero_notification), DoTake 0, DoFinish 0] (NewBuffer 1 1, ())
      = Some (evs, b, ())" and evs: "evs = [Accepted zero_notification, Refused zero_notification, Lost zero_notification]"
    using sample_pipe_run by (auto split: option.splits)
  have "accepted evs = {#zero_notification#}" by (simp add: evs accepted_def map_filter_simps)
  with run buffer_conserves [OF run] show ?thesis by blast
qed

section \<open>Closing drains the buffer\<close>

definition worker_action :: "action \<Rightarrow> bool" where
  "worker_action a = (case a of DoTake _ \<Rightarrow> True | DoFinish _ \<Rightarrow> True | DoStop _ \<Rightarrow> True | _ \<Rightarrow> False)"

definition worker_load :: "worker \<Rightarrow> nat" where
  "worker_load x = (case x of Idle \<Rightarrow> 1 | Busy _ \<Rightarrow> 2 | Stopped \<Rightarrow> 0)"

definition remaining :: "buffer \<Rightarrow> nat" where
  "remaining b = 2 * length (bf_ch b) + sum_list (map worker_load (bf_workers b))"

lemma load_update:
  "i < length xs \<Longrightarrow> sum_list (map worker_load (xs[i := y])) + worker_load (xs ! i) = sum_list (map worker_load xs) + worker_load y"
  by (induction xs arbitrary: i) (auto split: nat.splits)

lemma remaining_decreases:
  assumes "worker_action a" and "pipe_step pub a (b, w) = Some (evs, b', w')"
  shows "remaining b' < remaining b \<and> bf_closed b' = bf_closed b"
proof (cases a)
  case (DoTake i)
  then obtain n ns where b: "i < length (bf_workers b)" "bf_workers b ! i = Idle" "bf_ch b = n # ns"
    "b' = b\<lparr>bf_ch := ns, bf_workers := (bf_workers b)[i := Busy n]\<rparr>"
    using assms by (auto split: if_splits list.splits)
  then show ?thesis using load_update [OF b(1), of "Busy n"] by (simp add: remaining_def worker_load_def)
next
  case (DoFinish i)
  then obtain n ok where b: "i < length (bf_workers b)" "bf_workers b ! i = Busy n" "finish i n ok b = (evs, b')"
    using assms by (auto split: if_splits worker.splits prod.splits)
  then show ?thesis
    using load_update [OF b(1), of Idle] by (cases ok) (auto simp: finish_def remaining_def worker_load_def)
next
  case (DoStop i)
  then have b: "i < length (bf_workers b)" "bf_workers b ! i = Idle" "b' = b\<lparr>bf_workers := (bf_workers b)[i := Stopped]\<rparr>"
    using assms by (auto split: if_splits)
  then show ?thesis using load_update [OF b(1), of Stopped] by (simp add: remaining_def worker_load_def)
qed (use assms in \<open>simp_all add: worker_action_def\<close>)

text \<open>A worker stops only when the channel is closed and empty, and there is at least one worker.\<close>

definition stop_inv :: "buffer \<Rightarrow> bool" where
  "stop_inv b \<longleftrightarrow> bf_workers b \<noteq> [] \<and> (Stopped \<in> set (bf_workers b) \<longrightarrow> bf_closed b \<and> bf_ch b = [])"

lemma pipe_step_stop_inv:
  assumes "pipe_step pub a (b, w) = Some (evs, b', w')" and "stop_inv b"
  shows "stop_inv b'"
proof (cases a)
  case (DoSubmit np)
  then show ?thesis using assms by (cases np) (auto simp: Submit_def stop_inv_def split: if_splits)
next
  case (DoTake i)
  then show ?thesis
    using assms by (auto simp: stop_inv_def split: if_splits list.splits dest: set_update_subset_insert [THEN subsetD])
next
  case (DoFinish i)
  then obtain n ok where "finish i n ok b = (evs, b')"
    using assms by (auto split: if_splits worker.splits prod.splits)
  then show ?thesis
    using assms(2) by (cases ok) (auto simp: finish_def stop_inv_def dest: set_update_subset_insert [THEN subsetD])
next
  case (DoStop i)
  then show ?thesis using assms by (auto simp: stop_inv_def split: if_splits)
next
  case DoClose
  then show ?thesis using assms by (auto simp: stop_inv_def split: if_splits)
qed

lemma pipe_run_stop_inv: "pipe_run pub as (b, w) = Some (evs, b', w') \<Longrightarrow> stop_inv b \<Longrightarrow> stop_inv b'"
proof (induction as arbitrary: b w evs)
  case (Cons a as)
  obtain e1 b1 w1 where s: "pipe_step pub a (b, w) = Some (e1, b1, w1)"
    using Cons.prems by (auto split: option.splits)
  then obtain e2 where "pipe_run pub as (b1, w1) = Some (e2, b', w')"
    using Cons.prems by (auto split: option.splits)
  then show ?case using Cons.IH pipe_step_stop_inv [OF s Cons.prems(2)] by blast
qed simp

lemma step_exists:
  assumes "stop_inv b" and "bf_closed b" and "\<not> workers_done b"
  shows "\<exists>a evs b' w'. worker_action a \<and> pipe_step pub a (b, w) = Some (evs, b', w')"
proof -
  obtain i where i: "i < length (bf_workers b)" "bf_workers b ! i \<noteq> Stopped"
    using assms(3) by (auto simp: workers_done_def list_all_length)
  show ?thesis
  proof (cases "bf_workers b ! i")
    case Idle
    show ?thesis
    proof (cases "bf_ch b")
      case Nil
      then have "pipe_step pub (DoStop i) (b, w) = Some ([], b\<lparr>bf_workers := (bf_workers b)[i := Stopped]\<rparr>, w)"
        using i Idle assms(2) by simp
      then show ?thesis by (metis action.simps(28) worker_action_def)
    next
      case (Cons n ns)
      then have "pipe_step pub (DoTake i) (b, w) = Some ([], b\<lparr>bf_ch := ns, bf_workers := (bf_workers b)[i := Busy n]\<rparr>, w)"
        using i Idle by simp
      then show ?thesis by (metis action.simps(26) worker_action_def)
    qed
  next
    case (Busy n)
    obtain ok sleeps w' where "publishWithRetry pub n w = (ok, sleeps, w')" by (metis prod.exhaust)
    then have "pipe_step pub (DoFinish i) (b, w) = Some (fst (finish i n ok b), snd (finish i n ok b), w')"
      using i Busy by (simp add: case_prod_beta)
    then show ?thesis by (metis action.simps(27) worker_action_def)
  qed (use i in simp)
qed

lemma new_buffer_stop_inv: "stop_inv (NewBuffer depth workers)"
  by (auto simp: stop_inv_def NewBuffer_def Let_def)

lemma all_stopped:
  assumes "stop_inv b" and "workers_done b"
  shows "bf_ch b = [] \<and> in_flight b = {#}"
proof -
  have "Stopped \<in> set (bf_workers b)"
    using assms by (cases "bf_workers b") (auto simp: stop_inv_def workers_done_def)
  moreover have "List.map_filter (\<lambda>x. case x of Busy n \<Rightarrow> Some n | _ \<Rightarrow> None) (bf_workers b) = []"
    using assms(2) [unfolded workers_done_def] by (induction "bf_workers b") (auto simp: List.map_filter_def list_all_iff filter_empty_conv)
  ultimately show ?thesis using assms(1) by (simp add: stop_inv_def in_flight_def)
qed

text \<open>
  C15: \<open>Close\<close> returns: once the buffer is closed, every action of a worker brings it closer to the end
  (\<open>remaining\<close> decreases), as long as some worker has not stopped one of them can act, and when all
  have stopped nothing is left in the channel or in their hands.
\<close>

theorem close_drains:
  assumes "pipe_run pub as (NewBuffer depth workers, w0) = Some (evs0, b, w)" and "bf_closed b"
  shows "(worker_action a \<and> pipe_step pub a (b, w) = Some (evs, b', w') \<longrightarrow> remaining b' < remaining b \<and> bf_closed b')
     \<and> (if workers_done b then bf_ch b = [] \<and> in_flight b = {#}
        else \<exists>a evs b' w'. worker_action a \<and> pipe_step pub a (b, w) = Some (evs, b', w'))"
proof -
  have inv: "stop_inv b" by (rule pipe_run_stop_inv [OF assms(1) new_buffer_stop_inv])
  then have "bf_ch b = [] \<and> in_flight b = {#}" if all: "workers_done b"
    using that by (rule all_stopped)
  moreover have "worker_action a \<and> pipe_step pub a (b, w) = Some (evs, b', w') \<longrightarrow> remaining b' < remaining b \<and> bf_closed b'"
    using remaining_decreases assms(2) by fast
  ultimately show ?thesis using step_exists [OF inv assms(2), of pub w] by (simp only: if_split) blast
qed

theorem close_drains_witness:
  "\<exists>b. pipe_run no_publish [DoClose, DoStop 0] (NewBuffer 1 1, ()) = Some ([], b, ()) \<and> bf_ch b = [] \<and> in_flight b = {#}"
proof -
  let ?b = "(NewBuffer 1 1)\<lparr>bf_closed := True, bf_workers := [Stopped]\<rparr>"
  have run: "pipe_run no_publish [DoClose, DoStop 0] (NewBuffer 1 1, ()) = Some ([], ?b, ())"
    by (simp add: NewBuffer_def)
  have "bf_closed ?b" "workers_done ?b" by (simp_all add: workers_done_def)
  with close_drains [OF run] run show ?thesis by auto
qed

end
