(* ===== verification/Ingest.thy ===== *)
theory Ingest
  imports Http Pipeline
begin

text \<open>
  \<open>internal/ingest/http.go\<close>: the intake handler. It validates every notification of the body before it
  submits the first, and submits them in order until the buffer refuses one. The buffer is the
  interface \<open>submitter\<close>; what the handler relies on is the locale of that name.
\<close>

record 's intake =
  it_store :: 's
  it_total :: nat

text \<open>The validation normalises each notification in place, up to the first bad one.\<close>

fun validate_loop ::
  "(string \<Rightarrow> bool) \<Rightarrow> notification option list \<Rightarrow> goerr + notification option list" where
  "validate_loop uuid_ok [] = Inr []"
| "validate_loop uuid_ok (np # rest) =
     (case ValidateNotification uuid_ok np of
        (Some err, _) \<Rightarrow> Inl err
      | (None, np') \<Rightarrow>
          (case validate_loop uuid_ok rest of Inl err \<Rightarrow> Inl err | Inr nps \<Rightarrow> Inr (np' # nps)))"

text \<open>The result is the index of the first refusal, or \<open>None\<close> when all were taken.\<close>

fun submit_loop ::
  "(notification option \<Rightarrow> 's \<Rightarrow> error \<times> 's) \<Rightarrow> nat \<Rightarrow> notification option list \<Rightarrow> 's \<Rightarrow> nat option \<times> 's" where
  "submit_loop submit idx [] s = (None, s)"
| "submit_loop submit idx (np # rest) s =
     (case submit np s of
        (Some err, s') \<Rightarrow> (Some idx, s')
      | (None, s') \<Rightarrow> submit_loop submit (idx + 1) rest s')"

definition ingest_ServeHTTP ::
  "(string \<Rightarrow> bool) \<Rightarrow> (notification option \<Rightarrow> 's \<Rightarrow> error \<times> 's) \<Rightarrow> goerr + notification option list
     \<Rightarrow> 's intake \<Rightarrow> response \<times> 's intake" where
  "ingest_ServeHTTP uuid_ok submit body s =
     (case body of
        Inl err \<Rightarrow> (WriteError err, s)
      | Inr ns \<Rightarrow>
          if length ns = 0 then (WriteError (CsarError Validation ''notifications required'' []), s)
          else
            (case validate_loop uuid_ok ns of
               Inl err \<Rightarrow> (WriteError (CsarCause Validation ''%v'' err), s)
             | Inr nps \<Rightarrow>
                 (case submit_loop submit 0 nps (it_store s) of
                    (Some idx, s') \<Rightarrow>
                      (WriteError (CsarError Unavailable ''notify ingest buffer full after %d of %d notifications''
                         [AInt (int idx), AInt (int (length ns))]), s\<lparr>it_store := s'\<rparr>)
                  | (None, s') \<Rightarrow>
                      (WriteJSON StatusAccepted [(''status'', BStr ''accepted''), (''accepted'', BInt (int (length ns)))],
                       s\<lparr>it_store := s', it_total := it_total s + length ns\<rparr>))))"

section \<open>The contract of a submitter\<close>

text \<open>
  \<open>taken s\<close> is what has been accepted and is waiting; a refusal leaves it as it is.
\<close>

locale submitter =
  fixes good :: "'s \<Rightarrow> bool" and submit :: "notification option \<Rightarrow> 's \<Rightarrow> error \<times> 's"
    and taken :: "'s \<Rightarrow> notification list"
  assumes submit_good: "good s \<Longrightarrow> good (snd (submit np s))"
    and submit_accepts: "good s \<Longrightarrow> fst (submit (Some n) s) = None \<Longrightarrow> taken (snd (submit (Some n) s)) = taken s @ [n]"
    and submit_refuses: "good s \<Longrightarrow> fst (submit np s) = Some e \<Longrightarrow> taken (snd (submit np s)) = taken s"
begin

lemma submit_loop_spec:
  "good s \<Longrightarrow> submit_loop submit idx (map Some ns) s = (r, s') \<Longrightarrow>
     (case r of None \<Rightarrow> taken s' = taken s @ ns
      | Some k \<Rightarrow> idx \<le> k \<and> k < idx + length ns \<and> taken s' = taken s @ take (k - idx) ns)"
proof (induction ns arbitrary: idx s)
  case (Cons n ns)
  obtain err s1 where sub: "submit (Some n) s = (err, s1)" by fastforce
  have good: "good s1" using submit_good [OF Cons.prems(1), of "Some n"] sub by simp
  show ?case
  proof (cases err)
    case None
    then have run: "submit_loop submit (idx + 1) (map Some ns) s1 = (r, s')" using Cons.prems(2) sub by simp
    have "taken s1 = taken s @ [n]" using submit_accepts [OF Cons.prems(1), of n] sub None by simp
    with Cons.IH [OF good run] show ?thesis
      by (auto split: option.splits simp: Suc_diff_le Suc_le_eq take_Cons' not_le)
  next
    case (Some e)
    then have "taken s1 = taken s" using submit_refuses [OF Cons.prems(1), of "Some n" e] sub by simp
    then show ?thesis using Cons.prems(2) sub Some by auto
  qed
qed simp

text \<open>All or nothing for validation, a prefix for a full buffer.\<close>

lemma ingest_spec:
  assumes "good (it_store s)" and "ingest_ServeHTTP uuid_ok submit (Inr ns) s = (resp, s')"
  shows "if ns = [] \<or> \<not> list_all (\<lambda>np. fst (ValidateNotification uuid_ok np) = None) ns then
       (\<exists>e. resp = WriteError e) \<and> s' = s
     else (\<exists>k. taken (it_store s') = taken (it_store s) @ take k (map (\<lambda>np. Normalize (the np)) ns)
          \<and> k \<le> length ns
          \<and> (if k = length ns then
               resp = WriteJSON StatusAccepted [(''status'', BStr ''accepted''), (''accepted'', BInt (int k))]
               \<and> it_total s' = it_total s + k
             else resp = WriteError (CsarError Unavailable ''notify ingest buffer full after %d of %d notifications''
                         [AInt (int k), AInt (int (length ns))]) \<and> it_total s' = it_total s))"
proof -
  have loop: "validate_loop uuid_ok nps = (if list_all (\<lambda>np. fst (ValidateNotification uuid_ok np) = None) nps
      then Inr (map Some (map (\<lambda>np. Normalize (the np)) nps))
      else Inl (the (fst (ValidateNotification uuid_ok
             (the (find (\<lambda>np. fst (ValidateNotification uuid_ok np) \<noteq> None) nps))))))" for nps
  proof (induction nps)
    case (Cons np nps)
    show ?case
    proof (cases "fst (ValidateNotification uuid_ok np)")
      case None
      then obtain n where "np = Some n" by (cases np) (auto simp: ValidateNotification_def)
      with None Cons show ?thesis by (auto simp: ValidateNotification_def)
    next
      case (Some e)
      then show ?thesis by (auto split: prod.split)
    qed
  qed simp
  show ?thesis
  proof (cases "ns = [] \<or> \<not> list_all (\<lambda>np. fst (ValidateNotification uuid_ok np) = None) ns")
    case True
    then show ?thesis using assms(2) by (auto simp: ingest_ServeHTTP_def loop split: if_splits)
  next
    case False
    let ?ns = "map (\<lambda>np. Normalize (the np)) ns"
    obtain r s1 where r: "submit_loop submit 0 (map Some ?ns) (it_store s) = (r, s1)" by fastforce
    note spec = submit_loop_spec [OF assms(1) r]
    show ?thesis
    proof (cases r)
      case None
      then show ?thesis using False assms(2) r spec
        by (intro iffD2 [OF if_not_P] exI [of _ "length ns"]) (auto simp: ingest_ServeHTTP_def loop)
    next
      case (Some k)
      then show ?thesis using False assms(2) r spec
        by (intro iffD2 [OF if_not_P] exI [of _ k]) (auto simp: ingest_ServeHTTP_def loop)
    qed
  qed
qed

end

section \<open>The buffer is a submitter\<close>

text \<open>While the buffer is open (the owner closes it when the server has shut down).\<close>

definition submit_open :: "notification option \<Rightarrow> buffer \<Rightarrow> error \<times> buffer" where
  "submit_open np b = (case Submit np b of Some r \<Rightarrow> r | None \<Rightarrow> (Some ErrFull, b))"

interpretation buffer_submit: submitter "\<lambda>b. \<not> bf_closed b" submit_open bf_ch
proof
  show "\<not> bf_closed (snd (submit_open np s))" if "\<not> bf_closed s" for np s
    using that by (cases np) (auto simp: submit_open_def Submit_def)
  show "bf_ch (snd (submit_open (Some n) s)) = bf_ch s @ [n]"
    if "\<not> bf_closed s" "fst (submit_open (Some n) s) = None" for n s
    using that by (auto simp: submit_open_def Submit_def split: if_splits)
  show "bf_ch (snd (submit_open np s)) = bf_ch s"
    if "\<not> bf_closed s" "fst (submit_open np s) = Some e" for np s e
    using that by (cases np) (auto simp: submit_open_def Submit_def split: if_splits)
qed

text \<open>
  C35: an intake request: when the list is empty or any notification of it is unacceptable, nothing is
  submitted and the answer is an error; otherwise the normalised notifications are submitted in
  order up to the first the full buffer refuses, the answer is 202 with the number accepted when
  it takes all, and else the error that names how many it took.
\<close>

theorem ingest_all_or_prefix:
  assumes "\<not> bf_closed (it_store s)" and "ingest_ServeHTTP uuid_ok submit_open (Inr ns) s = (resp, s')"
  shows "if ns = [] \<or> \<not> list_all (\<lambda>np. fst (ValidateNotification uuid_ok np) = None) ns then
       (\<exists>e. resp = WriteError e) \<and> s' = s
     else (\<exists>k. bf_ch (it_store s') = bf_ch (it_store s) @ take k (map (\<lambda>np. Normalize (the np)) ns)
          \<and> k \<le> length ns
          \<and> (if k = length ns then
               resp = WriteJSON StatusAccepted [(''status'', BStr ''accepted''), (''accepted'', BInt (int k))]
               \<and> it_total s' = it_total s + k
             else resp = WriteError (CsarError Unavailable ''notify ingest buffer full after %d of %d notifications''
                         [AInt (int k), AInt (int (length ns))]) \<and> it_total s' = it_total s))"
  using assms by (rule buffer_submit.ingest_spec)

definition sample_intake :: "buffer intake" where
  "sample_intake = \<lparr>it_store = NewBuffer 1 1, it_total = 0\<rparr>"

definition sample_ask :: notification where
  "sample_ask = zero_notification\<lparr>n_Topic := '' t'', n_Title := ''T''\<rparr>"

lemma sample_ingest:
  "map_prod (\<lambda>r. r) (\<lambda>s. map n_Topic (bf_ch (it_store s)))
     (ingest_ServeHTTP (\<lambda>_. True) submit_open (Inr [Some sample_ask, Some sample_ask]) sample_intake)
   = (WriteError (CsarError Unavailable ''notify ingest buffer full after %d of %d notifications'' [AInt 1, AInt 2]), [''t''])"
  "list_all (\<lambda>np. fst (ValidateNotification (\<lambda>_. True) np) = None) [Some sample_ask, Some sample_ask]"
  by code_simp+

theorem ingest_all_or_prefix_witness:
  "\<exists>resp s' k. ingest_ServeHTTP (\<lambda>_. True) submit_open (Inr [Some sample_ask, Some sample_ask]) sample_intake = (resp, s')
     \<and> bf_ch (it_store s') = take k [Normalize sample_ask, Normalize sample_ask]
     \<and> map n_Topic (bf_ch (it_store s')) = [''t'']"
proof -
  obtain resp s' where run: "ingest_ServeHTTP (\<lambda>_. True) submit_open (Inr [Some sample_ask, Some sample_ask]) sample_intake
      = (resp, s')" by fastforce
  have "\<not> bf_closed (it_store sample_intake)" "bf_ch (it_store sample_intake) = []"
    by (simp_all add: sample_intake_def NewBuffer_def)
  then obtain k where "bf_ch (it_store s') = take k [Normalize sample_ask, Normalize sample_ask]"
    using ingest_all_or_prefix [OF _ run] sample_ingest(2) by auto
  moreover have "map n_Topic (bf_ch (it_store s')) = [''t'']" using sample_ingest(1) run by simp
  ultimately show ?thesis
    using run by (intro exI [of _ resp] exI [of _ s'] exI [of _ k] conjI)
qed

end
