(* ===== verification/Metrics.thy ===== *)
theory Metrics
  imports Consumer Ingest
begin

text \<open>
  \<open>internal/metrics/metrics.go\<close>: the collectors of the service and their registration. The Prometheus
  client is third-party: a collector is the description the code gives it, and the registry
  is a state with \<open>MustRegister\<close> as a parameter, \<open>None\<close> for its panic. Bucket bounds are rationals.
\<close>

datatype collector_kind = Counter | CounterVec | Gauge | GaugeFunc | Histogram | HistogramVec

record collector =
  co_kind :: collector_kind
  co_Namespace :: string
  co_Name :: string
  co_Help :: string
  co_Buckets :: "rat list"
  co_labels :: "string list"

record metrics =
  IngestTotal :: collector
  IngestDuration :: collector
  BufferDepth :: collector
  EventsPublished :: collector
  EventsDropped :: collector
  BatchSize :: collector
  BatchFlushSeconds :: collector
  NotificationsSeen :: collector
  ConsumerErrors :: collector
  ProviderSends :: collector
  ProviderErrors :: collector
  SSEConnections :: collector

definition notify_collector :: "collector_kind \<Rightarrow> string \<Rightarrow> string \<Rightarrow> rat list \<Rightarrow> string list \<Rightarrow> collector" where
  "notify_collector k name help buckets labels = \<lparr>co_kind = k, co_Namespace = ''notify'', co_Name = name,
     co_Help = help, co_Buckets = buckets, co_labels = labels\<rparr>"

definition service_metrics :: metrics where
  "service_metrics = \<lparr>
     IngestTotal = notify_collector CounterVec ''ingest_total'' ''Total notifications received by ingest handlers.'' [] [''transport''],
     IngestDuration = notify_collector HistogramVec ''ingest_duration_seconds'' ''Ingest handler latency.''
       [5 / 10000, 1 / 1000, 5 / 1000, 1 / 100, 5 / 100, 1 / 10] [''transport''],
     BufferDepth = notify_collector GaugeFunc ''buffer_depth'' ''Number of notifications in the in-memory pipeline buffer.'' [] [],
     EventsPublished = notify_collector Counter ''events_published_total'' ''Notifications successfully published to RabbitMQ.'' [] [],
     EventsDropped = notify_collector CounterVec ''events_dropped_total'' ''Notifications dropped before dispatch.'' [] [''reason''],
     BatchSize = notify_collector Histogram ''batch_size'' ''Number of notifications per consumer batch.''
       [1, 5, 10, 25, 50, 100, 200, 500] [],
     BatchFlushSeconds = notify_collector Histogram ''batch_flush_duration_seconds'' ''Time spent dispatching a consumer batch.''
       [5 / 1000, 1 / 100, 25 / 1000, 5 / 100, 1 / 10, 25 / 100, 5 / 10, 1, 5] [],
     NotificationsSeen = notify_collector Counter ''notifications_seen_total'' ''Notifications processed by the consumer.'' [] [],
     ConsumerErrors = notify_collector CounterVec ''consumer_errors_total'' ''Consumer-side errors by type.'' [] [''type''],
     ProviderSends = notify_collector CounterVec ''provider_sends_total'' ''Provider send attempts by channel.'' [] [''channel''],
     ProviderErrors = notify_collector CounterVec ''provider_errors_total'' ''Provider send errors by channel.'' [] [''channel''],
     SSEConnections = notify_collector Gauge ''sse_connections'' ''Active notification SSE connections.'' [] []\<rparr>"

definition registration_order :: "metrics \<Rightarrow> collector list" where
  "registration_order m = [IngestTotal m, IngestDuration m, BufferDepth m, EventsPublished m, EventsDropped m, BatchSize m,
     BatchFlushSeconds m, NotificationsSeen m, ConsumerErrors m, ProviderSends m, ProviderErrors m, SSEConnections m]"

definition metrics_New :: "(collector list \<Rightarrow> 'r \<Rightarrow> 'r option) \<Rightarrow> 'r \<Rightarrow> (metrics \<times> 'r) option" where
  "metrics_New MustRegister reg = map_option (Pair service_metrics) (MustRegister (registration_order service_metrics) reg)"

text \<open>The function behind the depth gauge: \<open>run\<close> sets the buffer after the gauge is registered.\<close>

definition gauge_depth :: "buffer option \<Rightarrow> int" where
  "gauge_depth buf = (case buf of None \<Rightarrow> 0 | Some b \<Rightarrow> buffer_Depth b)"

section \<open>What Prometheus asks of collectors\<close>

text \<open>
  The full name joins the namespace and the name; a description is acceptable when the full name and the
  labels are of lower-case letters and underscores (all of which Prometheus allows), no label is repeated, and the bucket bounds increase.
\<close>

definition full_name :: "collector \<Rightarrow> string" where
  "full_name c = co_Namespace c @ ''_'' @ co_Name c"

definition name_char :: "char \<Rightarrow> bool" where
  "name_char c \<longleftrightarrow> (CHR ''a'' \<le> c \<and> c \<le> CHR ''z'') \<or> c = CHR ''_''"

definition acceptable_collector :: "collector \<Rightarrow> bool" where
  "acceptable_collector c \<longleftrightarrow> list_all name_char (full_name c) \<and> list_all (\<lambda>l. l \<noteq> [] \<and> list_all name_char l) (co_labels c)
     \<and> distinct (co_labels c) \<and> (co_kind c \<in> {Histogram, HistogramVec} \<longrightarrow> co_Buckets c \<noteq> [] \<and> ''le'' \<notin> set (co_labels c))
     \<and> sorted_wrt (<) (co_Buckets c)"

lemma service_collectors:
  "list_all acceptable_collector (registration_order service_metrics)"
  "distinct (map full_name (registration_order service_metrics))"
  by code_simp+

text \<open>The numbers of label values the code passes to \<open>WithLabelValues\<close>, where a wrong number panics.\<close>

lemma service_labels:
  "map (\<lambda>c. length (co_labels c)) [IngestTotal service_metrics, IngestDuration service_metrics, EventsDropped service_metrics,
     ConsumerErrors service_metrics, ProviderSends service_metrics, ProviderErrors service_metrics] = [1, 1, 1, 1, 1, 1]"
  by code_simp

end
