(* ===== verification/Calls.thy ===== *)
theory Calls
  imports DispatchProps
begin

text \<open>
  The calls of the providers that one dispatch makes. A dispatcher is run with providers that note each
  call of \<open>Send\<close>; noting changes nothing else, and the calls noted are those of the dispatch's
  events. Over the PostgreSQL store no call is made twice.
\<close>

section \<open>Noting the calls\<close>

text \<open>
  A dispatcher whose providers note each call of \<open>Send\<close>, with its channel and its recipient, beside
  what they do: the world is paired with the list of the calls.
\<close>

definition beside :: "('w \<Rightarrow> 'a \<times> 'w) \<Rightarrow> 'w \<times> 'l \<Rightarrow> 'a \<times> 'w \<times> 'l" where
  "beside f wl = (case f (fst wl) of (x, w) \<Rightarrow> (x, (w, snd wl)))"

definition noting :: "Channel \<Rightarrow> 'w provider \<Rightarrow> ('w \<times> (Channel \<times> string) list) provider" where
  "noting c p = \<lparr>pv_Name = pv_Name p, pv_Channel = pv_Channel p,
     pv_Send = (\<lambda>n r cfg wl. case pv_Send p n r cfg (fst wl) of (err, w) \<Rightarrow> (err, (w, snd wl @ [(c, r)]))),
     pv_Close = beside (pv_Close p)\<rparr>"

definition recorded :: "'w dispatcher \<Rightarrow> ('w \<times> (Channel \<times> string) list) dispatcher" where
  "recorded d = \<lparr>dp_store = \<lparr>sa_UpsertNotification = (\<lambda>np. beside (sa_UpsertNotification (dp_store d) np)),
       sa_ListTopicSubscribers = (\<lambda>t. beside (sa_ListTopicSubscribers (dp_store d) t)),
       sa_GetPreferences = (\<lambda>r. beside (sa_GetPreferences (dp_store d) r))\<rparr>,
     dp_providers = map_option (map (\<lambda>(c, p). (c, noting c p))) (dp_providers d)\<rparr>"

definition unrecorded :: "('w \<times> 'l) env \<Rightarrow> 'w env" where
  "unrecorded e = \<lparr>world = fst (world e), providerSends = providerSends e, providerErrors = providerErrors e\<rparr>"

lemma recorded_simps [simp]:
  "sa_UpsertNotification (dp_store (recorded d)) np = beside (sa_UpsertNotification (dp_store d) np)"
  "sa_ListTopicSubscribers (dp_store (recorded d)) t = beside (sa_ListTopicSubscribers (dp_store d) t)"
  "sa_GetPreferences (dp_store (recorded d)) r = beside (sa_GetPreferences (dp_store d) r)"
  by (simp_all add: recorded_def)

lemma recorded_Get: "registry_Get (dp_providers (recorded d)) c = map_option (noting c) (registry_Get (dp_providers d) c)"
proof -
  have "go_get (map (\<lambda>(c, p). (c, noting c p)) m) c = map_option (noting c) (go_get m c)" for m
    by (induction m) auto
  then show ?thesis by (cases "dp_providers d") (simp_all add: registry_Get_def recorded_def)
qed

lemma recorded_resolve: "resolveChannels (recorded d) r n = beside (resolveChannels d r n)"
  by (simp add: fun_eq_iff resolveChannels_def beside_def split: prod.split sum.split)

lemma recorded_send_events:
  "send_events (recorded d) n r ts (w, l) = (case send_events d n r ts w of (evs, w') \<Rightarrow> (evs, (w', l @ send_keys evs)))"
  by (induction ts arbitrary: w l) (simp_all add: recorded_Get noting_def split: option.split prod.split)

lemma recorded_dispatch_events:
  "dispatch_events (recorded d) n rs (w, l)
     = (case dispatch_events d n rs w of (evs, w') \<Rightarrow> (evs, (w', l @ send_keys evs)))"
  by (induction rs arbitrary: w l)
     (simp_all add: recorded_resolve recorded_send_events beside_def split: prod.split sum.split)

lemma recorded_spec:
  "dispatch_spec uuid_ok (recorded d) np (w, l) =
     (case dispatch_spec uuid_ok d np w of (res, np', w') \<Rightarrow>
        (res, np', (w', l @ (case res of Inl e \<Rightarrow> [] | Inr evs \<Rightarrow> send_keys evs))))"
  by (simp add: dispatch_spec_def beside_def recorded_dispatch_events resolveRecipients_def
      split: prod.split sum.split option.split)

lemma sent_channels_keys: "sent_channels evs = map fst (send_keys evs)"
proof (induction evs)
  case (Cons ev evs)
  then show ?case by (cases ev) simp_all
qed simp

lemma recorded_Dispatch:
  assumes "Dispatch uuid_ok (recorded d) np e = (res, e')"
  shows "Dispatch uuid_ok d np (unrecorded e) = (res, unrecorded e')"
    and "\<exists>calls. snd (world e') = snd (world e) @ calls \<and> providerSends e' = providerSends e @ map fst calls
       \<and> (calls = [] \<or> (\<exists>evs np' w'. dispatch_spec uuid_ok d np (fst (world e)) = (Inr evs, np', w') \<and> calls = send_keys evs))"
proof -
  obtain w l where w: "world e = (w, l)" by fastforce
  obtain x np' w' where spec: "dispatch_spec uuid_ok d np w = (x, np', w')" by (metis prod.exhaust)
  show "Dispatch uuid_ok d np (unrecorded e) = (res, unrecorded e')"
    using assms by (cases x) (auto simp: Dispatch_events w spec recorded_spec unrecorded_def after_events_def)
  show "\<exists>calls. snd (world e') = snd (world e) @ calls \<and> providerSends e' = providerSends e @ map fst calls
       \<and> (calls = [] \<or> (\<exists>evs np' w'. dispatch_spec uuid_ok d np (fst (world e)) = (Inr evs, np', w') \<and> calls = send_keys evs))"
    using assms by (cases x) (auto simp: Dispatch_events w spec recorded_spec after_events_def sent_channels_keys)
qed

section \<open>Recipients and channels without repetition\<close>

text \<open>The primary key of the subscriptions; the dispatcher's statements do not touch their table.\<close>

definition topics_keyed :: "pg \<Rightarrow> bool" where
  "topics_keyed s \<longleftrightarrow> distinct (map (\<lambda>q. (ts_subject q, ts_topic q)) (topic_subscriptions s))"

definition subscribers :: "string \<Rightarrow> pg \<Rightarrow> string list" where
  "subscribers topic s = map ts_subject (filter (\<lambda>q. ts_topic q = topic) (topic_subscriptions s))"

lemma distinct_subscribers: "topics_keyed s \<Longrightarrow> distinct (subscribers topic s)"
  by (auto simp: topics_keyed_def subscribers_def distinct_map inj_on_def)

lemma ListTopicSubscribers_lists:
  "ListTopicSubscribers X topic s = (Inr rs, s') \<Longrightarrow> rs = sort (subscribers topic s)"
  by (auto simp: ListTopicSubscribers_def pg_run_def subscribers_def split: prod.splits sum.splits list.splits option.splits)

lemma upsert_topics: "topic_subscriptions (snd (UpsertNotification X np s)) = topic_subscriptions s"
  by (auto simp: UpsertNotification_def sql_upsert_notification_def pg_run_def Let_def
      split: prod.split sum.split option.split list.split)

lemma sent_registered:
  "(c, r) \<in> set (send_keys (fst (dispatch_events d n rs w))) \<Longrightarrow> registry_Get (dp_providers d) c \<noteq> None"
proof (induction rs arbitrary: w)
  case (Cons r' rs)
  then show ?case
    using send_events_keys [of d n r']
    by (auto simp: case_prod_beta Let_def split: sum.splits)
qed simp

text \<open>What a dispatch sends to: recipients without repetition, with the channels in normal form.\<close>

lemma dispatch_spec_targets:
  assumes "pg_inv s" and "topics_keyed s" and "dp_store d = pg_store X"
    and "dispatch_spec uuid_ok d (Some n) s = (Inr evs, np', s')"
  obtains n' rs s1 where "evs = fst (dispatch_events d n' rs s1)" "pg_inv s1" "distinct (n_Channels n')" "distinct rs"
    "set rs = set (if uniqueStrings (n_Recipients n) \<noteq> [] then uniqueStrings (n_Recipients n)
                   else subscribers (n_Topic (Normalize n)) s)"
proof -
  obtain e np2 s1 where ups: "sa_UpsertNotification (dp_store d) (Some (Normalize n)) s = ((e, np2), s1)"
    by (metis prod.exhaust)
  then have "e = None" using assms(4) by (cases e) (auto simp: dispatch_spec_def split: if_splits)
  with ups obtain k t where np2: "np2 = Some ((Normalize n)\<lparr>n_ID := k, n_CreatedAt := t\<rparr>)" (is "_ = Some ?n")
    using pg_dispatch.upsert_ok [of X "Normalize n" s] assms(3) by auto
  have s1: "s1 = snd (UpsertNotification X (Some (Normalize n)) s)"
    using ups assms(3) by (simp add: pg_store_def)
  have topics: "topic_subscriptions s1 = topic_subscriptions s" unfolding s1 by (rule upsert_topics)
  have inv: "pg_inv s1" using pg_dispatch.inv_upsert [OF assms(1), of X "Some (Normalize n)"] ups assms(3) by simp
  have chans: "distinct (n_Channels ?n)" by (simp add: Normalize_def uniqueChannels_eq distinct_uniqueStrings)
  obtain x s2 where rec: "resolveRecipients d ?n s1 = (x, s2)" by fastforce
  then obtain rs where x: "x = Inr rs" and evs: "evs = fst (dispatch_events d ?n rs s2)"
    using assms(4) ups np2 \<open>e = None\<close> by (cases x) (auto simp: dispatch_spec_def split: if_splits prod.splits)
  show thesis
  proof (cases "uniqueStrings (n_Recipients n) = []")
    case False
    then have "rs = uniqueStrings (n_Recipients n)" "s2 = s1"
      using rec x by (auto simp: resolveRecipients_def Normalize_def)
    then show thesis using that [OF evs _ chans] inv False by (simp add: distinct_uniqueStrings)
  next
    case True
    then have lst: "ListTopicSubscribers X (n_Topic ?n) s1 = (Inr rs, s2)"
      using rec x assms(3) by (auto simp: resolveRecipients_def Normalize_def pg_store_def split: prod.splits sum.splits)
    have rs: "rs = sort (subscribers (n_Topic (Normalize n)) s)"
      using ListTopicSubscribers_lists [OF lst] topics by (simp add: subscribers_def)
    have "pg_inv (snd (ListTopicSubscribers X (n_Topic ?n) s1))" using inv by (rule pg_inv_operations)
    then have "pg_inv s2" unfolding lst snd_conv .
    then show thesis
      using that [OF evs _ chans] rs distinct_subscribers [OF assms(2)] True by simp
  qed
qed

lemma calls_of_spec:
  assumes "pg_inv s" and "topics_keyed s" and "dp_store d = pg_store X" and "providers_keep pg_inv (dp_providers d)"
    and "dispatch_spec uuid_ok d (Some n) s = (Inr evs, np', s')"
  shows "distinct (send_keys evs) \<and> (\<forall>(c, r) \<in> set (send_keys evs). registry_Get (dp_providers d) c \<noteq> None
     \<and> r \<in> set (if uniqueStrings (n_Recipients n) \<noteq> [] then uniqueStrings (n_Recipients n)
               else subscribers (n_Topic (Normalize n)) s))" (is "_ \<and> (\<forall>(c, r) \<in> _. _ \<and> r \<in> set ?R)")
proof (rule dispatch_spec_targets [OF assms(1-3,5)])
  fix n' rs s1
  assume evs: "evs = fst (dispatch_events d n' rs s1)" and "pg_inv s1" "distinct (n_Channels n')" "distinct rs"
    and rs: "set rs = set (if uniqueStrings (n_Recipients n) \<noteq> [] then uniqueStrings (n_Recipients n)
                   else subscribers (n_Topic (Normalize n)) s)"
  then have once: "distinct (send_keys evs)" and to: "snd ` set (send_keys evs) \<subseteq> set ?R"
    using pg_dispatch.sends_once [OF assms(3,4), of n' s1 rs] by (simp_all only: evs simp_thms)
  have "registry_Get (dp_providers d) c \<noteq> None \<and> r \<in> set ?R" if "(c, r) \<in> set (send_keys evs)" for c r
    using that to image_eqI [of r snd "(c, r)"] sent_registered [of c r d n' rs s1] unfolding evs by auto
  with once show ?thesis by blast
qed

text \<open>
  C23: over the PostgreSQL store no provider is called twice for one recipient in a dispatch, whatever
  repetitions the caller's lists have: a dispatch makes the calls noted, without repetition, each on a
  registered channel, counted by channel, and only to recipients the caller named or, when he
  named none, to subscribers of the topic. Recipients are told apart by their text. Noting the calls does
  not change the dispatch.
\<close>

theorem no_double_send:
  assumes "pg_inv (fst (world e))" and "topics_keyed (fst (world e))"
    and "dp_store d = pg_store X" and "providers_keep pg_inv (dp_providers d)"
    and "Dispatch uuid_ok (recorded d) (Some n) e = (res, e')"
  shows "Dispatch uuid_ok d (Some n) (unrecorded e) = (res, unrecorded e')
     \<and> (\<exists>calls. snd (world e') = snd (world e) @ calls \<and> distinct calls
          \<and> providerSends e' = providerSends e @ map fst calls
          \<and> (\<forall>(c, r) \<in> set calls. registry_Get (dp_providers d) c \<noteq> None
               \<and> r \<in> set (if uniqueStrings (n_Recipients n) \<noteq> [] then uniqueStrings (n_Recipients n)
                          else subscribers (n_Topic (Normalize n)) (fst (world e)))))"
proof -
  obtain calls where calls: "snd (world e') = snd (world e) @ calls" "providerSends e' = providerSends e @ map fst calls"
    and from_spec: "calls = [] \<or> (\<exists>evs np' w'. dispatch_spec uuid_ok d (Some n) (fst (world e)) = (Inr evs, np', w')
        \<and> calls = send_keys evs)"
    using recorded_Dispatch(2) [OF assms(5)] by blast
  have "distinct calls \<and> (\<forall>(c, r) \<in> set calls. registry_Get (dp_providers d) c \<noteq> None \<and> r \<in> set (
      if uniqueStrings (n_Recipients n) \<noteq> [] then uniqueStrings (n_Recipients n)
      else subscribers (n_Topic (Normalize n)) (fst (world e))))"
    using from_spec
  proof (elim disjE exE conjE)
    fix evs np' w' assume run: "dispatch_spec uuid_ok d (Some n) (fst (world e)) = (Inr evs, np', w')" and c: "calls = send_keys evs"
    show ?thesis unfolding c by (rule calls_of_spec [OF assms(1-4) run])
  qed simp
  with calls recorded_Dispatch(1) [OF assms(5)] show ?thesis by blast
qed

section \<open>Witness\<close>

lemma sample_recorded:
  "snd (world (snd (Dispatch (\<lambda>_. True) (recorded sample_pg_dispatcher) (Some sample_message)
      \<lparr>world = (sample_pg, []), providerSends = [], providerErrors = []\<rparr>))) = [(''site'', ''r1''), (''site'', ''r2'')]"
  "topics_keyed sample_pg"
  by code_simp+

theorem no_double_send_witness:
  "\<exists>e'. snd (world e') = [(''site'', ''r1''), (''site'', ''r2'')] \<and> providerSends e' = [''site'', ''site'']
     \<and> snd (Dispatch (\<lambda>_. True) sample_pg_dispatcher (Some sample_message)
          \<lparr>world = sample_pg, providerSends = [], providerErrors = []\<rparr>) = unrecorded e'"
proof -
  let ?e = "\<lparr>world = (sample_pg, [] :: (Channel \<times> string) list), providerSends = [], providerErrors = []\<rparr>"
  obtain res e' where run: "Dispatch (\<lambda>_. True) (recorded sample_pg_dispatcher) (Some sample_message) ?e = (res, e')"
    by fastforce
  have calls: "snd (world e') = [(''site'', ''r1''), (''site'', ''r2'')]" using sample_recorded(1) by (simp add: run)
  have "providers_keep pg_inv (dp_providers sample_pg_dispatcher)"
    by (auto simp: providers_keep_def sample_pg_dispatcher_def NewRegistry_def registry_Get_def split: if_splits)
  moreover have "pg_inv (fst (world ?e))" "topics_keyed (fst (world ?e))"
    using sample_inbox(1) sample_recorded(2) by simp_all
  moreover have "dp_store sample_pg_dispatcher = pg_store sample_server" by (simp add: sample_pg_dispatcher_def)
  ultimately have "Dispatch (\<lambda>_. True) sample_pg_dispatcher (Some sample_message) (unrecorded ?e) = (res, unrecorded e')"
      "\<exists>calls. snd (world e') = snd (world ?e) @ calls \<and> providerSends e' = providerSends ?e @ map fst calls"
    using no_double_send [OF _ _ _ _ run] by blast+
  moreover have "unrecorded ?e = \<lparr>world = sample_pg, providerSends = [], providerErrors = []\<rparr>"
    by (simp add: unrecorded_def)
  ultimately show ?thesis using calls by (intro exI [of _ e']) auto
qed

end
