(* ===== verification/Hub.thy ===== *)
theory Hub
  imports Errors GoStrings
begin

text \<open>
  \<open>internal/sse/hub.go\<close>: the hub that forwards Redis events to the open event streams. A client's Go
  channel is an entry of the heap \<open>hb_chans\<close>, its address the index; sending on a closed channel
  and closing one twice panic, which is the result \<open>None\<close>. \<open>register\<close>, \<open>unregister\<close> and \<open>broadcast\<close> run
  under the hub's lock: each is one step. A stream is a connection with what has been written to it; the
  goroutines of \<open>ServeHTTP\<close> and \<open>Start\<close> are the events of a transition system. The identity of a
  request and \<open>uuid.Parse\<close> are as in \<open>Http\<close>; the Redis client is third-party: what it delivers is an event.
\<close>

section \<open>The hub\<close>

record chan =
  ch_buf :: "string list"
  ch_closed :: bool

record hub =
  hb_redis :: bool
  hb_targetPrefixes :: "string go_map"
  hb_defaultTarget :: string
  hb_gauge :: "int option"
  hb_clients :: "nat list go_map"
  hb_chans :: "chan list"

definition clonePrefixes :: "string go_map \<Rightarrow> string go_map" where
  "clonePrefixes ps = fold (\<lambda>(name, pre) out. go_put name pre out) ps []"

definition hub_New :: "bool \<Rightarrow> string go_map \<Rightarrow> string \<Rightarrow> int option \<Rightarrow> hub" where
  "hub_New redis targetPrefixes defaultTarget gauge =
     (let targetPrefixes = (if length targetPrefixes = 0 then [(''default'', ''notify:'')] else targetPrefixes);
          defaultTarget = (if defaultTarget = [] then ''default'' else defaultTarget)
      in \<lparr>hb_redis = redis, hb_targetPrefixes = clonePrefixes targetPrefixes, hb_defaultTarget = defaultTarget,
          hb_gauge = gauge, hb_clients = [], hb_chans = []\<rparr>)"

definition hub_patterns :: "hub \<Rightarrow> string list" where
  "hub_patterns h = sort (map (\<lambda>(name, pre). pre @ ''*'') (hb_targetPrefixes h))"

text \<open>\<open>Start\<close>: \<open>subscribed\<close> is the client's answer to the subscription; the goroutine it starts is below.\<close>

definition hub_Start :: "error \<Rightarrow> hub \<Rightarrow> error \<times> string list" where
  "hub_Start subscribed h =
     (if \<not> hb_redis h then (None, [])
      else (case subscribed of
              Some e \<Rightarrow> (Some (Wrapf ''subscribe redis pubsub: %w'' [] e), hub_patterns h)
            | None \<Rightarrow> (None, hub_patterns h)))"

definition clientKey :: "string \<Rightarrow> string \<Rightarrow> string" where
  "clientKey target subject = target @ [CHR 0x00] @ subject"

fun resolve_loop :: "(string \<times> string) list \<Rightarrow> string \<Rightarrow> string \<Rightarrow> string \<Rightarrow> string \<times> string" where
  "resolve_loop [] channel longestPrefix target = (longestPrefix, target)"
| "resolve_loop ((name, pre) # rest) channel longestPrefix target =
     (if has_prefix channel pre \<and> length pre > length longestPrefix
      then resolve_loop rest channel pre name
      else resolve_loop rest channel longestPrefix target)"

definition resolveChannel :: "hub \<Rightarrow> string \<Rightarrow> (string \<times> string) option" where
  "resolveChannel h channel =
     (case resolve_loop (hb_targetPrefixes h) channel [] [] of
        (longestPrefix, target) \<Rightarrow>
          if longestPrefix = [] then None else Some (target, trim_prefix channel longestPrefix))"

section \<open>Registering, unregistering, broadcasting\<close>

definition registered :: "hub \<Rightarrow> string \<Rightarrow> nat list" where
  "registered h key = (case go_get (hb_clients h) key of None \<Rightarrow> [] | Some chs \<Rightarrow> chs)"

definition register :: "string \<Rightarrow> nat \<Rightarrow> hub \<Rightarrow> hub" where
  "register key ch h = h\<lparr>hb_clients := go_put key (List.insert ch (registered h key)) (hb_clients h),
     hb_gauge := map_option (\<lambda>g. g + 1) (hb_gauge h)\<rparr>"

definition delete_client :: "string \<Rightarrow> nat \<Rightarrow> hub \<Rightarrow> nat list go_map" where
  "delete_client key ch h =
     (case go_get (hb_clients h) key of
        None \<Rightarrow> hb_clients h
      | Some chs \<Rightarrow>
          (let chs' = removeAll ch chs
           in if length chs' = 0 then AList.delete key (hb_clients h) else go_put key chs' (hb_clients h)))"

definition unregister :: "string \<Rightarrow> nat \<Rightarrow> hub \<Rightarrow> hub option" where
  "unregister key ch h =
     (if ch_closed (hb_chans h ! ch) then None
      else Some (h\<lparr>hb_clients := delete_client key ch h,
                   hb_chans := (hb_chans h)[ch := (hb_chans h ! ch)\<lparr>ch_closed := True\<rparr>],
                   hb_gauge := map_option (\<lambda>g. g - 1) (hb_gauge h)\<rparr>))"

definition chan_capacity :: nat where "chan_capacity = 16"

fun broadcast_loop :: "nat list \<Rightarrow> string \<Rightarrow> chan list \<Rightarrow> chan list option" where
  "broadcast_loop [] payload chans = Some chans"
| "broadcast_loop (ch # rest) payload chans =
     (if ch_closed (chans ! ch) then None
      else if length (ch_buf (chans ! ch)) < chan_capacity then
        broadcast_loop rest payload (chans[ch := (chans ! ch)\<lparr>ch_buf := ch_buf (chans ! ch) @ [payload]\<rparr>])
      else broadcast_loop rest payload chans)"

definition broadcast :: "string \<Rightarrow> string \<Rightarrow> hub \<Rightarrow> hub option" where
  "broadcast key payload h =
     map_option (\<lambda>chans. h\<lparr>hb_chans := chans\<rparr>) (broadcast_loop (registered h key) payload (hb_chans h))"

section \<open>The streams\<close>

record sse_request =
  sq_flusher :: bool
  sq_identity :: "string option"
  sq_target :: string

text \<open>The checks of \<open>ServeHTTP\<close>: the text and status of an error, or the target and the subject.\<close>

definition sse_admit :: "(string \<Rightarrow> bool) \<Rightarrow> hub \<Rightarrow> sse_request \<Rightarrow> (string \<times> int) + (string \<times> string)" where
  "sse_admit uuid_ok h r =
     (if \<not> sq_flusher r then Inl (''streaming unsupported'', 500)
      else
        (case sq_identity r of
           None \<Rightarrow> Inl (''missing gateway identity'', 401)
         | Some subject \<Rightarrow>
             if subject = [] then Inl (''missing gateway identity'', 401)
             else if \<not> uuid_ok subject then Inl (''invalid subject'', 401)
             else
               (let target = trim_space (sq_target r);
                    target = (if target = [] then hb_defaultTarget h else target)
                in if go_get (hb_targetPrefixes h) target = None then Inl (''unknown notification target'', 400)
                   else Inr (target, subject))))"

datatype frame = Connected | Event string | Ping

definition newline :: string where "newline = [CHR 0x0A]"

definition frame_text :: "frame \<Rightarrow> string" where
  "frame_text f = (case f of
       Connected \<Rightarrow> '': connected'' @ newline @ newline
     | Event payload \<Rightarrow> ''event: notification'' @ newline @ ''data: '' @ payload @ newline @ newline
     | Ping \<Rightarrow> '': ping'' @ newline @ newline)"

record conn =
  cn_key :: string
  cn_chan :: nat
  cn_out :: "frame list"
  cn_open :: bool

record hub_sys =
  hs_hub :: hub
  hs_conns :: "conn list"

definition hub_start :: "hub \<Rightarrow> hub_sys" where
  "hub_start h = \<lparr>hs_hub = h, hs_conns = []\<rparr>"

definition sse_connect :: "(string \<Rightarrow> bool) \<Rightarrow> sse_request \<Rightarrow> hub_sys \<Rightarrow> hub_sys" where
  "sse_connect uuid_ok r s =
     (case sse_admit uuid_ok (hs_hub s) r of
        Inl _ \<Rightarrow> s
      | Inr (target, subject) \<Rightarrow>
          (let h = hs_hub s; ch = length (hb_chans h); key = clientKey target subject in
           s\<lparr>hs_hub := register key ch (h\<lparr>hb_chans := hb_chans h @ [\<lparr>ch_buf = [], ch_closed = False\<rparr>]\<rparr>),
             hs_conns := hs_conns s @ [\<lparr>cn_key = key, cn_chan = ch, cn_out = [Connected], cn_open = True\<rparr>]\<rparr>))"

definition write_frame :: "nat \<Rightarrow> frame \<Rightarrow> hub_sys \<Rightarrow> hub_sys" where
  "write_frame i f s = s\<lparr>hs_conns := (hs_conns s)[i := (hs_conns s ! i)\<lparr>cn_out := cn_out (hs_conns s ! i) @ [f]\<rparr>]\<rparr>"

definition take_payload :: "nat \<Rightarrow> hub_sys \<Rightarrow> string \<times> hub_sys" where
  "take_payload i s =
     (let h = hs_hub s; ch = cn_chan (hs_conns s ! i); c = hb_chans h ! ch in
      (hd (ch_buf c), s\<lparr>hs_hub := h\<lparr>hb_chans := (hb_chans h)[ch := c\<lparr>ch_buf := tl (ch_buf c)\<rparr>]\<rparr>\<rparr>))"

text \<open>
  What can happen: a request arrives, Redis delivers a message or an error (after which the loop
  goes on), and stream \<open>i\<close> receives from its channel, sees its ticker or sees its client go, which runs
  the deferred \<open>unregister\<close>. A stream's event can happen while it is open; a receive needs a payload.
\<close>

datatype hub_event = Request sse_request | Message string string | RedisError | Receive nat | Tick nat | Gone nat

definition stream_open :: "hub_sys \<Rightarrow> nat \<Rightarrow> bool" where
  "stream_open s i \<longleftrightarrow> i < length (hs_conns s) \<and> cn_open (hs_conns s ! i)"

fun hub_enabled :: "hub_event \<Rightarrow> hub_sys \<Rightarrow> bool" where
  "hub_enabled (Receive i) s \<longleftrightarrow> stream_open s i \<and> ch_buf (hb_chans (hs_hub s) ! cn_chan (hs_conns s ! i)) \<noteq> []"
| "hub_enabled (Tick i) s \<longleftrightarrow> stream_open s i"
| "hub_enabled (Gone i) s \<longleftrightarrow> stream_open s i"
| "hub_enabled _ s \<longleftrightarrow> True"

fun hub_trans :: "(string \<Rightarrow> bool) \<Rightarrow> hub_event \<Rightarrow> hub_sys \<Rightarrow> hub_sys option" where
  "hub_trans uuid_ok (Request r) s = Some (sse_connect uuid_ok r s)"
| "hub_trans uuid_ok (Message channel payload) s =
     (case resolveChannel (hs_hub s) channel of
        None \<Rightarrow> Some s
      | Some (target, subject) \<Rightarrow>
          map_option (\<lambda>h. s\<lparr>hs_hub := h\<rparr>) (broadcast (clientKey target subject) payload (hs_hub s)))"
| "hub_trans uuid_ok RedisError s = Some s"
| "hub_trans uuid_ok (Receive i) s = (case take_payload i s of (payload, s') \<Rightarrow> Some (write_frame i (Event payload) s'))"
| "hub_trans uuid_ok (Tick i) s = Some (write_frame i Ping s)"
| "hub_trans uuid_ok (Gone i) s =
     map_option (\<lambda>h. s\<lparr>hs_hub := h, hs_conns := (hs_conns s)[i := (hs_conns s ! i)\<lparr>cn_open := False\<rparr>]\<rparr>)
       (unregister (cn_key (hs_conns s ! i)) (cn_chan (hs_conns s ! i)) (hs_hub s))"

inductive hub_steps :: "(string \<Rightarrow> bool) \<Rightarrow> hub_sys \<Rightarrow> hub_event list \<Rightarrow> hub_sys \<Rightarrow> bool" for uuid_ok s where
  none: "hub_steps uuid_ok s [] s"
| more: "hub_steps uuid_ok s evs s1 \<Longrightarrow> hub_enabled ev s1 \<Longrightarrow> hub_trans uuid_ok ev s1 = Some s2
           \<Longrightarrow> hub_steps uuid_ok s (evs @ [ev]) s2"

inductive_cases hub_steps_snocE: "hub_steps uuid_ok s (evs @ [ev]) s'"

end
