(* ===== verification/HubProps.thy ===== *)
theory HubProps
  imports Hub
begin

text \<open>
  The hub never panics, its registry holds exactly the open streams, and a stream carries the events
  of its own key in their order. The invariant is \<open>hub_inv\<close>; each operation has a lemma that
  says what it does to the registry and the channels, and the properties are rule inductions.
\<close>

section \<open>The registry\<close>

lemma list_insert_not_Nil [simp]: "List.insert x xs \<noteq> []"
  by (auto simp: List.insert_def)

lemma registered_register [simp]:
  "registered (register key ch h) k = (if k = key then List.insert ch (registered h key) else registered h k)"
  by (simp add: registered_def register_def update_conv')

lemma go_get_AList_delete: "go_get (AList.delete k m) k' = (if k' = k then None else go_get m k')"
  by (simp add: delete_conv')

lemma go_get_delete_client:
  "go_get (delete_client key ch h) k =
     (if k = key then (let chs = removeAll ch (registered h key) in if chs = [] then None else Some chs)
      else go_get (hb_clients h) k)"
  by (auto simp: delete_client_def registered_def Let_def update_conv' go_get_AList_delete split: option.split)

lemma is_go_map_delete_client: "is_go_map (hb_clients h) \<Longrightarrow> is_go_map (delete_client key ch h)"
  by (auto simp: delete_client_def Let_def distinct_update distinct_delete split: option.split)

lemma unregister_Some:
  assumes "unregister key ch h = Some h'"
  shows "hb_clients h' = delete_client key ch h" "hb_chans h' = (hb_chans h)[ch := (hb_chans h ! ch)\<lparr>ch_closed := True\<rparr>]"
    "hb_gauge h' = map_option (\<lambda>g. g - 1) (hb_gauge h)" "hb_targetPrefixes h' = hb_targetPrefixes h"
    "hb_defaultTarget h' = hb_defaultTarget h"
  using assms by (auto simp: unregister_def split: if_splits)

definition push :: "string \<Rightarrow> chan \<Rightarrow> chan" where
  "push payload c = (if length (ch_buf c) < chan_capacity then c\<lparr>ch_buf := ch_buf c @ [payload]\<rparr> else c)"

lemma push_simps [simp]: "ch_closed (push p c) = ch_closed c"
  "length (ch_buf c) \<le> chan_capacity \<Longrightarrow> length (ch_buf (push p c)) \<le> chan_capacity"
  by (auto simp: push_def)

lemma broadcast_loop_spec:
  assumes "distinct chs" and "\<forall>ch \<in> set chs. ch < length chans \<and> \<not> ch_closed (chans ! ch)"
  shows "\<exists>chans'. broadcast_loop chs payload chans = Some chans' \<and> length chans' = length chans
     \<and> (\<forall>i < length chans. chans' ! i = (if i \<in> set chs then push payload (chans ! i) else chans ! i))"
  using assms
proof (induction chs payload chans rule: broadcast_loop.induct)
  case (2 ch rest payload chans)
  let ?c = "chans[ch := push payload (chans ! ch)]"
  have ch: "ch < length chans" "\<not> ch_closed (chans ! ch)" "ch \<notin> set rest" using "2.prems" by auto
  have ok: "\<forall>x \<in> set rest. x < length ?c \<and> \<not> ch_closed (?c ! x)"
    using "2.prems" ch(3) by (metis distinct.simps(2) length_list_update list.set_intros(2) nth_list_update_neq)
  have step: "broadcast_loop (ch # rest) payload chans = broadcast_loop rest payload ?c"
    using ch by (simp add: push_def)
  have "\<exists>chans'. broadcast_loop rest payload ?c = Some chans' \<and> length chans' = length ?c
     \<and> (\<forall>i < length ?c. chans' ! i = (if i \<in> set rest then push payload (?c ! i) else ?c ! i))"
  proof (cases "length (ch_buf (chans ! ch)) < chan_capacity")
    case True
    then have eq: "chans[ch := (chans ! ch)\<lparr>ch_buf := ch_buf (chans ! ch) @ [payload]\<rparr>] = ?c"
      by (simp add: push_def)
    show ?thesis using "2.prems"(1) ok by (intro "2.IH"(1) [OF ch(2) True, unfolded eq]) simp_all
  next
    case False
    then have eq: "?c = chans" by (simp add: push_def)
    show ?thesis using "2.prems"(1) ok unfolding eq by (intro "2.IH"(2) [OF ch(2) False]) simp_all
  qed
  then show ?case unfolding step using ch(1,3) by (auto simp: nth_list_update)
qed simp

section \<open>The invariant\<close>

definition stream_ok :: "hub_sys \<Rightarrow> nat \<Rightarrow> bool" where
  "stream_ok s i \<longleftrightarrow> cn_chan (hs_conns s ! i) = i
     \<and> ch_closed (hb_chans (hs_hub s) ! i) = (\<not> cn_open (hs_conns s ! i))
     \<and> length (ch_buf (hb_chans (hs_hub s) ! i)) \<le> chan_capacity"

definition open_count :: "hub_sys \<Rightarrow> nat" where
  "open_count s = length (filter cn_open (hs_conns s))"

definition registry_ok :: "hub_sys \<Rightarrow> bool" where
  "registry_ok s \<longleftrightarrow> is_go_map (hb_clients (hs_hub s))
     \<and> (\<forall>k. go_get (hb_clients (hs_hub s)) k \<noteq> Some [] \<and> distinct (registered (hs_hub s) k))
     \<and> (\<forall>k i. i \<in> set (registered (hs_hub s) k) \<longleftrightarrow> stream_open s i \<and> cn_key (hs_conns s ! i) = k)"

definition hub_inv :: "int option \<Rightarrow> hub_sys \<Rightarrow> bool" where
  "hub_inv g0 s \<longleftrightarrow> registry_ok s \<and> length (hb_chans (hs_hub s)) = length (hs_conns s)
     \<and> (\<forall>i < length (hs_conns s). stream_ok s i)
     \<and> hb_gauge (hs_hub s) = map_option (\<lambda>g. g + int (open_count s)) g0"

lemma hub_invD:
  assumes "hub_inv g0 s"
  shows "registry_ok s" "length (hb_chans (hs_hub s)) = length (hs_conns s)"
    "i < length (hs_conns s) \<Longrightarrow> stream_ok s i"
    "hb_gauge (hs_hub s) = map_option (\<lambda>g. g + int (open_count s)) g0"
  using assms by (auto simp: hub_inv_def)

lemma hub_inv_start: "hb_clients h = [] \<Longrightarrow> hb_chans h = [] \<Longrightarrow> hub_inv (hb_gauge h) (hub_start h)"
  by (cases "hb_gauge h") (auto simp: hub_inv_def hub_start_def registry_ok_def registered_def stream_open_def open_count_def)

lemma conn_cases:
  obtains (refused) "sse_connect uuid_ok r s = s"
  | (admitted) target subject where "sse_admit uuid_ok (hs_hub s) r = Inr (target, subject)"
      "sse_connect uuid_ok r s = s\<lparr>hs_hub := register (clientKey target subject) (length (hb_chans (hs_hub s)))
           ((hs_hub s)\<lparr>hb_chans := hb_chans (hs_hub s) @ [\<lparr>ch_buf = [], ch_closed = False\<rparr>]\<rparr>),
         hs_conns := hs_conns s @ [\<lparr>cn_key = clientKey target subject, cn_chan = length (hb_chans (hs_hub s)),
           cn_out = [Connected], cn_open = True\<rparr>]\<rparr>"
  by (cases "sse_admit uuid_ok (hs_hub s) r") (auto simp: sse_connect_def Let_def)

lemma hub_inv_connect:
  assumes "hub_inv g0 s"
  shows "hub_inv g0 (sse_connect uuid_ok r s)"
proof (cases rule: conn_cases [of uuid_ok r s])
  case refused
  then show ?thesis using assms by simp
next
  case (admitted target subject)
  let ?h = "hs_hub s" and ?key = "clientKey target subject" and ?n = "length (hs_conns s)" and ?s = "sse_connect uuid_ok r s"
  note len = hub_invD(2) [OF assms]
  have h: "hs_hub ?s = register ?key ?n (?h\<lparr>hb_chans := hb_chans ?h @ [\<lparr>ch_buf = [], ch_closed = False\<rparr>]\<rparr>)"
    and c: "hs_conns ?s = hs_conns s @ [\<lparr>cn_key = ?key, cn_chan = ?n, cn_out = [Connected], cn_open = True\<rparr>]"
    using admitted(2) len by simp_all
  have reg: "registered (?h\<lparr>hb_chans := x\<rparr>) k = registered ?h k" for x k by (simp add: registered_def)
  have open_iff: "stream_open ?s i \<longleftrightarrow> i = ?n \<or> stream_open s i" for i
    by (auto simp: stream_open_def c nth_append)
  have regk: "registered (hs_hub ?s) k = (if k = ?key then List.insert ?n (registered ?h ?key) else registered ?h k)" for k
    unfolding h registered_register reg ..
  have old: "stream_open s i \<and> cn_key (hs_conns s ! i) = k \<longleftrightarrow> i \<in> set (registered ?h k)" for i k
    using hub_invD(1) [OF assms] by (simp add: registry_ok_def)
  have new: "stream_open ?s i \<and> cn_key (hs_conns ?s ! i) = k \<longleftrightarrow> i = ?n \<and> k = ?key \<or> i \<in> set (registered ?h k)" for i k
    using old [of i k] open_iff [of i] by (auto simp: c nth_append stream_open_def)
  have "registry_ok ?s"
    unfolding registry_ok_def new regk
    using hub_invD(1) [OF assms]
    by (auto simp: registry_ok_def h register_def distinct_update update_conv' reg)
  moreover have "stream_ok ?s i" if "i < length (hs_conns ?s)" for i
    using hub_invD(3) [OF assms, of i] that len
    by (auto simp: stream_ok_def h c register_def nth_append chan_capacity_def)
  moreover have "hb_gauge (hs_hub ?s) = map_option (\<lambda>g. g + int (open_count ?s)) g0"
    using hub_invD(4) [OF assms] by (cases g0) (simp_all add: h c register_def open_count_def)
  moreover have "length (hb_chans (hs_hub ?s)) = length (hs_conns ?s)"
    using len by (simp add: h c register_def)
  ultimately show ?thesis by (simp add: hub_inv_def)
qed

text \<open>Writing to a stream and taking a payload from its channel touch neither the registry nor the flags.\<close>

definition same_streams :: "hub_sys \<Rightarrow> hub_sys \<Rightarrow> bool" where
  "same_streams s s' \<longleftrightarrow> hb_clients (hs_hub s') = hb_clients (hs_hub s) \<and> hb_gauge (hs_hub s') = hb_gauge (hs_hub s)
     \<and> length (hb_chans (hs_hub s')) = length (hb_chans (hs_hub s)) \<and> length (hs_conns s') = length (hs_conns s)
     \<and> (\<forall>i < length (hs_conns s). cn_key (hs_conns s' ! i) = cn_key (hs_conns s ! i)
          \<and> cn_chan (hs_conns s' ! i) = cn_chan (hs_conns s ! i) \<and> cn_open (hs_conns s' ! i) = cn_open (hs_conns s ! i))
     \<and> (\<forall>i < length (hb_chans (hs_hub s)). ch_closed (hb_chans (hs_hub s') ! i) = ch_closed (hb_chans (hs_hub s) ! i)
          \<and> (length (ch_buf (hb_chans (hs_hub s) ! i)) \<le> chan_capacity
               \<longrightarrow> length (ch_buf (hb_chans (hs_hub s') ! i)) \<le> chan_capacity))"

lemma same_streams_trans: "same_streams s s1 \<Longrightarrow> same_streams s1 s2 \<Longrightarrow> same_streams s s2"
  by (simp add: same_streams_def)

lemma open_count_cong:
  assumes "length cs' = length cs" and "\<forall>i < length cs. cn_open (cs' ! i) = cn_open (cs ! i)"
  shows "length (filter cn_open cs') = length (filter cn_open cs)"
proof -
  have "map cn_open cs' = map cn_open cs" using assms by (simp add: list_eq_iff_nth_eq)
  then have "length (filter (\<lambda>b. b) (map cn_open cs')) = length (filter (\<lambda>b. b) (map cn_open cs))" by simp
  then show ?thesis by (simp add: filter_map o_def)
qed

lemma hub_inv_same:
  assumes "hub_inv g0 s" and "same_streams s s'"
  shows "hub_inv g0 s'"
proof -
  note same = assms(2) [unfolded same_streams_def]
  have reg: "registered (hs_hub s') k = registered (hs_hub s) k" for k using same by (simp add: registered_def)
  have op: "stream_open s' i \<and> cn_key (hs_conns s' ! i) = k \<longleftrightarrow> stream_open s i \<and> cn_key (hs_conns s ! i) = k" for i k
    using same by (auto simp: stream_open_def)
  have "open_count s' = open_count s"
    unfolding open_count_def using same by (intro open_count_cong) auto
  moreover have "registry_ok s'"
    using hub_invD(1) [OF assms(1)] same unfolding registry_ok_def reg op by simp
  ultimately show ?thesis
    using assms(1) same by (simp add: hub_inv_def stream_ok_def)
qed

lemma same_write: "i < length (hs_conns s) \<Longrightarrow> same_streams s (write_frame i f s)"
  by (auto simp: same_streams_def write_frame_def nth_list_update)

lemma same_take:
  assumes "cn_chan (hs_conns s ! i) < length (hb_chans (hs_hub s))"
  shows "same_streams s (snd (take_payload i s))"
  using assms by (auto simp: same_streams_def take_payload_def Let_def nth_list_update)

lemma broadcast_some:
  assumes "hub_inv g0 s"
  shows "\<exists>chans'. broadcast k payload (hs_hub s) = Some ((hs_hub s)\<lparr>hb_chans := chans'\<rparr>)
     \<and> length chans' = length (hb_chans (hs_hub s))
     \<and> (\<forall>i < length chans'. chans' ! i = (if stream_open s i \<and> cn_key (hs_conns s ! i) = k
          then push payload (hb_chans (hs_hub s) ! i) else hb_chans (hs_hub s) ! i))"
proof -
  note reg = hub_invD(1) [OF assms, unfolded registry_ok_def]
  have "\<forall>ch \<in> set (registered (hs_hub s) k). ch < length (hb_chans (hs_hub s)) \<and> \<not> ch_closed (hb_chans (hs_hub s) ! ch)"
    using reg hub_invD(2,3) [OF assms] by (auto simp: stream_open_def stream_ok_def)
  from broadcast_loop_spec [OF _ this, of payload] reg obtain chans' where
    "broadcast_loop (registered (hs_hub s) k) payload (hb_chans (hs_hub s)) = Some chans'"
    "length chans' = length (hb_chans (hs_hub s))"
    "\<forall>i < length (hb_chans (hs_hub s)). chans' ! i = (if i \<in> set (registered (hs_hub s) k)
       then push payload (hb_chans (hs_hub s) ! i) else hb_chans (hs_hub s) ! i)" by blast
  then show ?thesis using reg by (intro exI [of _ chans']) (simp add: broadcast_def)
qed

lemma hub_inv_broadcast:
  assumes "hub_inv g0 s" and "broadcast k payload (hs_hub s) = Some h"
  shows "hub_inv g0 (s\<lparr>hs_hub := h\<rparr>)"
proof -
  obtain chans' where h: "h = (hs_hub s)\<lparr>hb_chans := chans'\<rparr>" and "length chans' = length (hb_chans (hs_hub s))"
    and "\<forall>i < length chans'. chans' ! i = (if stream_open s i \<and> cn_key (hs_conns s ! i) = k
          then push payload (hb_chans (hs_hub s) ! i) else hb_chans (hs_hub s) ! i)"
    using broadcast_some [OF assms(1), of k payload] assms(2) by auto
  then have "same_streams s (s\<lparr>hs_hub := h\<rparr>)" by (simp add: same_streams_def)
  then show ?thesis by (rule hub_inv_same [OF assms(1)])
qed

lemma length_filter_close:
  "i < length cs \<Longrightarrow> P (cs ! i) \<Longrightarrow> \<not> P c' \<Longrightarrow> Suc (length (filter P (cs[i := c']))) = length (filter P cs)"
proof (induction cs arbitrary: i)
  case (Cons c cs)
  then show ?case by (cases i) auto
qed simp

lemma hub_inv_gone:
  assumes "hub_inv g0 s" and "stream_open s i"
  shows "\<exists>h. unregister (cn_key (hs_conns s ! i)) (cn_chan (hs_conns s ! i)) (hs_hub s) = Some h
     \<and> hub_inv g0 (s\<lparr>hs_hub := h, hs_conns := (hs_conns s)[i := (hs_conns s ! i)\<lparr>cn_open := False\<rparr>]\<rparr>)"
proof -
  let ?k = "cn_key (hs_conns s ! i)" and ?h = "hs_hub s"
  have i: "i < length (hs_conns s)" "cn_open (hs_conns s ! i)" using assms(2) by (simp_all add: stream_open_def)
  have ok: "cn_chan (hs_conns s ! i) = i" "\<not> ch_closed (hb_chans ?h ! i)"
    using hub_invD(3) [OF assms(1) i(1)] i(2) by (simp_all add: stream_ok_def)
  then obtain h where h: "unregister ?k i ?h = Some h" by (simp add: unregister_def)
  note u = unregister_Some [OF h]
  let ?s = "s\<lparr>hs_hub := h, hs_conns := (hs_conns s)[i := (hs_conns s ! i)\<lparr>cn_open := False\<rparr>]\<rparr>"
  have regk: "registered h k = (if k = ?k then removeAll i (registered ?h ?k) else registered ?h k)" for k
    by (auto simp: registered_def u(1) go_get_delete_client Let_def)
  have old: "stream_open s j \<and> cn_key (hs_conns s ! j) = k \<longleftrightarrow> j \<in> set (registered ?h k)" for j k
    using hub_invD(1) [OF assms(1)] by (simp add: registry_ok_def)
  have new: "stream_open ?s j \<and> cn_key (hs_conns ?s ! j) = k \<longleftrightarrow> j \<noteq> i \<and> j \<in> set (registered ?h k)" for j k
    using old [of j k] i by (auto simp: stream_open_def nth_list_update)
  have ik: "i \<in> set (registered ?h k) \<longleftrightarrow> k = ?k" for k using old [of i k] assms(2) by auto
  have "registry_ok ?s"
    unfolding registry_ok_def new
  proof (intro conjI allI)
    show "is_go_map (hb_clients (hs_hub ?s))"
      using hub_invD(1) [OF assms(1)] by (simp add: u(1) registry_ok_def is_go_map_delete_client)
    show "go_get (hb_clients (hs_hub ?s)) k \<noteq> Some []" for k
      using hub_invD(1) [OF assms(1)] by (simp add: u(1) go_get_delete_client registry_ok_def Let_def)
    show "distinct (registered (hs_hub ?s) k)" for k
      using hub_invD(1) [OF assms(1)] by (simp add: regk registry_ok_def distinct_removeAll)
    show "(j \<in> set (registered (hs_hub ?s) k)) = (j \<noteq> i \<and> j \<in> set (registered ?h k))" for j k
      using ik [of k] by (auto simp: regk)
  qed
  moreover have "stream_ok ?s j" if "j < length (hs_conns ?s)" for j
    using hub_invD(2) [OF assms(1)] hub_invD(3) [OF assms(1), of j] that i by (auto simp: stream_ok_def u(2) nth_list_update)
  moreover have "Suc (open_count ?s) = open_count s"
    unfolding open_count_def using length_filter_close [of i "hs_conns s" cn_open] i by simp
  then have "hb_gauge (hs_hub ?s) = map_option (\<lambda>g. g + int (open_count ?s)) g0"
    using hub_invD(4) [OF assms(1)] by (cases g0) (auto simp: u(3))
  ultimately have "hub_inv g0 ?s"
    using hub_invD(2) [OF assms(1)] by (simp add: hub_inv_def u(2))
  then show ?thesis using h ok(1) by auto
qed

section \<open>No reachable panic\<close>

lemma hub_trans_inv:
  assumes "hub_inv g0 s" and "hub_enabled ev s"
  shows "\<exists>s'. hub_trans uuid_ok ev s = Some s' \<and> hub_inv g0 s'"
proof (cases ev)
  case (Request r)
  then show ?thesis using hub_inv_connect [OF assms(1)] by simp
next
  case (Message channel payload)
  show ?thesis
  proof (cases "resolveChannel (hs_hub s) channel")
    case (Some ts)
    obtain chans' where "broadcast (clientKey (fst ts) (snd ts)) payload (hs_hub s) = Some ((hs_hub s)\<lparr>hb_chans := chans'\<rparr>)"
      using broadcast_some [OF assms(1)] by blast
    then show ?thesis using Message Some hub_inv_broadcast [OF assms(1)] by (simp add: case_prod_beta)
  qed (simp add: Message assms(1))
next
  case (Receive i)
  then have i: "stream_open s i" using assms(2) by simp
  then have "i < length (hs_conns (snd (take_payload i s)))" and "cn_chan (hs_conns s ! i) < length (hb_chans (hs_hub s))"
    using hub_invD(2) [OF assms(1)] hub_invD(3) [OF assms(1), of i]
    by (auto simp: stream_open_def stream_ok_def take_payload_def Let_def)
  from this(1) same_take [OF this(2)]
  have "same_streams s (write_frame i (Event (fst (take_payload i s))) (snd (take_payload i s)))"
    by (metis same_streams_trans same_write)
  then show ?thesis using Receive hub_inv_same [OF assms(1)] by (simp add: case_prod_beta)
next
  case (Tick i)
  then show ?thesis using assms(2) hub_inv_same [OF assms(1) same_write] by (simp add: stream_open_def)
next
  case (Gone i)
  then have "stream_open s i" using assms(2) by simp
  from hub_inv_gone [OF assms(1) this] show ?thesis using Gone by auto
qed (simp add: assms(1))

lemma hub_steps_inv: "hub_steps uuid_ok s evs s' \<Longrightarrow> hub_inv g0 s \<Longrightarrow> hub_inv g0 s'"
proof (induction rule: hub_steps.induct)
  case (more evs s1 ev s2)
  then show ?case using hub_trans_inv [of g0 s1 ev uuid_ok] by auto
qed simp

lemma hub_New_start: "hub_inv gauge (hub_start (hub_New redis ps d gauge))"
proof -
  have "hb_gauge (hub_New redis ps d gauge) = gauge" by (simp add: hub_New_def Let_def)
  then show ?thesis using hub_inv_start [of "hub_New redis ps d gauge"] by (simp add: hub_New_def Let_def)
qed

text \<open>
  C16: in every state a new hub can reach, whatever requests, Redis messages, receives, ticks and
  departures came before in whatever order: no step panics (no send on a closed channel, no second
  close), the registry holds under each key exactly the open streams of that key and no empty
  entry, no channel holds more than 16 payloads, and the gauge has grown by the number of open streams.
\<close>

theorem hub_never_panics:
  assumes "hub_steps uuid_ok (hub_start (hub_New redis ps d gauge)) evs s"
  shows "(hub_enabled ev s \<longrightarrow> hub_trans uuid_ok ev s \<noteq> None)
     \<and> (\<forall>k i. i \<in> set (registered (hs_hub s) k) \<longleftrightarrow> stream_open s i \<and> cn_key (hs_conns s ! i) = k)
     \<and> (\<forall>k. go_get (hb_clients (hs_hub s)) k \<noteq> Some [])
     \<and> (\<forall>i < length (hs_conns s). length (ch_buf (hb_chans (hs_hub s) ! i)) \<le> 16)
     \<and> hb_gauge (hs_hub s) = map_option (\<lambda>g. g + int (open_count s)) gauge"
proof -
  note I = hub_steps_inv [OF assms hub_New_start]
  have "\<forall>i < length (hs_conns s). length (ch_buf (hb_chans (hs_hub s) ! i)) \<le> 16"
    using hub_invD(3) [OF I] by (simp add: stream_ok_def chan_capacity_def)
  moreover have "hub_enabled ev s \<longrightarrow> hub_trans uuid_ok ev s \<noteq> None"
    using hub_trans_inv [OF I, of ev uuid_ok] by auto
  ultimately show ?thesis using hub_invD(1,4) [OF I] unfolding registry_ok_def by blast
qed

section \<open>What a stream carries\<close>

definition events_of :: "frame list \<Rightarrow> string list" where
  "events_of fs = List.map_filter (\<lambda>f. case f of Event p \<Rightarrow> Some p | _ \<Rightarrow> None) fs"

definition received :: "hub_sys \<Rightarrow> nat \<Rightarrow> string list" where
  "received s i = events_of (cn_out (hs_conns s ! i)) @ ch_buf (hb_chans (hs_hub s) ! i)"

fun payloads_for :: "hub \<Rightarrow> string \<Rightarrow> hub_event list \<Rightarrow> string list" where
  "payloads_for h key [] = []"
| "payloads_for h key (Message channel payload # evs) =
     (case resolveChannel h channel of
        None \<Rightarrow> payloads_for h key evs
      | Some (target, subject) \<Rightarrow>
          (if clientKey target subject = key then payload # payloads_for h key evs else payloads_for h key evs))"
| "payloads_for h key (_ # evs) = payloads_for h key evs"

lemma events_of_simps [simp]:
  "events_of [] = []" "events_of (fs @ [Event p]) = events_of fs @ [p]" "events_of (fs @ [Ping]) = events_of fs"
  "events_of (fs @ [Connected]) = events_of fs"
  by (simp_all add: events_of_def List.map_filter_def)

lemma payloads_for_append: "payloads_for h key (evs @ evs') = payloads_for h key evs @ payloads_for h key evs'"
  by (induction h key evs rule: payloads_for.induct) (auto split: option.split)


definition buffered :: "hub_sys \<Rightarrow> nat \<Rightarrow> nat" where
  "buffered s i = length (ch_buf (hb_chans (hs_hub s) ! i))"

text \<open>What one step does to a stream that is there: it gets \<open>ys\<close>.\<close>

definition stream_gets :: "hub_sys \<Rightarrow> hub_sys \<Rightarrow> nat \<Rightarrow> string list \<Rightarrow> bool" where
  "stream_gets s s' i ys \<longleftrightarrow> i < length (hs_conns s') \<and> cn_key (hs_conns s' ! i) = cn_key (hs_conns s ! i)
     \<and> (stream_open s' i \<longrightarrow> stream_open s i) \<and> hb_targetPrefixes (hs_hub s') = hb_targetPrefixes (hs_hub s)
     \<and> received s' i = received s i @ ys \<and> buffered s' i \<le> buffered s i + length ys"

lemma stream_gets_trans:
  "stream_gets s s1 i xs \<Longrightarrow> stream_gets s1 s2 i ys \<Longrightarrow> stream_gets s s2 i (xs @ ys)"
  by (auto simp: stream_gets_def)

lemma gets_connect:
  assumes "hub_inv g0 s" and "i < length (hs_conns s)"
  shows "stream_gets s (sse_connect uuid_ok r s) i []"
  by (cases rule: conn_cases [of uuid_ok r s])
     (use assms hub_invD(2) [OF assms(1)] in
       \<open>auto simp: stream_gets_def received_def buffered_def register_def nth_append stream_open_def\<close>)

lemma gets_broadcast:
  assumes "hub_inv g0 s" and "i < length (hs_conns s)" and "broadcast k payload (hs_hub s) = Some h"
  shows "stream_gets s (s\<lparr>hs_hub := h\<rparr>) i
     (if stream_open s i \<and> cn_key (hs_conns s ! i) = k \<and> buffered s i < chan_capacity then [payload] else [])"
proof -
  obtain chans' where h: "h = (hs_hub s)\<lparr>hb_chans := chans'\<rparr>" and "length chans' = length (hb_chans (hs_hub s))"
    and nth: "\<forall>i < length chans'. chans' ! i = (if stream_open s i \<and> cn_key (hs_conns s ! i) = k
          then push payload (hb_chans (hs_hub s) ! i) else hb_chans (hs_hub s) ! i)"
    using broadcast_some [OF assms(1), of k payload] assms(3) by auto
  then have "chans' ! i = (if stream_open s i \<and> cn_key (hs_conns s ! i) = k
          then push payload (hb_chans (hs_hub s) ! i) else hb_chans (hs_hub s) ! i)"
    using assms(2) hub_invD(2) [OF assms(1)] by simp
  then show ?thesis
    using assms(2) by (auto simp: h stream_gets_def received_def buffered_def push_def stream_open_def)
qed

lemma gets_receive:
  assumes "hub_inv g0 s" and "i < length (hs_conns s)" and "hub_enabled (Receive j) s"
  shows "stream_gets s (write_frame j (Event (fst (take_payload j s))) (snd (take_payload j s))) i []"
proof -
  have j: "j < length (hs_conns s)" "cn_chan (hs_conns s ! j) = j" "ch_buf (hb_chans (hs_hub s) ! j) \<noteq> []"
    using assms(3) hub_invD(3) [OF assms(1), of j] by (auto simp: stream_open_def stream_ok_def)
  have len: "length (hb_chans (hs_hub s)) = length (hs_conns s)" by (rule hub_invD(2) [OF assms(1)])
  show ?thesis
    using j assms(2) len
    by (cases "i = j") (auto simp: stream_gets_def received_def buffered_def write_frame_def take_payload_def Let_def
        stream_open_def nth_list_update)
qed

lemma gets_write: "i < length (hs_conns s) \<Longrightarrow> stream_gets s (write_frame j Ping s) i []"
  by (cases "i = j") (auto simp: stream_gets_def received_def buffered_def write_frame_def stream_open_def)

lemma gets_gone:
  assumes "hub_inv g0 s" and "i < length (hs_conns s)" and "stream_open s j"
    and "unregister (cn_key (hs_conns s ! j)) (cn_chan (hs_conns s ! j)) (hs_hub s) = Some h"
  shows "stream_gets s (s\<lparr>hs_hub := h, hs_conns := (hs_conns s)[j := (hs_conns s ! j)\<lparr>cn_open := False\<rparr>]\<rparr>) i []"
proof -
  have j: "j < length (hs_conns s)" "cn_chan (hs_conns s ! j) = j"
    using assms(3) hub_invD(3) [OF assms(1), of j] by (auto simp: stream_open_def stream_ok_def)
  note u = unregister_Some [OF assms(4) [unfolded j(2)]]
  show ?thesis
    using j assms(2) hub_invD(2) [OF assms(1)] u
    by (cases "i = j") (auto simp: stream_gets_def received_def buffered_def stream_open_def)
qed

lemma gets_step:
  assumes "hub_inv g0 s" and "i < length (hs_conns s)" and "hub_enabled ev s" and "hub_trans uuid_ok ev s = Some s'"
  shows "\<exists>ys. stream_gets s s' i ys \<and> subseq ys (payloads_for (hs_hub s) (cn_key (hs_conns s ! i)) [ev])
     \<and> (stream_open s i \<and> buffered s i < 16 \<longrightarrow> ys = payloads_for (hs_hub s) (cn_key (hs_conns s ! i)) [ev])"
proof (cases ev)
  case (Request r)
  then show ?thesis using gets_connect [OF assms(1,2)] assms(4) by (intro exI [of _ "[]"]) auto
next
  case (Message channel payload)
  show ?thesis
  proof (cases "resolveChannel (hs_hub s) channel")
    case None
    then show ?thesis using Message assms(2,4) by (intro exI [of _ "[]"]) (auto simp: stream_gets_def)
  next
    case (Some ts)
    let ?k = "clientKey (fst ts) (snd ts)"
    obtain h where "broadcast ?k payload (hs_hub s) = Some h" and s': "s' = s\<lparr>hs_hub := h\<rparr>"
      using Message Some assms(4) by (auto simp: case_prod_beta)
    from gets_broadcast [OF assms(1,2) this(1)] show ?thesis
      unfolding s' using Message Some
      by (intro exI [of _ "if stream_open s i \<and> cn_key (hs_conns s ! i) = ?k \<and> buffered s i < chan_capacity then [payload] else []"])
         (auto simp: case_prod_beta chan_capacity_def)
  qed
next
  case RedisError
  then show ?thesis using assms(2,4) by (intro exI [of _ "[]"]) (auto simp: stream_gets_def)
next
  case (Receive j)
  then show ?thesis
    using gets_receive [OF assms(1,2), of j] assms(3,4) by (intro exI [of _ "[]"]) (auto simp: case_prod_beta)
next
  case (Tick j)
  then show ?thesis using gets_write [OF assms(2), of j] assms(4) by (intro exI [of _ "[]"]) auto
next
  case (Gone j)
  then obtain h where "unregister (cn_key (hs_conns s ! j)) (cn_chan (hs_conns s ! j)) (hs_hub s) = Some h"
    "s' = s\<lparr>hs_hub := h, hs_conns := (hs_conns s)[j := (hs_conns s ! j)\<lparr>cn_open := False\<rparr>]\<rparr>"
    using assms(4) by auto
  then show ?thesis using gets_gone [OF assms(1,2)] Gone assms(3) by (intro exI [of _ "[]"]) auto
qed

lemma resolveChannel_cong: "hb_targetPrefixes h = hb_targetPrefixes h' \<Longrightarrow> resolveChannel h c = resolveChannel h' c"
  by (simp add: resolveChannel_def)

lemma payloads_for_cong: "hb_targetPrefixes h = hb_targetPrefixes h' \<Longrightarrow> payloads_for h k evs = payloads_for h' k evs"
proof (induction h k evs rule: payloads_for.induct)
  case (2 h key channel payload evs)
  then show ?case using resolveChannel_cong [OF "2.prems", of channel] by (simp split: option.split)
qed simp_all

lemma gets_steps:
  assumes "hub_steps uuid_ok s evs s'" and "hub_inv g0 s" and "i < length (hs_conns s)"
  shows "\<exists>ys. stream_gets s s' i ys \<and> subseq ys (payloads_for (hs_hub s) (cn_key (hs_conns s ! i)) evs)
     \<and> (stream_open s' i \<and> buffered s i + length (payloads_for (hs_hub s) (cn_key (hs_conns s ! i)) evs) \<le> 16
          \<longrightarrow> ys = payloads_for (hs_hub s) (cn_key (hs_conns s ! i)) evs)"
  using assms(1)
proof (induction rule: hub_steps.induct)
  case none
  then show ?case using assms(3) by (auto simp: stream_gets_def)
next
  case (more evs s1 ev s2)
  let ?P = "\<lambda>evs. payloads_for (hs_hub s) (cn_key (hs_conns s ! i)) evs"
  obtain xs where xs: "stream_gets s s1 i xs" "subseq xs (?P evs)"
    "stream_open s1 i \<and> buffered s i + length (?P evs) \<le> 16 \<longrightarrow> xs = ?P evs" using more.IH by blast
  have same: "payloads_for (hs_hub s1) (cn_key (hs_conns s1 ! i)) [ev] = ?P [ev]" and i1: "i < length (hs_conns s1)"
    using xs(1) payloads_for_cong [of "hs_hub s1" "hs_hub s"] by (auto simp: stream_gets_def)
  obtain ys where ys: "stream_gets s1 s2 i ys" "subseq ys (?P [ev])"
    "stream_open s1 i \<and> buffered s1 i < 16 \<longrightarrow> ys = ?P [ev]"
    using gets_step [OF hub_steps_inv [OF more.hyps(1) assms(2)] i1 more.hyps(2,3)] unfolding same by blast
  have "xs @ ys = ?P (evs @ [ev])"
    if "stream_open s2 i \<and> buffered s i + length (?P (evs @ [ev])) \<le> 16"
  proof -
    have o1: "stream_open s1 i" using that ys(1) by (simp add: stream_gets_def)
    then have "xs = ?P evs" using that xs(3) by (simp add: payloads_for_append)
    moreover from this have "ys = ?P [ev]"
      using that xs(1) ys(2,3) o1 by (cases "?P [ev]") (auto simp: stream_gets_def payloads_for_append)
    ultimately show ?thesis by (simp add: payloads_for_append)
  qed
  then show ?case
    using stream_gets_trans [OF xs(1) ys(1)] list_emb_append_mono [OF xs(2) ys(2)]
    by (intro exI [of _ "xs @ ys"]) (simp add: payloads_for_append)
qed

text \<open>
  C17: what a stream carries. From any reachable state on, what a stream has written plus what waits in
  its channel only grows, by a subsequence of the payloads Redis delivered for its own target and
  subject: nothing of another user, nothing twice, nothing out of order. A stream that stays open
  and is owed at most 16 payloads, those already waiting included, loses none of them.
\<close>

theorem stream_carries_own_events:
  assumes "hub_steps uuid_ok (hub_start (hub_New redis ps d gauge)) evs1 s"
    and "hub_steps uuid_ok s evs2 s'" and "i < length (hs_conns s)"
  shows "\<exists>ys. received s' i = received s i @ ys
     \<and> subseq ys (payloads_for (hs_hub s) (cn_key (hs_conns s ! i)) evs2)
     \<and> (stream_open s' i
          \<and> length (ch_buf (hb_chans (hs_hub s) ! i)) + length (payloads_for (hs_hub s) (cn_key (hs_conns s ! i)) evs2) \<le> 16
        \<longrightarrow> ys = payloads_for (hs_hub s) (cn_key (hs_conns s ! i)) evs2)"
proof -
  obtain ys where "stream_gets s s' i ys" "subseq ys (payloads_for (hs_hub s) (cn_key (hs_conns s ! i)) evs2)"
     "stream_open s' i \<and> buffered s i + length (payloads_for (hs_hub s) (cn_key (hs_conns s ! i)) evs2) \<le> 16
          \<longrightarrow> ys = payloads_for (hs_hub s) (cn_key (hs_conns s ! i)) evs2"
    using gets_steps [OF assms(2) hub_steps_inv [OF assms(1) hub_New_start] assms(3)] by blast
  then show ?thesis by (intro exI [of _ ys]) (simp add: stream_gets_def buffered_def)
qed

end
