(* ===== verification/Site.thy ===== *)
theory Site
  imports ConfigProps Provider StoreQueries
begin

text \<open>
  \<open>internal/provider/site/site.go\<close>: the in-app channel. A send chooses a target (the notification's
  metadata before the recipient's preference before the default), inserts the delivery and
  publishes the delivery's JSON on the Redis channel made of the target's prefix and the
  recipient. The store and the Redis client (third-party) are operations on a world \<open>'w\<close>; the client
  may be absent. The text a timestamp is marshalled as depends on the time zone of the process: it is
  the parameter \<open>T\<close>, \<open>None\<close> when \<open>time.Time\<close> cannot be marshalled (a year beyond 9999).
\<close>

type_synonym time_text = "gotime \<Rightarrow> string option"

record 'w deliveryWriter =
  dw_InsertSiteDelivery :: "string \<Rightarrow> notification option \<Rightarrow> 'w \<Rightarrow> (goerr + delivery) \<times> 'w"

record 'w redis_client =
  rc_Publish :: "string \<Rightarrow> string \<Rightarrow> 'w \<Rightarrow> error \<times> 'w"

record 'w site =
  si_store :: "'w deliveryWriter"
  si_redis :: "'w redis_client option"
  si_targets :: "site_target go_map"
  si_defaultTarget :: string

definition site_New ::
  "'w deliveryWriter \<Rightarrow> 'w redis_client option \<Rightarrow> site_config \<Rightarrow> string \<Rightarrow> goerr + 'w site" where
  "site_New store redisClient siteCfg defaultPrefix =
     (case EffectiveTargets siteCfg defaultPrefix of
        Inl e \<Rightarrow> Inl e
      | Inr (targets, defaultTarget) \<Rightarrow>
          Inr \<lparr>si_store = store, si_redis = redisClient, si_targets = targets, si_defaultTarget = defaultTarget\<rparr>)"

section \<open>The wire form of a delivery\<close>

definition delivery_json :: "time_text \<Rightarrow> delivery \<Rightarrow> json option" where
  "delivery_json T d =
     (case (T (d_CreatedAt d), case d_ReadAt d of None \<Rightarrow> Some [] | Some t \<Rightarrow>
                map_option (\<lambda>s. [(''read_at'', JStr s)]) (T t)) of
        (Some created, Some readAt) \<Rightarrow>
          Some (JObj
            ([(''notification_id'', JStr (d_NotificationID d)), (''topic'', JStr (d_Topic d)),
              (''title'', JStr (d_Title d)), (''body'', JStr (d_Body d)), (''link'', JStr (d_Link d))]
             @ omit_empty (d_Metadata d = []) ''metadata'' (enc_string_map (d_Metadata d))
             @ [(''priority'', JStr (d_Priority d)), (''sender'', JStr (d_Sender d)),
                (''created_at'', JStr created), (''read'', JBool (d_Read d)),
                (''dismissed'', JBool (d_Dismissed d))]
             @ readAt))
      | _ \<Rightarrow> None)"

definition marshal_delivery :: "time_text \<Rightarrow> delivery \<Rightarrow> goerr + string" where
  "marshal_delivery T d =
     (case delivery_json T d of
        None \<Rightarrow> Inl (Sentinel ''Time.MarshalJSON: year outside of range [0,9999]'')
      | Some v \<Rightarrow> Inr (json_print v))"

section \<open>Sending\<close>

definition pref_target :: "string \<Rightarrow> string option" where
  "pref_target prefConfig = unmarshal_struct [(''target'', dec_string)] prefConfig []"

definition non_empty_or :: "string \<Rightarrow> string \<Rightarrow> string" where
  "non_empty_or value old = (if value \<noteq> [] then value else old)"

definition resolveTarget :: "'w site \<Rightarrow> notification \<Rightarrow> string \<Rightarrow> goerr + string" where
  "resolveTarget p n prefConfig =
     (case (if length prefConfig > 0 then
              (case pref_target prefConfig of
                 None \<Rightarrow> Inl (Wrapf ''decode site preference: %w'' [] (Sentinel ''json''))
               | Some t \<Rightarrow> Inr (non_empty_or (trim_space t) (si_defaultTarget p)))
            else Inr (si_defaultTarget p)) of
        Inl e \<Rightarrow> Inl e
      | Inr target \<Rightarrow>
          (let target = non_empty_or (trim_space (metadata_value ''site_target'' n)) target
           in if go_get (si_targets p) target = None then
                Inl (Errorf ''site target %q is not configured'' [AStr target])
              else Inr target))"

definition site_channel :: "'w site \<Rightarrow> string \<Rightarrow> string \<Rightarrow> string" where
  "site_channel p target recipientUUID =
     (case go_get (si_targets p) target of None \<Rightarrow> [] | Some t \<Rightarrow> RedisPrefix t) @ recipientUUID"

definition site_Send ::
  "time_text \<Rightarrow> 'w site \<Rightarrow> notification \<Rightarrow> string \<Rightarrow> string \<Rightarrow> 'w \<Rightarrow> error \<times> 'w" where
  "site_Send T p n recipientUUID prefConfig w =
     (case resolveTarget p n prefConfig of
        Inl e \<Rightarrow> (Some e, w)
      | Inr targetName \<Rightarrow>
          (case dw_InsertSiteDelivery (si_store p) recipientUUID (Some n) w of
             (Inl e, w1) \<Rightarrow> (Some (Wrapf ''site delivery insert: %w'' [] e), w1)
           | (Inr item, w1) \<Rightarrow>
               (case si_redis p of
                  None \<Rightarrow> (None, w1)
                | Some redis \<Rightarrow>
                    (case marshal_delivery T item of
                       Inl e \<Rightarrow> (Some (Wrapf ''marshal site event: %w'' [] e), w1)
                     | Inr payload \<Rightarrow>
                         (case rc_Publish redis (site_channel p targetName recipientUUID) payload w1 of
                            (Some e, w2) \<Rightarrow> (Some (Wrapf ''publish site event: %w'' [] e), w2)
                          | (None, w2) \<Rightarrow> (None, w2))))))"

definition site_Targets :: "'w site \<Rightarrow> site_target go_map" where
  "site_Targets p = fold (\<lambda>(name, target) out. go_put name target out) (si_targets p) []"

definition site_DefaultTarget :: "'w site \<Rightarrow> string" where
  "site_DefaultTarget p = si_defaultTarget p"

definition site_Close :: "'w \<Rightarrow> error \<times> 'w" where
  "site_Close w = (None, w)"

definition site_provider :: "time_text \<Rightarrow> 'w site \<Rightarrow> 'w provider" where
  "site_provider T p = \<lparr>pv_Name = ''site'', pv_Channel = ChannelSite, pv_Send = site_Send T p,
     pv_Close = site_Close\<rparr>"

section \<open>The choice of the target\<close>

definition first_choice :: "string list \<Rightarrow> string" where
  "first_choice xs = (case filter (\<lambda>x. x \<noteq> []) xs of [] \<Rightarrow> [] | x # _ \<Rightarrow> x)"

lemma first_choice_simps [simp]:
  "first_choice [] = []" "first_choice ([] # xs) = first_choice xs"
  "x \<noteq> [] \<Longrightarrow> first_choice (x # xs) = x"
  by (simp_all add: first_choice_def)

lemma resolveTarget_Inr:
  "resolveTarget p n cfg = Inr t \<longleftrightarrow>
     (\<exists>pt. (if cfg = [] then pt = [] else pref_target cfg = Some pt)
        \<and> t = first_choice [trim_space (metadata_value ''site_target'' n), trim_space pt, si_defaultTarget p]
        \<and> t \<in> fst ` set (si_targets p))"
  by (cases "cfg = []"; cases "pref_target cfg")
     (auto simp: resolveTarget_def non_empty_or_def Let_def map_of_eq_None_iff first_choice_def)

lemma site_New_targets:
  assumes "site_New st r c base = Inr p"
  shows "si_store p = st" "si_redis p = r" "EffectiveTargets c base = Inr (si_targets p, si_defaultTarget p)"
    "is_go_map (si_targets p)" "si_defaultTarget p \<in> fst ` set (si_targets p)" "si_defaultTarget p \<noteq> []"
proof -
  show e: "EffectiveTargets c base = Inr (si_targets p, si_defaultTarget p)" "si_store p = st" "si_redis p = r"
    using assms by (auto simp: site_New_def split: sum.splits)
  note s = EffectiveTargets_Inr [OF e(1)]
  show "is_go_map (si_targets p)" using s by simp
  show d: "si_defaultTarget p \<in> fst ` set (si_targets p)" using s by (simp add: map_of_eq_None_iff)
  then show "si_defaultTarget p \<noteq> []" using s by (auto simp: list_all_iff target_ok_def)
qed

text \<open>
  The site target of a send, for a provider that \<open>New\<close> built: \<open>site_target\<close> of the notification's
  metadata before the recipient's preference before the default, blanks counting as absent. The
  send resolves exactly when the preference (if there is one) decodes and the name chosen is
  configured; without metadata and preference it always resolves, to the default.
\<close>

theorem site_target_choice:
  assumes "site_New st r c base = Inr p"
  shows "(resolveTarget p n cfg = Inr t \<longleftrightarrow>
       (\<exists>pt. (if cfg = [] then pt = [] else pref_target cfg = Some pt)
          \<and> t = first_choice [trim_space (metadata_value ''site_target'' n), trim_space pt, si_defaultTarget p]
          \<and> t \<in> fst ` set (si_targets p)))
     \<and> (n_Metadata n = [] \<longrightarrow> resolveTarget p n [] = Inr (si_defaultTarget p))"
  using site_New_targets(5,6) [OF assms] by (auto simp: resolveTarget_Inr metadata_value_def)

section \<open>What a send does\<close>

text \<open>
  The world of the service as far as a send reaches: the database, what Redis has accepted, in
  order, and what the other users of the database do meanwhile: the handlers of the API, other
  consumers, the operators. They act between the statements of the sender: the next element of
  \<open>ws_others\<close> is what they do to the database before its next statement, and nothing when it is
  used up. Whether Redis accepts a message is the parameter \<open>R\<close>.
\<close>

record services =
  ws_pg :: pg
  ws_published :: "(string \<times> string) list"
  ws_others :: "(pg \<Rightarrow> pg) list"

definition turn :: "services \<Rightarrow> services" where
  "turn w = (case ws_others w of [] \<Rightarrow> w | g # gs \<Rightarrow> w\<lparr>ws_pg := g (ws_pg w), ws_others := gs\<rparr>)"

definition on_pg :: "(pg \<Rightarrow> 'a \<times> pg) \<Rightarrow> services \<Rightarrow> 'a \<times> services" where
  "on_pg f w = (case f (ws_pg (turn w)) of (x, s) \<Rightarrow> (x, (turn w)\<lparr>ws_pg := s\<rparr>))"

lemma turn_simps [simp]: "ws_others w = [] \<Longrightarrow> turn w = w" "ws_published (turn w) = ws_published w"
  "ws_others (turn w) = tl (ws_others w)"
  by (simp_all add: turn_def split: list.split)

definition pg_writer :: "pg_server \<Rightarrow> services deliveryWriter" where
  "pg_writer X = \<lparr>dw_InsertSiteDelivery = (\<lambda>r np. on_pg (InsertSiteDelivery X r np))\<rparr>"

definition recording_redis :: "(string \<Rightarrow> string \<Rightarrow> error) \<Rightarrow> services redis_client" where
  "recording_redis R = \<lparr>rc_Publish = (\<lambda>channel payload w.
     (R channel payload,
      if R channel payload = None then w\<lparr>ws_published := ws_published w @ [(channel, payload)]\<rparr> else w))\<rparr>"

definition published_on :: "services \<Rightarrow> services \<Rightarrow> (string \<times> string) list \<Rightarrow> bool" where
  "published_on w w' evs \<longleftrightarrow> ws_published w' = ws_published w @ evs"

lemma on_pg_simps [simp]:
  "fst (on_pg f w) = fst (f (ws_pg (turn w)))" "ws_pg (snd (on_pg f w)) = snd (f (ws_pg (turn w)))"
  "ws_published (snd (on_pg f w)) = ws_published w" "ws_others (snd (on_pg f w)) = tl (ws_others w)"
  by (simp_all add: on_pg_def split: prod.split)

lemma insert_keeps_rows:
  "\<exists>ds. notification_deliveries (snd (InsertSiteDelivery X r (Some n) s)) = notification_deliveries s @ ds"
proof (cases "fst (InsertSiteDelivery X r (Some n) s)")
  case (Inl e)
  then obtain s' where "pg_run (sql_insert_delivery X (n_ID n) r) s = (Inl (case e of Wrapf f a e' \<Rightarrow> e'), s')"
    by (auto simp: InsertSiteDelivery_def split: prod.splits sum.splits)
  then have "notification_deliveries s' = notification_deliveries s"
    by (auto simp: pg_run_def sql_insert_delivery_def split: list.splits option.splits if_splits)
  moreover have "snd (InsertSiteDelivery X r (Some n) s) = s'"
    using \<open>pg_run _ _ = _\<close> by simp
  ultimately show ?thesis by simp
next
  case (Inr item)
  from InsertSiteDelivery_rows [OF Inr] show ?thesis by (auto split: option.splits)
qed

lemma inserted_delivery_found:
  assumes "fst (InsertSiteDelivery X r (Some n) s) = Inr item"
  shows "\<exists>k u. uuid_cast X (n_ID n) = Some k \<and> uuid_cast X r = Some u
     \<and> find_delivery k u (snd (InsertSiteDelivery X r (Some n) s)) \<noteq> None"
proof -
  obtain k u where ku: "uuid_cast X (n_ID n) = Some k" "uuid_cast X r = Some u"
    and rows: "case find_delivery k u s of
          None \<Rightarrow> notification_deliveries (snd (InsertSiteDelivery X r (Some n) s))
                    = notification_deliveries s @ [new_delivery k u (pg_now s)]
        | Some d \<Rightarrow> notification_deliveries (snd (InsertSiteDelivery X r (Some n) s)) = notification_deliveries s"
    using InsertSiteDelivery_rows [OF assms] by (auto split: option.splits)
  have "find_delivery k u (snd (InsertSiteDelivery X r (Some n) s)) \<noteq> None"
  proof (cases "find_delivery k u s")
    case None
    then have "new_delivery k u (pg_now s) \<in> set (notification_deliveries (snd (InsertSiteDelivery X r (Some n) s)))"
      using rows by simp
    then show ?thesis
      unfolding find_delivery_def find_None_iff by (auto simp: new_delivery_def simp del: snd_store_op intro!: exI)
  next
    case (Some d)
    then show ?thesis using rows by (simp add: find_delivery_def)
  qed
  with ku show ?thesis by blast
qed

lemma site_Send_pg:
  assumes "si_store p = pg_writer X" and "si_redis p = map_option recording_redis R"
  shows "site_Send T p n r cfg w =
     (case resolveTarget p n cfg of
        Inl e \<Rightarrow> (Some e, w)
      | Inr t \<Rightarrow>
          (let w1 = (turn w)\<lparr>ws_pg := snd (InsertSiteDelivery X r (Some n) (ws_pg (turn w)))\<rparr> in
           case fst (InsertSiteDelivery X r (Some n) (ws_pg (turn w))) of
             Inl e \<Rightarrow> (Some (Wrapf ''site delivery insert: %w'' [] e), w1)
           | Inr item \<Rightarrow>
               (case R of
                  None \<Rightarrow> (None, w1)
                | Some R \<Rightarrow>
                    (case marshal_delivery T item of
                       Inl e \<Rightarrow> (Some (Wrapf ''marshal site event: %w'' [] e), w1)
                     | Inr payload \<Rightarrow>
                         (case R (site_channel p t r) payload of
                            Some e \<Rightarrow> (Some (Wrapf ''publish site event: %w'' [] e), w1)
                          | None \<Rightarrow> (None, w1\<lparr>ws_published := ws_published w @ [(site_channel p t r, payload)]\<rparr>))))))"
  by (simp add: site_Send_def assms pg_writer_def on_pg_def recording_redis_def Let_def del: snd_store_op
      split: sum.split option.split prod.split)

lemma site_Send_nil:
  assumes "si_store p = pg_writer X" and "si_redis p = map_option recording_redis R"
    and "site_Send T p n r cfg w = (None, w')"
  shows "\<exists>t item. resolveTarget p n cfg = Inr t \<and> fst (InsertSiteDelivery X r (Some n) (ws_pg (turn w))) = Inr item
     \<and> ws_others w' = tl (ws_others w) \<and> ws_pg w' = snd (InsertSiteDelivery X r (Some n) (ws_pg (turn w)))
     \<and> (case R of None \<Rightarrow> ws_published w' = ws_published w
        | Some _ \<Rightarrow> \<exists>v. delivery_json T item = Some v
            \<and> ws_published w' = ws_published w @ [(site_channel p t r, json_print v)])"
  using assms(3) unfolding site_Send_pg [OF assms(1,2)]
  by (auto simp: Let_def marshal_delivery_def split: sum.splits option.splits)

lemma site_Send_failed:
  assumes "si_store p = pg_writer X" and "si_redis p = map_option recording_redis R"
    and "site_Send T p n r cfg w = (Some e, w')"
  shows "ws_published w' = ws_published w
    \<and> (w' = w \<or> ws_pg w' = snd (InsertSiteDelivery X r (Some n) (ws_pg (turn w))) \<and> ws_others w' = tl (ws_others w))"
  using assms(3) unfolding site_Send_pg [OF assms(1,2)]
  by (auto simp: Let_def split: sum.splits option.splits)

text \<open>
  A site send over the database and Redis. When it returns nil the recipient has the notification
  in his inbox rows, and, with a Redis client, exactly one event went out, on the channel of the
  resolved target and this recipient, carrying the JSON of that delivery. When it fails
  nothing was published. Whatever it returns, it removes and changes no row of a delivery, so the
  retry of a send that failed after its insertion cannot lose a flag or duplicate an item.
\<close>

theorem site_send_effects:
  assumes "si_store p = pg_writer X" and "si_redis p = map_option recording_redis R"
    and "site_Send T p n r cfg w = (err, w')"
  shows "(err = None \<longrightarrow> (\<exists>k u t item. uuid_cast X (n_ID n) = Some k \<and> uuid_cast X r = Some u
             \<and> find_delivery k u (ws_pg w') \<noteq> None \<and> resolveTarget p n cfg = Inr t
             \<and> (if R = None then ws_published w' = ws_published w
                else \<exists>v. delivery_json T item = Some v \<and> fst (InsertSiteDelivery X r (Some n) (ws_pg (turn w))) = Inr item
                   \<and> ws_published w' = ws_published w @ [(site_channel p t r, json_print v)])))
     \<and> (err \<noteq> None \<longrightarrow> ws_published w' = ws_published w)
     \<and> (\<exists>v \<in> {w, turn w}. \<exists>ds. notification_deliveries (ws_pg w') = notification_deliveries (ws_pg v) @ ds)"
proof (cases err)
  case None
  then have send: "site_Send T p n r cfg w = (None, w')" using assms(3) by simp
  from site_Send_nil [OF assms(1,2) this] obtain t item where
    t: "resolveTarget p n cfg = Inr t" and item: "fst (InsertSiteDelivery X r (Some n) (ws_pg (turn w))) = Inr item"
    and pg: "ws_pg w' = snd (InsertSiteDelivery X r (Some n) (ws_pg (turn w)))"
    and pub: "case R of None \<Rightarrow> ws_published w' = ws_published w
        | Some _ \<Rightarrow> \<exists>v. delivery_json T item = Some v
            \<and> ws_published w' = ws_published w @ [(site_channel p t r, json_print v)]" by blast
  have "if R = None then ws_published w' = ws_published w
      else \<exists>v. delivery_json T item = Some v \<and> ws_published w' = ws_published w @ [(site_channel p t r, json_print v)]"
    using pub by (cases R) auto
  moreover have "\<exists>ds. notification_deliveries (ws_pg w') = notification_deliveries (ws_pg (turn w)) @ ds"
    unfolding pg by (rule insert_keeps_rows)
  ultimately show ?thesis
    using inserted_delivery_found [OF item] t item None unfolding pg by fastforce
next
  case (Some e)
  then have "site_Send T p n r cfg w = (Some e, w')" using assms(3) by simp
  from site_Send_failed [OF assms(1,2) this] have f: "ws_published w' = ws_published w"
    "w' = w \<or> ws_pg w' = snd (InsertSiteDelivery X r (Some n) (ws_pg (turn w)))" by blast+
  have "\<exists>v \<in> {w, turn w}. \<exists>ds. notification_deliveries (ws_pg w') = notification_deliveries (ws_pg v) @ ds"
    using f(2) insert_keeps_rows [of X r n "ws_pg (turn w)"] by (metis append_Nil2 insertCI)
  with Some f(1) show ?thesis by simp
qed

section \<open>Samples\<close>

definition sample_site_provider :: "services site" where
  "sample_site_provider = \<lparr>si_store = pg_writer sample_server, si_redis = Some (recording_redis (\<lambda>c p. None)),
     si_targets = [(''main'', \<lparr>RedisPrefix = ''notify:main:''\<rparr>), (''beta'', \<lparr>RedisPrefix = ''notify:beta:''\<rparr>)],
     si_defaultTarget = ''main''\<rparr>"

definition sample_site_config :: site_config where
  "sample_site_config = \<lparr>sc_Enabled = True, sc_DefaultTarget = ''main'',
     sc_Targets = [(''main'', \<lparr>RedisPrefix = []\<rparr>), (''beta'', \<lparr>RedisPrefix = []\<rparr>)]\<rparr>"

lemma sample_site_New:
  "site_New (pg_writer sample_server) (Some (recording_redis (\<lambda>c p. None))) sample_site_config ''notify:''
     = Inr sample_site_provider"
proof -
  have "EffectiveTargets sample_site_config ''notify:'' =
      Inr ([(''main'', \<lparr>RedisPrefix = ''notify:main:''\<rparr>), (''beta'', \<lparr>RedisPrefix = ''notify:beta:''\<rparr>)], ''main'')"
    by code_simp
  then show ?thesis by (simp add: site_New_def sample_site_provider_def)
qed

theorem site_target_choice_witness:
  "resolveTarget sample_site_provider (zero_notification\<lparr>n_Metadata := [(''site_target'', '' beta '')]\<rparr>) [] = Inr ''beta''"
proof -
  have "''beta'' = first_choice [trim_space (metadata_value ''site_target''
           (zero_notification\<lparr>n_Metadata := [(''site_target'', '' beta '')]\<rparr>)), trim_space [],
           si_defaultTarget sample_site_provider]
      \<and> ''beta'' \<in> fst ` set (si_targets sample_site_provider)"
    by code_simp
  then have "(if [] = ([] :: string) then [] = [] else pref_target [] = Some [])
      \<and> ''beta'' = first_choice [trim_space (metadata_value ''site_target''
           (zero_notification\<lparr>n_Metadata := [(''site_target'', '' beta '')]\<rparr>)), trim_space [],
           si_defaultTarget sample_site_provider]
      \<and> ''beta'' \<in> fst ` set (si_targets sample_site_provider)"
    unfolding if_P [OF refl] by (rule conjI [OF refl])
  then show ?thesis
    by (rule iffD2 [OF conjunct1 [OF site_target_choice [OF sample_site_New]] exI [of _ "[]"]])
qed

theorem site_send_effects_witness:
  "\<exists>ds. notification_deliveries (ws_pg (snd (site_Send (\<lambda>t. Some ''t'') sample_site_provider sample_notification ''r1'' []
      \<lparr>ws_pg = sample_pg, ws_published = [], ws_others = []\<rparr>))) = notification_deliveries sample_pg @ ds"
proof -
  have "si_store sample_site_provider = pg_writer sample_server"
    "si_redis sample_site_provider = map_option recording_redis (Some (\<lambda>c p. None))"
    by (simp_all add: sample_site_provider_def)
  note effects = site_send_effects [OF this prod.collapse [symmetric], of "\<lambda>t. Some ''t''" sample_notification "''r1''" "[]"
      "\<lparr>ws_pg = sample_pg, ws_published = [], ws_others = []\<rparr>"]
  from conjunct2 [OF conjunct2 [OF effects]] show ?thesis
    by (simp only: turn_simps(1) services.select_convs bex_simps simp_thms)
qed

end
