(* ===== verification/Live.thy ===== *)
theory Live
  imports HubProps Site
begin

text \<open>
  The site provider and the hub together: the service builds both from the same effective targets, the
  provider publishes on a target's prefix followed by the recipient, and the hub takes the target and
  the recipient out of the channel's name again. Shown: when this is exact, how often Redis delivers
  an event to the hub, and that an event of a successful send reaches the open streams it is for.
\<close>

section \<open>Taking a channel's name apart\<close>

lemma resolve_loop_spec:
  assumes "resolve_loop ps channel l t = (l', t')"
  shows "length l \<le> length l'"
    and "l' = l \<and> t' = t \<or> (t', l') \<in> set ps \<and> prefix l' channel \<and> length l < length l'"
    and "(name, q) \<in> set ps \<Longrightarrow> prefix q channel \<Longrightarrow> length q \<le> length l'"
proof -
  have "length l \<le> length l' \<and> (l' = l \<and> t' = t \<or> (t', l') \<in> set ps \<and> prefix l' channel \<and> length l < length l')
      \<and> (\<forall>name q. (name, q) \<in> set ps \<longrightarrow> prefix q channel \<longrightarrow> length q \<le> length l')"
    using assms
  proof (induction ps channel l t rule: resolve_loop.induct)
    case (2 name pre rest channel l t)
    show ?case
    proof (cases "has_prefix channel pre \<and> length l < length pre")
      case True
      with "2.IH"(1) "2.prems" show ?thesis by (auto simp: has_prefix_def)
    next
      case False
      with "2.IH"(2) "2.prems" show ?thesis by (auto simp: has_prefix_def)
    qed
  qed auto
  then show "length l \<le> length l'" "l' = l \<and> t' = t \<or> (t', l') \<in> set ps \<and> prefix l' channel \<and> length l < length l'"
    "(name, q) \<in> set ps \<Longrightarrow> prefix q channel \<Longrightarrow> length q \<le> length l'" by auto
qed

text \<open>A target whose prefix is the only longest one gets its channels back.\<close>

lemma resolve_longest:
  assumes "is_go_map (hb_targetPrefixes h)" and "(t, pre) \<in> set (hb_targetPrefixes h)" and "pre \<noteq> []"
    and "\<And>n q. (n, q) \<in> set (hb_targetPrefixes h) \<Longrightarrow> prefix q (pre @ u) \<Longrightarrow> length pre \<le> length q \<Longrightarrow> n = t"
  shows "resolveChannel h (pre @ u) = Some (t, u)"
proof -
  obtain l' t' where loop: "resolve_loop (hb_targetPrefixes h) (pre @ u) [] [] = (l', t')" by fastforce
  note spec = resolve_loop_spec [OF loop]
  have len: "length pre \<le> length l'" using spec(3) [OF assms(2)] by simp
  then have l': "(t', l') \<in> set (hb_targetPrefixes h)" "prefix l' (pre @ u)" using spec(2) assms(3) by auto
  then have "t' = t" using assms(4) len by blast
  moreover from this have "l' = pre"
    using l'(1) assms(1,2) by (metis map_of_eq_Some_iff option.inject)
  ultimately show ?thesis using loop assms(3) by (simp add: resolveChannel_def)
qed

lemma clonePrefixes_id: "is_go_map ps \<Longrightarrow> clonePrefixes ps = ps"
proof -
  have "is_go_map (out @ ps) \<Longrightarrow> fold (\<lambda>(name, pre) out. go_put name pre out) ps out = out @ ps" for out
    by (induction ps arbitrary: out) (auto simp: go_put_fresh)
  from this [of "[]"] show "is_go_map ps \<Longrightarrow> clonePrefixes ps = ps" by (simp add: clonePrefixes_def)
qed

text \<open>The hub's prefixes, as \<open>main.go\<close> takes them from the effective targets.\<close>

definition hubPrefixes :: "site_target go_map \<Rightarrow> string go_map" where
  "hubPrefixes siteTargets = fold (\<lambda>(name, target) out. go_put name (RedisPrefix target) out) siteTargets []"

lemma hubPrefixes_map: "is_go_map ts \<Longrightarrow> hubPrefixes ts = map (\<lambda>(n, t). (n, RedisPrefix t)) ts"
proof -
  have "fst ` set out \<inter> fst ` set ts = {} \<Longrightarrow> is_go_map ts \<Longrightarrow>
      fold (\<lambda>(name, target) out. go_put name (RedisPrefix target) out) ts out = out @ map (\<lambda>(n, t). (n, RedisPrefix t)) ts" for out
    by (induction ts arbitrary: out) (auto simp: go_put_fresh)
  from this [of "[]"] show "is_go_map ts \<Longrightarrow> hubPrefixes ts = map (\<lambda>(n, t). (n, RedisPrefix t)) ts"
    by (simp add: hubPrefixes_def)
qed

definition hub_of :: "site_target go_map \<Rightarrow> string \<Rightarrow> hub" where
  "hub_of siteTargets defaultTarget = hub_New True (hubPrefixes siteTargets) defaultTarget (Some 0)"

lemma hub_of_prefixes:
  assumes "is_go_map ts" and "ts \<noteq> []"
  shows "hb_targetPrefixes (hub_of ts d) = map (\<lambda>(n, t). (n, RedisPrefix t)) ts"
    and "is_go_map (hb_targetPrefixes (hub_of ts d))"
proof -
  have "map fst (map (\<lambda>(n, t). (n, RedisPrefix t)) ts) = map fst ts" by auto
  then have m: "is_go_map (map (\<lambda>(n, t). (n, RedisPrefix t)) ts)" using assms(1) by (simp only:)
  then show *: "hb_targetPrefixes (hub_of ts d) = map (\<lambda>(n, t). (n, RedisPrefix t)) ts"
    using assms by (simp add: hub_of_def hub_New_def Let_def hubPrefixes_map clonePrefixes_id)
  show "is_go_map (hb_targetPrefixes (hub_of ts d))" unfolding * by (rule m)
qed

section \<open>Routing\<close>

text \<open>Prefixes as the configuration intends them: distinct and closed by a colon.\<close>

definition colon_prefixes :: "site_target go_map \<Rightarrow> bool" where
  "colon_prefixes ts \<longleftrightarrow> distinct (map (\<lambda>nt. RedisPrefix (snd nt)) ts)
     \<and> list_all (\<lambda>nt. RedisPrefix (snd nt) \<noteq> [] \<and> last (RedisPrefix (snd nt)) = CHR '':'') ts"

lemma longer_colon_prefix:
  assumes "prefix q (pre @ u)" and "length pre \<le> length q" and "q \<noteq> []" and "last q = CHR '':''" and "CHR '':'' \<notin> set u"
  shows "q = pre"
proof -
  consider "prefix q pre" | z where "q = pre @ z" "prefix z u"
    using assms(1) by (auto simp: prefix_append)
  then show ?thesis
  proof cases
    case 1
    then show ?thesis using assms(2) by (auto simp: prefix_def)
  next
    case (2 z)
    show ?thesis
    proof (cases "z = []")
      case False
      then have "CHR '':'' \<in> set z" using 2(1) assms(4) last_in_set [OF False] by simp
      then show ?thesis using set_mono_prefix [OF 2(2)] assms(5) by blast
    qed (simp add: 2(1))
  qed
qed

lemma site_channel_prefix:
  assumes "go_get (si_targets p) t = Some tg"
  shows "site_channel p t r = RedisPrefix tg @ r"
  using assms by (simp add: site_channel_def)

text \<open>
  What routing needs: the prefix of the target is the only longest one that begins the channel. With
  distinct prefixes closed by a colon every recipient without a colon has this.
\<close>

definition sole_prefix :: "site_target go_map \<Rightarrow> string \<Rightarrow> string \<Rightarrow> bool" where
  "sole_prefix targets t r \<longleftrightarrow> (\<exists>tg. go_get targets t = Some tg \<and> RedisPrefix tg \<noteq> []
     \<and> (\<forall>(n, q) \<in> set targets. n \<noteq> t \<and> prefix (RedisPrefix q) (RedisPrefix tg @ r) \<longrightarrow>
          length (RedisPrefix q) < length (RedisPrefix tg)))"

lemma sole_routing:
  assumes "is_go_map (si_targets p)" and "sole_prefix (si_targets p) t r"
  shows "resolveChannel (hub_of (si_targets p) d) (site_channel p t r) = Some (t, r)"
proof -
  obtain tg where get: "go_get (si_targets p) t = Some tg" and pre: "RedisPrefix tg \<noteq> []"
    and sole: "\<And>n q. (n, q) \<in> set (si_targets p) \<Longrightarrow> n \<noteq> t \<Longrightarrow> prefix (RedisPrefix q) (RedisPrefix tg @ r) \<Longrightarrow>
        length (RedisPrefix q) < length (RedisPrefix tg)"
    using assms(2) unfolding sole_prefix_def by blast
  have tg: "(t, tg) \<in> set (si_targets p)" using get by (rule map_of_SomeD)
  then have ne: "si_targets p \<noteq> []" by auto
  note P = hub_of_prefixes [OF assms(1) ne, of d]
  show ?thesis
    unfolding site_channel_prefix [OF get]
  proof (rule resolve_longest [OF P(2) _ pre])
    show "(t, RedisPrefix tg) \<in> set (hb_targetPrefixes (hub_of (si_targets p) d))" unfolding P(1) using tg by force
    show "n = t" if "(n, q) \<in> set (hb_targetPrefixes (hub_of (si_targets p) d))" "prefix q (RedisPrefix tg @ r)"
      "length (RedisPrefix tg) \<le> length q" for n q
      using that sole unfolding P(1) by fastforce
  qed
qed

lemma colon_sole:
  assumes "is_go_map targets" and "colon_prefixes targets" and "t \<in> fst ` set targets" and "CHR '':'' \<notin> set r"
  shows "sole_prefix targets t r"
proof -
  obtain tg where tg: "(t, tg) \<in> set targets" using assms(3) by auto
  then have get: "go_get targets t = Some tg" using assms(1) by simp
  have "length (RedisPrefix q) < length (RedisPrefix tg)"
    if "(n, q) \<in> set targets" "n \<noteq> t" "prefix (RedisPrefix q) (RedisPrefix tg @ r)" for n q
  proof (rule ccontr)
    assume "\<not> length (RedisPrefix q) < length (RedisPrefix tg)"
    then have "RedisPrefix q = RedisPrefix tg"
      using assms(2,4) that by (intro longer_colon_prefix [OF that(3)]) (auto simp: colon_prefixes_def list_all_iff)
    then have "(n, q) = (t, tg)"
      using assms(2) tg that by (intro distinct_map_key [of "\<lambda>nt. RedisPrefix (snd nt)" targets]) (auto simp: colon_prefixes_def)
    then show False using that(2) by simp
  qed
  then show ?thesis using get tg assms(2) by (auto simp: sole_prefix_def colon_prefixes_def list_all_iff)
qed

lemma events_routed:
  assumes "site_New st rd c base = Inr p" and "sole_prefix (si_targets p) t r" and "mset ts = mset (si_targets p)"
  shows "resolveChannel (hub_of ts d) (site_channel p t r) = Some (t, r)"
proof -
  note perm = go_map_perm_lookup [OF site_New_targets(4) [OF assms(1)] assms(3)]
  have "set ts = set (si_targets p)" by (metis assms(3) set_mset_mset)
  then have "sole_prefix ts t r" using assms(2) perm(2) by (simp add: sole_prefix_def)
  then have "resolveChannel (hub_of (si_targets (p\<lparr>si_targets := ts\<rparr>)) d) (site_channel (p\<lparr>si_targets := ts\<rparr>) t r) = Some (t, r)"
    using perm(1) by (intro sole_routing) simp_all
  then show ?thesis using perm(2) by (simp add: site_channel_def)
qed

text \<open>
  Routing: with distinct Redis prefixes that end in a colon (which the prefixes derived from the
  base prefix are, when the base does), the hub built from the provider's targets takes the
  channel of every site send to a recipient without a colon apart into exactly that target and that
  recipient, in whatever order its map of prefixes is ranged over.
\<close>

theorem site_events_routed:
  assumes "site_New st rd c base = Inr p" and "colon_prefixes (si_targets p)" and "mset ts = mset (si_targets p)"
    and "resolveTarget p n cfg = Inr t" and "CHR '':'' \<notin> set r"
  shows "resolveChannel (hub_of ts d) (site_channel p t r) = Some (t, r)"
proof (rule events_routed [OF assms(1) _ assms(3)])
  show "sole_prefix (si_targets p) t r"
    using assms(4) unfolding resolveTarget_Inr
    by (intro colon_sole [OF site_New_targets(4) [OF assms(1)] assms(2) _ assms(5)]) blast
qed

text \<open>The prefixes that \<open>EffectiveTargets\<close> derives are of this form.\<close>

lemma derived_colon_prefixes:
  assumes "site_New st rd c base = Inr p" and "list_all (\<lambda>nt. trim_space (RedisPrefix (snd nt)) = []) (sc_Targets c)"
    and "base \<noteq> []" and "last base = CHR '':''"
  shows "colon_prefixes (si_targets p)"
proof -
  note N = site_New_targets [OF assms(1)]
  obtain raw where raw: "target_loop (sc_Targets c) [] = Inr raw"
    using N(3) by (auto simp: EffectiveTargets_def split: sum.splits)
  have blank: "target_loop tgs acc = Inr raw \<Longrightarrow> list_all (\<lambda>nt. trim_space (RedisPrefix (snd nt)) = []) tgs
      \<Longrightarrow> list_all (\<lambda>nt. RedisPrefix (snd nt) = []) acc \<Longrightarrow> list_all (\<lambda>nt. RedisPrefix (snd nt) = []) raw" for tgs acc
  proof (induction tgs acc rule: target_loop.induct)
    case (2 rawName rawTarget rest targets)
    then have "list_all (\<lambda>nt. RedisPrefix (snd nt) = []) (go_put (trim_space rawName) \<lparr>RedisPrefix = []\<rparr> targets)"
      by (auto simp: list_all_iff dest!: subsetD [OF set_go_put_subset])
    with 2 show ?case by (auto simp: Let_def split: if_splits)
  qed simp
  show ?thesis
  proof (cases "length raw = 0")
    case True
    then have "[(si_defaultTarget p, \<lparr>RedisPrefix = base\<rparr>)] = si_targets p"
      using N(3) raw by (auto simp: EffectiveTargets_def Let_def)
    from this [symmetric] show ?thesis using assms(3,4) by (simp add: colon_prefixes_def)
  next
    case False
    then have ts: "si_targets p = map (fill_prefix base (length raw)) raw"
      using N(3) raw by (auto simp: EffectiveTargets_def Let_def split: if_splits)
    have d: "is_go_map raw" using N(4) unfolding ts map_fill_prefix_keys .
    have all: "RedisPrefix (snd (fill_prefix base (length raw) nt)) = (if length raw = 1 then base else base @ fst nt @ '':'')"
      if "nt \<in> set raw" for nt
      using blank [OF raw assms(2)] that by (auto simp: list_all_iff fill_prefix_def split: prod.split)
    have "distinct (map (\<lambda>nt. RedisPrefix (snd (fill_prefix base (length raw) nt))) raw)"
    proof (cases "length raw = 1")
      case True
      then show ?thesis by (cases raw) auto
    next
      case False
      then have "map (\<lambda>nt. RedisPrefix (snd (fill_prefix base (length raw) nt))) raw = map (\<lambda>k. base @ k @ '':'') (map fst raw)"
        using all by simp
      moreover have "inj_on (\<lambda>k. base @ k @ '':'') (set (map fst raw))" by (auto simp: inj_on_def)
      ultimately show ?thesis using d by (simp only: distinct_map)
    qed
    then show ?thesis
      using all assms(3,4) by (auto simp: colon_prefixes_def list_all_iff ts o_def)
  qed
qed

section \<open>From a send to the streams\<close>

lemma hub_trans_prefixes: "hub_trans uuid_ok ev s = Some s' \<Longrightarrow> hb_targetPrefixes (hs_hub s') = hb_targetPrefixes (hs_hub s)"
  by (cases ev) (auto simp: sse_connect_def register_def broadcast_def write_frame_def take_payload_def Let_def
      unregister_def split: sum.splits option.splits if_splits)

lemma hub_steps_prefixes: "hub_steps uuid_ok s evs s' \<Longrightarrow> hb_targetPrefixes (hs_hub s') = hb_targetPrefixes (hs_hub s)"
  by (induction rule: hub_steps.induct) (auto dest: hub_trans_prefixes)

lemma hub_of_inv: "hub_inv (Some 0) (hub_start (hub_of ts d))"
  unfolding hub_of_def by (rule hub_New_start)

lemma message_reaches:
  assumes "hub_inv g0 s" and "resolveChannel (hs_hub s) channel = Some (t, u)"
  shows "\<exists>s'. hub_trans uuid_ok (Message channel payload) s = Some s'
     \<and> (\<forall>i < length (hs_conns s). received s' i = received s i @
          (if stream_open s i \<and> cn_key (hs_conns s ! i) = clientKey t u \<and> buffered s i < 16 then [payload] else []))"
proof -
  obtain h where h: "broadcast (clientKey t u) payload (hs_hub s) = Some h"
    using broadcast_some [OF assms(1)] by blast
  have "received (s\<lparr>hs_hub := h\<rparr>) i = received s i @
      (if stream_open s i \<and> cn_key (hs_conns s ! i) = clientKey t u \<and> buffered s i < 16 then [payload] else [])"
    if "i < length (hs_conns s)" for i
    using gets_broadcast [OF assms(1) that h] by (simp add: stream_gets_def chan_capacity_def)
  then show ?thesis using assms(2) h by simp
qed

text \<open>Keys are told apart: a subject, which is a UUID, has no zero byte.\<close>

lemma clientKey_inj:
  assumes "CHR 0x00 \<notin> set u" and "CHR 0x00 \<notin> set u'"
  shows "clientKey t u = clientKey t' u' \<longleftrightarrow> t = t' \<and> u = u'"
proof
  assume "clientKey t u = clientKey t' u'"
  then have "rev u @ CHR 0x00 # rev t = rev u' @ CHR 0x00 # rev t'"
    unfolding clientKey_def by (metis append_Cons append_Nil append_assoc rev.simps(2) rev_append rev_singleton_conv)
  moreover have "takeWhile (\<lambda>c. c \<noteq> CHR 0x00) (rev x @ CHR 0x00 # y) = rev x" if "CHR 0x00 \<notin> set x" for x y
    using that by (subst takeWhile_append2) auto
  ultimately have "rev u = rev u'" using assms by metis
  then show "t = t' \<and> u = u'" using \<open>clientKey t u = clientKey t' u'\<close> by (simp add: clientKey_def)
qed (simp add: clientKey_def)

text \<open>
  C18: a successful site send reaches the streams it is for, when the prefix of its target is the only
  longest one that begins its channel: it has published one event, and when Redis delivers that event, in
  any state of the hub, the step does not panic, every open stream of that target whose subject is the
  text of the recipient and whose channel has room gets the payload, and no other stream gets
  anything (also none of the same user that another spelling of his UUID opened).
\<close>

theorem send_reaches_streams:
  assumes "site_New st rd c base = Inr p" and "si_store p = pg_writer X" and "si_redis p = Some (recording_redis R)"
    and "resolveTarget p n cfg = Inr t" and "sole_prefix (si_targets p) t r" and "mset ts = mset (si_targets p)"
    and "site_Send T p n r cfg w = (None, w')" and "hub_steps uuid_ok (hub_start (hub_of ts d)) evs s"
  shows "\<exists>payload s'. ws_published w' = ws_published w @ [(site_channel p t r, payload)]
     \<and> hub_trans uuid_ok (Message (site_channel p t r) payload) s = Some s'
     \<and> (\<forall>i < length (hs_conns s). received s' i = received s i @
          (if stream_open s i \<and> cn_key (hs_conns s ! i) = clientKey t r \<and> buffered s i < 16 then [payload] else []))"
proof -
  have redis: "si_redis p = map_option recording_redis (Some R)" by (simp add: assms(3))
  obtain v where v: "ws_published w' = ws_published w @ [(site_channel p t r, json_print v)]"
    using site_Send_nil [OF assms(2) redis assms(7)] assms(4) by auto
  have "resolveChannel (hub_of ts d) (site_channel p t r) = Some (t, r)"
    by (rule events_routed [OF assms(1,5,6)])
  moreover have "hb_targetPrefixes (hs_hub s) = hb_targetPrefixes (hub_of ts d)"
    using hub_steps_prefixes [OF assms(8)] by (simp add: hub_start_def)
  ultimately have "resolveChannel (hs_hub s) (site_channel p t r) = Some (t, r)"
    using resolveChannel_cong by metis
  from message_reaches [OF hub_steps_inv [OF assms(8) hub_of_inv] this, of uuid_ok "json_print v"]
  show ?thesis using v by blast
qed

text \<open>
  Nothing asks for such prefixes: with two equal ones the target of a channel depends on the order in
  which the map of the prefixes is ranged over.
\<close>

lemma equal_prefixes_ambiguous:
  "resolveChannel (hub_of [(''a'', \<lparr>RedisPrefix = ''n:''\<rparr>), (''b'', \<lparr>RedisPrefix = ''n:''\<rparr>)] ''a'') ''n:u'' = Some (''a'', ''u'')"
  "resolveChannel (hub_of [(''b'', \<lparr>RedisPrefix = ''n:''\<rparr>), (''a'', \<lparr>RedisPrefix = ''n:''\<rparr>)] ''a'') ''n:u'' = Some (''b'', ''u'')"
  by code_simp+

section \<open>Overlapping subscriptions\<close>

text \<open>
  The documented behaviour of Redis' pattern subscriptions: the patterns of a subscriber are a set, and a
  message is delivered to him once for each of them that matches its channel; a text without
  special characters followed by a star matches the channels that begin with it. \<open>glob\<close> is the
  match of a pattern, \<open>deliver\<close> the number of deliveries.
\<close>

definition plain :: "string \<Rightarrow> bool" where
  "plain s \<longleftrightarrow> list_all (\<lambda>c. c \<notin> {CHR ''*'', CHR ''?'', CHR ''['', CHR '']'', CHR 0x5C}) s"

definition pattern_subscription :: "(string \<Rightarrow> string \<Rightarrow> bool) \<Rightarrow> (string list \<Rightarrow> string \<Rightarrow> nat) \<Rightarrow> bool" where
  "pattern_subscription glob deliver \<longleftrightarrow>
     (\<forall>pats channel. deliver pats channel = card {pat \<in> set pats. glob pat channel})
     \<and> (\<forall>pre channel. plain pre \<longrightarrow> glob (pre @ ''*'') channel = prefix pre channel)"

lemma deliveries_of_prefixes:
  assumes "pattern_subscription glob deliver" and "is_go_map ts" and "ts \<noteq> []"
    and "\<And>n q. (n, q) \<in> set ts \<Longrightarrow> plain (RedisPrefix q)"
  shows "deliver (hub_patterns (hub_of ts d)) channel = card {pre \<in> (\<lambda>nt. RedisPrefix (snd nt)) ` set ts. prefix pre channel}"
proof -
  have pats: "set (hub_patterns (hub_of ts d)) = (\<lambda>pre. pre @ ''*'') ` (\<lambda>nt. RedisPrefix (snd nt)) ` set ts"
    by (simp add: hub_patterns_def hub_of_prefixes(1) [OF assms(2,3)] image_image case_prod_beta)
  have "glob (pre @ ''*'') channel = prefix pre channel" if "pre \<in> (\<lambda>nt. RedisPrefix (snd nt)) ` set ts" for pre
    using that assms(1,4) by (auto simp: pattern_subscription_def)
  then have "{pat \<in> set (hub_patterns (hub_of ts d)). glob pat channel}
      = (\<lambda>pre. pre @ ''*'') ` {pre \<in> (\<lambda>nt. RedisPrefix (snd nt)) ` set ts. prefix pre channel}"
    unfolding pats by blast
  moreover have "inj_on (\<lambda>pre. pre @ ''*'') A" for A by (simp add: inj_on_def)
  ultimately show ?thesis using assms(1) by (simp add: pattern_subscription_def card_image)
qed

text \<open>A stream with room gets an event as often as the hub does.\<close>

lemma repeated_messages:
  assumes "hub_inv g0 s" and "resolveChannel (hs_hub s) channel = Some (t, u)" and "stream_open s i"
    and "cn_key (hs_conns s ! i) = clientKey t u" and "buffered s i + k \<le> 16"
  shows "\<exists>h. hub_steps uuid_ok s (replicate k (Message channel payload)) (s\<lparr>hs_hub := h\<rparr>)
     \<and> received (s\<lparr>hs_hub := h\<rparr>) i = received s i @ replicate k payload"
proof -
  have steps: "k \<le> 16 - buffered s i \<Longrightarrow> \<exists>h. hub_steps uuid_ok s (replicate k (Message channel payload)) (s\<lparr>hs_hub := h\<rparr>)
     \<and> received (s\<lparr>hs_hub := h\<rparr>) i = received s i @ replicate k payload
     \<and> buffered (s\<lparr>hs_hub := h\<rparr>) i \<le> buffered s i + k" for k
  proof (induction k)
    case 0
    then show ?case by (intro exI [of _ "hs_hub s"]) (simp add: hub_steps.none)
  next
    case (Suc k)
    then obtain h where h: "hub_steps uuid_ok s (replicate k (Message channel payload)) (s\<lparr>hs_hub := h\<rparr>)"
      "received (s\<lparr>hs_hub := h\<rparr>) i = received s i @ replicate k payload"
      "buffered (s\<lparr>hs_hub := h\<rparr>) i \<le> buffered s i + k" by auto
    let ?s = "s\<lparr>hs_hub := h\<rparr>"
    have inv: "hub_inv g0 ?s" by (rule hub_steps_inv [OF h(1) assms(1)])
    have "resolveChannel h channel = Some (t, u)"
      using hub_steps_prefixes [OF h(1)] assms(2) resolveChannel_cong [of h "hs_hub s"] by simp
    moreover obtain h' where h': "broadcast (clientKey t u) payload h = Some h'"
      using broadcast_some [OF inv, of "clientKey t u" payload] by auto
    ultimately have step: "hub_trans uuid_ok (Message channel payload) ?s = Some (s\<lparr>hs_hub := h'\<rparr>)" by simp
    have "buffered ?s i < chan_capacity" using h(3) Suc.prems by (simp add: chan_capacity_def)
    then have "stream_gets ?s (s\<lparr>hs_hub := h'\<rparr>) i [payload]"
      using gets_broadcast [OF inv, of i "clientKey t u" payload h'] assms(3,4) h'
      by (simp add: stream_open_def)
    then have "received (s\<lparr>hs_hub := h'\<rparr>) i = received s i @ replicate (Suc k) payload"
      "buffered (s\<lparr>hs_hub := h'\<rparr>) i \<le> buffered s i + Suc k"
      using h by (simp_all add: stream_gets_def replicate_append_same)
    moreover have "hub_steps uuid_ok s (replicate (Suc k) (Message channel payload)) (s\<lparr>hs_hub := h'\<rparr>)"
      using hub_steps.more [OF h(1) _ step] by (simp add: replicate_append_same)
    ultimately show ?case by blast
  qed
  have "k \<le> 16 - buffered s i" using assms(5) by linarith
  from steps [OF this] show ?thesis by blast
qed

lemma card_one_iff: "x \<in> A \<Longrightarrow> card A = 1 \<longleftrightarrow> A = {x}"
  by (auto simp: card_1_singleton_iff)


section \<open>Witnesses\<close>

lemma sample_colon: "colon_prefixes (si_targets sample_site_provider)"
  by (simp add: colon_prefixes_def sample_site_provider_def)

definition star_glob :: "string \<Rightarrow> string \<Rightarrow> bool" where
  "star_glob pat channel = prefix (butlast pat) channel"

definition star_deliver :: "string list \<Rightarrow> string \<Rightarrow> nat" where
  "star_deliver pats channel = card {pat \<in> set pats. star_glob pat channel}"

lemma star_subscription: "pattern_subscription star_glob star_deliver"
  by (simp add: pattern_subscription_def star_deliver_def star_glob_def butlast_append)

definition overlapping_config :: site_config where
  "overlapping_config = \<lparr>sc_Enabled = True, sc_DefaultTarget = ''main'',
     sc_Targets = [(''main'', \<lparr>RedisPrefix = ''notify:main:''\<rparr>), (''all'', \<lparr>RedisPrefix = ''notify:''\<rparr>)]\<rparr>"

definition overlapping_site :: "services site" where
  "overlapping_site = sample_site_provider\<lparr>si_targets :=
     [(''main'', \<lparr>RedisPrefix = ''notify:main:''\<rparr>), (''all'', \<lparr>RedisPrefix = ''notify:''\<rparr>)]\<rparr>"

lemma overlapping_New:
  "site_New (pg_writer sample_server) (Some (recording_redis (\<lambda>c p. None))) overlapping_config ''notify:''
     = Inr overlapping_site"
proof -
  have "EffectiveTargets overlapping_config ''notify:'' =
      Inr ([(''main'', \<lparr>RedisPrefix = ''notify:main:''\<rparr>), (''all'', \<lparr>RedisPrefix = ''notify:''\<rparr>)], ''main'')"
    by code_simp
  then show ?thesis by (simp add: site_New_def overlapping_site_def sample_site_provider_def)
qed

theorem site_events_routed_witness:
  "resolveChannel (hub_of (si_targets sample_site_provider) ''main'') (site_channel sample_site_provider ''main'' ''r1'')
     = Some (''main'', ''r1'')"
proof -
  have "resolveTarget sample_site_provider zero_notification [] = Inr ''main''" by code_simp
  then show ?thesis by (intro site_events_routed [OF sample_site_New sample_colon refl]) simp_all
qed

theorem hub_never_panics_witness:
  "registered (hs_hub (sse_connect (\<lambda>_. True) \<lparr>sq_flusher = True, sq_identity = Some ''r1'', sq_target = []\<rparr>
      (hub_start (hub_New True [] [] (Some 0))))) (clientKey ''default'' ''r1'') = [0]
   \<and> hub_trans (\<lambda>_. True) (Message ''notify:r1'' ''x'') (sse_connect (\<lambda>_. True)
        \<lparr>sq_flusher = True, sq_identity = Some ''r1'', sq_target = []\<rparr> (hub_start (hub_New True [] [] (Some 0)))) \<noteq> None"
proof -
  let ?r = "\<lparr>sq_flusher = True, sq_identity = Some ''r1'', sq_target = []\<rparr>" and ?s = "hub_start (hub_New True [] [] (Some 0))"
  have "hub_steps (\<lambda>_. True) ?s ([] @ [Request ?r]) (sse_connect (\<lambda>_. True) ?r ?s)"
    by (rule hub_steps.more [OF hub_steps.none]) simp_all
  from hub_never_panics [OF this, of "Message ''notify:r1'' ''x''"]
  have "hub_trans (\<lambda>_. True) (Message ''notify:r1'' ''x'') (sse_connect (\<lambda>_. True) ?r ?s) \<noteq> None" by simp
  moreover have "registered (hs_hub (sse_connect (\<lambda>_. True) ?r ?s)) (clientKey ''default'' ''r1'') = [0]" by code_simp
  ultimately show ?thesis by blast
qed

definition sample_stream :: hub_sys where
  "sample_stream = sse_connect (\<lambda>_. True) \<lparr>sq_flusher = True, sq_identity = Some ''R1'', sq_target = []\<rparr>
     (hub_start (hub_of (si_targets sample_site_provider) ''main''))"

lemma sample_stream_steps:
  "hub_steps (\<lambda>_. True) (hub_start (hub_of (si_targets sample_site_provider) ''main''))
     ([] @ [Request \<lparr>sq_flusher = True, sq_identity = Some ''R1'', sq_target = []\<rparr>]) sample_stream"
  unfolding sample_stream_def by (rule hub_steps.more [OF hub_steps.none]) simp_all

lemma sample_stream_facts:
  "length (hs_conns sample_stream) = 1" "stream_open sample_stream 0"
  "cn_key (hs_conns sample_stream ! 0) = clientKey ''main'' ''R1''" "buffered sample_stream 0 = 0"
  "received sample_stream 0 = []"
  by code_simp+

lemma sample_site_message: "\<exists>w'. site_Send (\<lambda>t. Some ''t'') sample_site_provider (zero_notification\<lparr>n_ID := ''A1''\<rparr>) ''R1'' []
    \<lparr>ws_pg = sample_pg, ws_published = [], ws_others = []\<rparr> = (None, w')"
proof -
  have store: "si_store sample_site_provider = pg_writer sample_server"
    "si_redis sample_site_provider = map_option recording_redis (Some (\<lambda>c p. None))"
    by (simp_all add: sample_site_provider_def)
  have "resolveTarget sample_site_provider (zero_notification\<lparr>n_ID := ''A1''\<rparr>) [] = Inr ''main''" by code_simp
  moreover obtain item where
    "fst (InsertSiteDelivery sample_server ''R1'' (Some (zero_notification\<lparr>n_ID := ''A1''\<rparr>)) sample_pg) = Inr item"
    using sample_redelivery by blast
  ultimately show ?thesis
    unfolding site_Send_pg [OF store]
    by (simp add: Let_def marshal_delivery_def delivery_json_def del: snd_store_op split: option.split)
qed

theorem send_reaches_streams_witness:
  "\<exists>channel payload s'. hub_trans (\<lambda>_. True) (Message channel payload) sample_stream = Some s' \<and> received s' 0 = [payload]"
proof -
  obtain w' where send: "site_Send (\<lambda>t. Some ''t'') sample_site_provider (zero_notification\<lparr>n_ID := ''A1''\<rparr>) ''R1'' []
    \<lparr>ws_pg = sample_pg, ws_published = [], ws_others = []\<rparr> = (None, w')" using sample_site_message by blast
  have store: "si_store sample_site_provider = pg_writer sample_server"
    "si_redis sample_site_provider = Some (recording_redis (\<lambda>c p. None))"
    by (simp_all add: sample_site_provider_def)
  have t: "resolveTarget sample_site_provider (zero_notification\<lparr>n_ID := ''A1''\<rparr>) [] = Inr ''main''" by code_simp
  have "sole_prefix (si_targets sample_site_provider) ''main'' ''R1''"
    by (simp add: sole_prefix_def sample_site_provider_def)
  from send_reaches_streams [OF sample_site_New store t this refl send sample_stream_steps]
  obtain payload s' where
    "hub_trans (\<lambda>_. True) (Message (site_channel sample_site_provider ''main'' ''R1'') payload) sample_stream = Some s'"
    "\<forall>i < length (hs_conns sample_stream). received s' i = received sample_stream i @
        (if stream_open sample_stream i \<and> cn_key (hs_conns sample_stream ! i) = clientKey ''main'' ''R1'' \<and> buffered sample_stream i < 16
         then [payload] else [])"
    by auto
  then show ?thesis using sample_stream_facts by auto
qed

definition overlapping_stream :: hub_sys where
  "overlapping_stream = sse_connect (\<lambda>_. True) \<lparr>sq_flusher = True, sq_identity = Some ''R1'', sq_target = ''main''\<rparr>
     (hub_start (hub_of (si_targets overlapping_site) ''main''))"


theorem stream_carries_own_events_witness:
  "\<exists>s'. hub_trans (\<lambda>_. True) (Message ''notify:main:R1'' ''x'') sample_stream = Some s' \<and> received s' 0 = [''x'']"
proof -
  have "case hub_trans (\<lambda>_. True) (Message ''notify:main:R1'' ''x'') sample_stream of None \<Rightarrow> False | Some s' \<Rightarrow> stream_open s' 0"
    by code_simp
  then obtain s' where s': "hub_trans (\<lambda>_. True) (Message ''notify:main:R1'' ''x'') sample_stream = Some s'" "stream_open s' 0"
    by (auto split: option.splits)
  have "payloads_for (hs_hub sample_stream) (clientKey ''main'' ''R1'') [Message ''notify:main:R1'' ''x''] = [''x'']"
    by code_simp
  moreover have "hub_steps (\<lambda>_. True) sample_stream ([] @ [Message ''notify:main:R1'' ''x'']) s'"
    by (rule hub_steps.more [OF hub_steps.none _ s'(1)]) simp
  ultimately show ?thesis
    using stream_carries_own_events [OF sample_stream_steps [unfolded hub_of_def], of "[] @ [Message ''notify:main:R1'' ''x'']" s' 0]
      sample_stream_facts s' by (auto simp: buffered_def)
qed

end
