(* ===== verification/Telegram.thy ===== *)
theory Telegram
  imports ConfigProps Provider
begin

text \<open>
  \<open>internal/provider/telegram/telegram.go\<close>: a send picks a bot (the recipient's preference before the
  notification's metadata before the default), posts the rendered text to the bot's API and takes
  any 2xx answer as success. The HTTP client is an operation on a world \<open>'w\<close>: the answer of
  \<open>Do\<close> is an error, or the status with the bytes that can be read from the body. Whether a URL is
  accepted by \<open>http.NewRequestWithContext\<close> is the parameter \<open>url_error\<close>.
\<close>

record http_request =
  hq_Method :: string
  hq_URL :: string
  hq_Header :: "string go_map"
  hq_Body :: string

record http_response =
  hp_StatusCode :: int
  hp_Body :: string

type_synonym 'w http_client = "http_request \<Rightarrow> 'w \<Rightarrow> (goerr + http_response) \<times> 'w"

record botConfig =
  bc_token :: string
  bc_apiBaseURL :: string

record 'w telegram =
  tg_client :: "'w http_client"
  tg_bots :: "botConfig go_map"
  tg_defaultBot :: string

definition bot_config :: "telegram_bot \<Rightarrow> botConfig" where
  "bot_config bt =
     (let apiBaseURL = trim_right_chars (trim_space (tb_APIBaseURL bt)) ''/'';
          apiBaseURL = (if apiBaseURL = [] then ''https://api.telegram.org'' else apiBaseURL)
      in \<lparr>bc_token = tb_Token bt, bc_apiBaseURL = apiBaseURL\<rparr>)"

definition telegram_New :: "'w http_client \<Rightarrow> telegram_config \<Rightarrow> goerr + 'w telegram" where
  "telegram_New client telegramCfg =
     (case EffectiveBots telegramCfg of
        Inl e \<Rightarrow> Inl e
      | Inr (bots, defaultBot) \<Rightarrow>
          Inr \<lparr>tg_client = client,
               tg_bots = fold (\<lambda>(name, bt) resolved. go_put name (bot_config bt) resolved) bots [],
               tg_defaultBot = defaultBot\<rparr>)"

definition renderMessage :: "notification option \<Rightarrow> string" where
  "renderMessage np =
     (case np of
        None \<Rightarrow> []
      | Some n \<Rightarrow>
          n_Title n
          @ (if trim_space (n_Body n) \<noteq> [] then [CHR 0x0A, CHR 0x0A] @ n_Body n else [])
          @ (if trim_space (n_Link n) \<noteq> [] then [CHR 0x0A, CHR 0x0A] @ n_Link n else []))"

record telegram_pref = tp_ChatID :: string  tp_Bot :: string

definition telegram_pref_fields :: "telegram_pref field list" where
  "telegram_pref_fields =
     [(''chat_id'', \<lambda>v p. map_option (\<lambda>x. p\<lparr>tp_ChatID := x\<rparr>) (dec_string v (tp_ChatID p))),
      (''bot'', \<lambda>v p. map_option (\<lambda>x. p\<lparr>tp_Bot := x\<rparr>) (dec_string v (tp_Bot p)))]"

definition decode_pref :: "string \<Rightarrow> telegram_pref option" where
  "decode_pref prefConfig =
     (if length prefConfig > 0 then unmarshal_struct telegram_pref_fields prefConfig \<lparr>tp_ChatID = [], tp_Bot = []\<rparr>
      else Some \<lparr>tp_ChatID = [], tp_Bot = []\<rparr>)"

definition bot_name :: "'w telegram \<Rightarrow> notification option \<Rightarrow> telegram_pref \<Rightarrow> string" where
  "bot_name p np pref =
     (let botName = trim_space (tp_Bot pref);
          botName = (case np of
              Some n \<Rightarrow> (if botName = [] then trim_space (metadata_value ''telegram_bot'' n) else botName)
            | None \<Rightarrow> botName)
      in if botName = [] then tg_defaultBot p else botName)"

definition message_body :: "telegram_pref \<Rightarrow> notification option \<Rightarrow> string" where
  "message_body pref np = json_print (enc_string_map [(''chat_id'', tp_ChatID pref), (''text'', renderMessage np)])"

definition telegram_request :: "botConfig \<Rightarrow> string \<Rightarrow> http_request" where
  "telegram_request bt body =
     \<lparr>hq_Method = ''POST'', hq_URL = bc_apiBaseURL bt @ ''/bot'' @ bc_token bt @ ''/sendMessage'',
      hq_Header = [(''Content-Type'', ''application/json'')], hq_Body = body\<rparr>"

definition telegram_Send ::
  "(string \<Rightarrow> error) \<Rightarrow> 'w telegram \<Rightarrow> notification option \<Rightarrow> string \<Rightarrow> string \<Rightarrow> 'w \<Rightarrow> error \<times> 'w" where
  "telegram_Send url_error p np recipientUUID prefConfig w =
     (case decode_pref prefConfig of
        None \<Rightarrow> (Some (Wrapf ''decode telegram preference for %s: %w'' [AStr recipientUUID] (Sentinel ''json'')), w)
      | Some pref \<Rightarrow>
          if trim_space (tp_ChatID pref) = [] then
            (Some (Errorf ''telegram chat_id is missing for recipient %s'' [AStr recipientUUID]), w)
          else
            (let botName = bot_name p np pref in
             case go_get (tg_bots p) botName of
               None \<Rightarrow> (Some (Errorf ''telegram bot %q is not configured'' [AStr botName]), w)
             | Some bt \<Rightarrow>
                 (let req = telegram_request bt (message_body pref np) in
                  case url_error (hq_URL req) of
                    Some e \<Rightarrow> (Some (Wrapf ''build telegram request: %w'' [] e), w)
                  | None \<Rightarrow>
                      (case tg_client p req w of
                         (Inl e, w1) \<Rightarrow> (Some (Wrapf ''telegram send: %w'' [] e), w1)
                       | (Inr resp, w1) \<Rightarrow>
                           if hp_StatusCode resp div 100 = 2 then (None, w1)
                           else (Some (Errorf ''telegram send unexpected status %d: %s''
                                   [AInt (hp_StatusCode resp), AStr (trim_space (take 4096 (hp_Body resp)))]), w1)))))"

definition telegram_Close :: "'w \<Rightarrow> error \<times> 'w" where
  "telegram_Close w = (None, w)"

definition telegram_provider :: "(string \<Rightarrow> error) \<Rightarrow> 'w telegram \<Rightarrow> 'w provider" where
  "telegram_provider url_error p = \<lparr>pv_Name = ''telegram'', pv_Channel = ChannelTelegram,
     pv_Send = (\<lambda>n. telegram_Send url_error p (Some n)), pv_Close = telegram_Close\<rparr>"

section \<open>The bots of a provider\<close>

lemma fold_bots:
  "fst ` set out \<inter> fst ` set bots = {} \<Longrightarrow> is_go_map bots \<Longrightarrow>
     fold (\<lambda>(name, bt) resolved. go_put name (bot_config bt) resolved) bots out
       = out @ map (\<lambda>(n, b). (n, bot_config b)) bots"
  by (induction bots arbitrary: out) (auto simp: go_put_fresh)

lemma telegram_New_Inr:
  assumes "telegram_New client cfg = Inr p"
  obtains bots where "EffectiveBots cfg = Inr (bots, tg_defaultBot p)" "tg_client p = client"
    "tg_bots p = map (\<lambda>(n, b). (n, bot_config b)) bots" "is_go_map bots" "list_all bot_ok bots"
    "go_get (tg_bots p) (tg_defaultBot p) \<noteq> None"
proof -
  obtain bots d where E: "EffectiveBots cfg = Inr (bots, d)" using assms by (auto simp: telegram_New_def split: sum.splits)
  note ok = effective_bots_sound [OF E]
  have p: "tg_defaultBot p = d" "tg_client p = client" "tg_bots p = map (\<lambda>(n, b). (n, bot_config b)) bots"
    using assms ok by (auto simp: telegram_New_def E fold_bots)
  have "go_get (tg_bots p) d \<noteq> None"
    using ok unfolding p(3) by (auto simp: map_of_eq_None_iff image_iff split: prod.splits)
  with that [of bots] E p ok show thesis by simp
qed

lemma bot_config_base: "bc_apiBaseURL (bot_config b) \<noteq> [] \<and> last (bc_apiBaseURL (bot_config b)) \<noteq> CHR ''/''"
proof -
  have "hd (dropWhile (\<lambda>c. c = CHR ''/'') xs) \<noteq> CHR ''/''" if "dropWhile (\<lambda>c. c = CHR ''/'') xs \<noteq> []" for xs
    using hd_dropWhile [OF that] .
  then show ?thesis by (auto simp: bot_config_def Let_def trim_right_chars_def last_rev)
qed

section \<open>What a send does\<close>

text \<open>A client that records the requests it is given; \<open>A\<close> is its answer.\<close>

definition recording_client :: "(http_request \<Rightarrow> goerr + http_response) \<Rightarrow> http_request list http_client" where
  "recording_client A = (\<lambda>req w. (A req, w @ [req]))"

definition chat_message :: "string \<Rightarrow> (string \<times> string) list \<Rightarrow> bool" where
  "chat_message body m \<longleftrightarrow> (\<exists>v. json_parse body = Some v \<and> dec_string_map v [] = Some m)"

lemma message_body_decodes:
  assumes "utf8_valid (tp_ChatID pref)" and "utf8_valid (renderMessage np)"
  shows "chat_message (message_body pref np) [(''chat_id'', tp_ChatID pref), (''text'', renderMessage np)]"
proof -
  let ?m = "[(''chat_id'', tp_ChatID pref), (''text'', renderMessage np)]"
  have names: "utf8_valid ''chat_id''" "utf8_valid ''text''" by code_simp+
  have "json_depth (enc_string_map ?m) \<le> max_depth"
    using json_depth_enc_string_map [of ?m] by (simp add: max_depth_def)
  then have "json_parse (message_body pref np) = Some (enc_string_map ?m)"
    unfolding message_body_def using assms names by (intro json_parse_print) simp_all
  moreover have "sort_key fst ?m = ?m"
  proof -
    have "(''chat_id'' :: string) \<le> ''text''" by code_simp
    then show ?thesis by simp
  qed
  ultimately show ?thesis using dec_string_map_enc [of ?m] by (simp add: chat_message_def)
qed

text \<open>
  The choice of the bot: the first name that is not blank of the preference's, the metadata's and the
  default, in this order.
\<close>

definition first_named :: "string list \<Rightarrow> string \<Rightarrow> string" where
  "first_named names fallback = (case filter (\<lambda>b. b \<noteq> []) names of [] \<Rightarrow> fallback | b # _ \<Rightarrow> b)"

definition named_in_metadata :: "notification option \<Rightarrow> string" where
  "named_in_metadata np = (case np of None \<Rightarrow> [] | Some n \<Rightarrow> trim_space (metadata_value ''telegram_bot'' n))"

lemma bot_name_first:
  "bot_name p np pref = first_named [trim_space (tp_Bot pref), named_in_metadata np] (tg_defaultBot p)"
  by (simp add: bot_name_def first_named_def named_in_metadata_def Let_def split: option.split)

text \<open>
  C31: a Telegram send makes at most one request. It makes none, and fails, exactly when the preference
  does not decode, has no chat id, the chosen bot is not configured or its URL is refused.
  Otherwise it posts to the URL of the chosen bot, built from its address and its token, exactly
  the chat id and the rendered text, and returns nil exactly when the answer's status is
  2xx. The chosen bot is the one the preference names; when it names none, the one the metadata
  names; when neither does, the default, which is configured.
\<close>

theorem telegram_send_request:
  assumes "telegram_New (recording_client A) tcfg = Inr p" and "telegram_Send url_error p np r cfg w = (err, w')"
  shows "(case decode_pref cfg of
       None \<Rightarrow> w' = w \<and> err \<noteq> None
     | Some pref \<Rightarrow>
         (case (if trim_space (tp_ChatID pref) = [] then None
                else go_get (tg_bots p) (first_named [trim_space (tp_Bot pref), named_in_metadata np] (tg_defaultBot p))) of
            None \<Rightarrow> w' = w \<and> err \<noteq> None
          | Some bt \<Rightarrow>
              if url_error (bc_apiBaseURL bt @ ''/bot'' @ bc_token bt @ ''/sendMessage'') \<noteq> None then w' = w \<and> err \<noteq> None
              else (\<exists>req. w' = w @ [req] \<and> hq_Method req = ''POST''
                 \<and> hq_URL req = bc_apiBaseURL bt @ ''/bot'' @ bc_token bt @ ''/sendMessage''
                 \<and> bc_apiBaseURL bt \<noteq> [] \<and> last (bc_apiBaseURL bt) \<noteq> CHR ''/''
                 \<and> (utf8_valid (tp_ChatID pref) \<and> utf8_valid (renderMessage np) \<longrightarrow>
                      chat_message (hq_Body req) [(''chat_id'', tp_ChatID pref), (''text'', renderMessage np)])
                 \<and> (err = None \<longleftrightarrow> (\<exists>resp. A req = Inr resp \<and> 200 \<le> hp_StatusCode resp \<and> hp_StatusCode resp < 300)))))
     \<and> go_get (tg_bots p) (tg_defaultBot p) \<noteq> None"
proof -
  obtain bots where N: "tg_client p = recording_client A" "tg_bots p = map (\<lambda>(n, b). (n, bot_config b)) bots"
    "go_get (tg_bots p) (tg_defaultBot p) \<noteq> None"
    by (rule telegram_New_Inr [OF assms(1)])
  have base: "bc_apiBaseURL bt \<noteq> [] \<and> last (bc_apiBaseURL bt) \<noteq> CHR ''/''" if "go_get (tg_bots p) k = Some bt" for k bt
    using map_of_SomeD [OF that] bot_config_base unfolding N(2) by auto
  have ok: "x div 100 = 2 \<longleftrightarrow> 200 \<le> x \<and> x < 300" for x :: int by linarith
  note send = assms(2) [unfolded telegram_Send_def bot_name_first N(1) recording_client_def]
  show ?thesis
    using send base N(3) message_body_decodes [of _ np]
    by (auto simp: Let_def telegram_request_def ok split: option.splits if_splits sum.splits)
qed

definition two_bots :: telegram_config where
  "two_bots = \<lparr>tc_Enabled = True, tc_DefaultBot = ''main'', tc_BotToken = [], tc_APIBaseURL = [],
     tc_Bots = [(''main'', \<lparr>tb_Token = ''m'', tb_APIBaseURL = []\<rparr>), (''other'', \<lparr>tb_Token = ''o'', tb_APIBaseURL = []\<rparr>)]\<rparr>"

definition main_pref :: string where
  "main_pref = json_print (JObj [(''chat_id'', JStr ''7''), (''bot'', JStr ''main'')])"

lemma two_bots_New:
  "\<exists>p. telegram_New (recording_client (\<lambda>req. Inr \<lparr>hp_StatusCode = 204, hp_Body = []\<rparr>)) two_bots = Inr p
     \<and> tg_bots p = [(''main'', \<lparr>bc_token = ''m'', bc_apiBaseURL = telegram_api\<rparr>), (''other'', \<lparr>bc_token = ''o'', bc_apiBaseURL = telegram_api\<rparr>)]"
proof -
  have "EffectiveBots two_bots = Inr ([(''main'', \<lparr>tb_Token = ''m'', tb_APIBaseURL = telegram_api\<rparr>),
      (''other'', \<lparr>tb_Token = ''o'', tb_APIBaseURL = telegram_api\<rparr>)], ''main'')" by code_simp
  moreover have "bot_config \<lparr>tb_Token = t, tb_APIBaseURL = telegram_api\<rparr> = \<lparr>bc_token = t, bc_apiBaseURL = telegram_api\<rparr>" for t
  proof -
    have "trim_right_chars (trim_space telegram_api) ''/'' = telegram_api" "telegram_api \<noteq> []" by code_simp+
    then show ?thesis by (simp add: bot_config_def)
  qed
  ultimately show ?thesis by (simp add: telegram_New_def)
qed

text \<open>The metadata does not override the bot that the preference names.\<close>

theorem telegram_send_request_witness:
  "\<exists>p req. telegram_New (recording_client (\<lambda>req. Inr \<lparr>hp_StatusCode = 204, hp_Body = []\<rparr>)) two_bots = Inr p
     \<and> telegram_Send (\<lambda>_. None) p (Some (zero_notification\<lparr>n_Metadata := [(''telegram_bot'', ''other'')]\<rparr>)) ''r1''
          main_pref [] = (None, [req])
     \<and> hq_URL req = ''https://api.telegram.org/botm/sendMessage''"
proof -
  let ?n = "Some (zero_notification\<lparr>n_Metadata := [(''telegram_bot'', ''other'')]\<rparr>)"
  obtain p where p: "telegram_New (recording_client (\<lambda>req. Inr \<lparr>hp_StatusCode = 204, hp_Body = []\<rparr>)) two_bots = Inr p"
    "tg_bots p = [(''main'', \<lparr>bc_token = ''m'', bc_apiBaseURL = telegram_api\<rparr>), (''other'', \<lparr>bc_token = ''o'', bc_apiBaseURL = telegram_api\<rparr>)]"
    using two_bots_New by blast
  obtain err w' where send: "telegram_Send (\<lambda>_. None) p ?n ''r1'' main_pref [] = (err, w')" by fastforce
  have facts: "decode_pref main_pref = Some \<lparr>tp_ChatID = ''7'', tp_Bot = ''main''\<rparr>" "trim_space ''7'' \<noteq> []" "trim_space ''main'' = ''main''"
    by code_simp+
  have "\<exists>req. w' = [] @ [req] \<and> hq_URL req = telegram_api @ ''/bot'' @ ''m'' @ ''/sendMessage'' \<and> err = None"
    using telegram_send_request [OF p(1) send]
    by (auto simp: facts p(2) first_named_def)
  then show ?thesis using p(1) send by (auto simp: telegram_api_def)
qed

end
