(* ===== verification/Webpush.thy ===== *)
theory Webpush
  imports DispatchProps Telegram
begin

text \<open>
  \<open>internal/provider/webpush/webpush.go\<close>: a send pushes one payload to every subscription of the
  recipient, deletes a subscription the push service has forgotten (404, 410), and collects the
  failures as permanent or temporary. The encrypting library is third-party: its call with the
  options of the provider is the parameter \<open>wb_push\<close>; the response may be nil, and the bytes
  that can be read from its body are given. \<open>http.HTTPClient\<close>'s authorisation is in \<open>Vapid\<close>. Only
  logging uses \<open>truncateEndpoint\<close>.
\<close>

record 'w subscriptionStore =
  ss_ListPushSubscriptionsForSubject :: "string \<Rightarrow> 'w \<Rightarrow> (goerr + PushSubscriptionRow list) \<times> 'w"
  ss_DeletePushSubscription :: "string \<Rightarrow> string \<Rightarrow> 'w \<Rightarrow> error \<times> 'w"

record push_options =
  op_Subscriber :: string
  op_TTL :: int
  op_VAPIDPublicKey :: string
  op_VAPIDPrivateKey :: string

type_synonym 'w push_library =
  "string \<Rightarrow> PushSubscriptionRow \<Rightarrow> push_options \<Rightarrow> 'w \<Rightarrow> (goerr + http_response option) \<times> 'w"

record 'w webpush =
  wb_store :: "'w subscriptionStore"
  wb_cfg :: web_push_config
  wb_push :: "'w push_library"

definition truncateEndpoint :: "string \<Rightarrow> string" where
  "truncateEndpoint ep = (if length ep \<le> 64 then ep else take 64 ep @ [CHR 0xE2, CHR 0x80, CHR 0xA6])"

definition webPushFailureReason :: "string \<Rightarrow> string" where
  "webPushFailureReason body =
     (case unmarshal_struct [(''reason'', dec_string)] body [] of None \<Rightarrow> [] | Some reason \<Rightarrow> trim_space reason)"

definition isPermanentWebPushFailure :: "int \<Rightarrow> string \<Rightarrow> bool" where
  "isPermanentWebPushFailure statusCode body =
     (if statusCode = 429 \<and> webPushFailureReason body = ''TooManyProviderTokenUpdates'' then True
      else statusCode = 400 \<or> statusCode = 403 \<or> statusCode = 404 \<or> statusCode = 410)"

definition push_tag :: "notification \<Rightarrow> string" where
  "push_tag n = (if n_ID n \<noteq> [] then ''notify-'' @ n_ID n else ''support-notify'')"

definition push_payload :: "notification \<Rightarrow> string" where
  "push_payload n = json_print (JObj
     ([(''title'', JStr (n_Title n)), (''body'', JStr (n_Body n)), (''link'', JStr (n_Link n)), (''tag'', JStr (push_tag n))]
      @ omit_empty (n_Metadata n = []) ''metadata'' (enc_string_map (n_Metadata n))))"

definition push_options_of :: "web_push_config \<Rightarrow> push_options" where
  "push_options_of cfg = \<lparr>op_Subscriber = trim_space (wp_Subscriber cfg), op_TTL = 86400,
     op_VAPIDPublicKey = trim_space (wp_VAPIDPublicKey cfg), op_VAPIDPrivateKey = trim_space (wp_VAPIDPrivateKey cfg)\<rparr>"

definition status_error :: "int \<Rightarrow> string \<Rightarrow> goerr" where
  "status_error statusCode bodyText =
     (let statusErr = Errorf ''web push unexpected status %d'' [AInt statusCode]
      in if bodyText \<noteq> [] then Wrapf ''%w: %s'' [AStr bodyText] statusErr else statusErr)"

text \<open>The body of the loop for one subscription: the joined error and the world after it.\<close>

definition push_one :: "'w webpush \<Rightarrow> string \<Rightarrow> string \<Rightarrow> PushSubscriptionRow \<Rightarrow> error \<Rightarrow> 'w \<Rightarrow> error \<times> 'w" where
  "push_one p recipientUUID payload sub sendErr w =
     (case wb_push p payload sub (push_options_of (wb_cfg p)) w of
        (Inl err, w1) \<Rightarrow> (errors_Join [sendErr, TemporarySendError ChannelWebPush (Some err)], w1)
      | (Inr None, w1) \<Rightarrow> (sendErr, w1)
      | (Inr (Some resp), w1) \<Rightarrow>
          (let bodyText = trim_space (take 1024 (hp_Body resp)); st = hp_StatusCode resp in
           if st = 404 \<or> st = 410 then
             (case ss_DeletePushSubscription (wb_store p) recipientUUID (Endpoint sub) w1 of
                (Some delErr, w2) \<Rightarrow> (errors_Join [sendErr, TemporarySendError ChannelWebPush (Some delErr)], w2)
              | (None, w2) \<Rightarrow> (sendErr, w2))
           else if st < 200 \<or> st \<ge> 300 then
             (if isPermanentWebPushFailure st bodyText then
                (errors_Join [sendErr, PermanentSendError ChannelWebPush (Some (status_error st bodyText))], w1)
              else (errors_Join [sendErr, TemporarySendError ChannelWebPush (Some (status_error st bodyText))], w1))
           else (sendErr, w1)))"

fun push_loop :: "'w webpush \<Rightarrow> string \<Rightarrow> string \<Rightarrow> PushSubscriptionRow list \<Rightarrow> error \<Rightarrow> 'w \<Rightarrow> error \<times> 'w" where
  "push_loop p recipientUUID payload [] sendErr w = (sendErr, w)"
| "push_loop p recipientUUID payload (sub # subs) sendErr w =
     (case push_one p recipientUUID payload sub sendErr w of
        (sendErr', w') \<Rightarrow> push_loop p recipientUUID payload subs sendErr' w')"

definition webpush_Send :: "'w webpush \<Rightarrow> notification \<Rightarrow> string \<Rightarrow> string \<Rightarrow> 'w \<Rightarrow> error \<times> 'w" where
  "webpush_Send p n recipientUUID prefConfig w =
     (case ss_ListPushSubscriptionsForSubject (wb_store p) recipientUUID w of
        (Inl err, w1) \<Rightarrow> (Some (Wrapf ''list push subscriptions: %w'' [] err), w1)
      | (Inr subs, w1) \<Rightarrow>
          if length subs = 0 then (None, w1) else push_loop p recipientUUID (push_payload n) subs None w1)"

definition webpush_Close :: "'w \<Rightarrow> error \<times> 'w" where
  "webpush_Close w = (None, w)"

definition webpush_provider :: "'w webpush \<Rightarrow> 'w provider" where
  "webpush_provider p = \<lparr>pv_Name = ''web_push'', pv_Channel = ChannelWebPush, pv_Send = webpush_Send p,
     pv_Close = webpush_Close\<rparr>"

section \<open>The outcome of each push\<close>

datatype push_result = Pushed | Dropped | DropFailed goerr | SendFailed goerr | Rejected int string

fun push_failure :: "push_result \<Rightarrow> error" where
  "push_failure Pushed = None"
| "push_failure Dropped = None"
| "push_failure (DropFailed e) = Some (SendError ChannelWebPush False e)"
| "push_failure (SendFailed e) = Some (SendError ChannelWebPush False e)"
| "push_failure (Rejected st body) =
     Some (SendError ChannelWebPush (isPermanentWebPushFailure st body) (status_error st body))"

definition push_result :: "'w webpush \<Rightarrow> string \<Rightarrow> string \<Rightarrow> PushSubscriptionRow \<Rightarrow> 'w \<Rightarrow> push_result \<times> 'w" where
  "push_result p r payload sub w =
     (case wb_push p payload sub (push_options_of (wb_cfg p)) w of
        (Inl err, w1) \<Rightarrow> (SendFailed err, w1)
      | (Inr None, w1) \<Rightarrow> (Pushed, w1)
      | (Inr (Some resp), w1) \<Rightarrow>
          (if hp_StatusCode resp \<in> {404, 410} then
             (case ss_DeletePushSubscription (wb_store p) r (Endpoint sub) w1 of
                (Some e, w2) \<Rightarrow> (DropFailed e, w2) | (None, w2) \<Rightarrow> (Dropped, w2))
           else if 200 \<le> hp_StatusCode resp \<and> hp_StatusCode resp < 300 then (Pushed, w1)
           else (Rejected (hp_StatusCode resp) (trim_space (take 1024 (hp_Body resp))), w1)))"

fun push_results :: "'w webpush \<Rightarrow> string \<Rightarrow> string \<Rightarrow> PushSubscriptionRow list \<Rightarrow> 'w \<Rightarrow> push_result list \<times> 'w" where
  "push_results p r payload [] w = ([], w)"
| "push_results p r payload (sub # subs) w =
     (case push_result p r payload sub w of
        (x, w1) \<Rightarrow> (case push_results p r payload subs w1 of (xs, w2) \<Rightarrow> (x # xs, w2)))"

definition push_failures :: "push_result list \<Rightarrow> goerr list" where
  "push_failures rs = List.map_filter push_failure rs"

lemma push_one_result:
  "push_one p r payload sub acc w =
     (case push_result p r payload sub w of
        (x, w') \<Rightarrow> (case push_failure x of None \<Rightarrow> acc | Some e \<Rightarrow> join_onto e acc, w'))"
  by (auto simp: push_one_def push_result_def join_onto_def TemporarySendError_def PermanentSendError_def Let_def
      split: prod.split sum.split option.split)

lemma push_loop_results:
  "push_loop p r payload subs acc w =
     (fold join_onto (push_failures (fst (push_results p r payload subs w))) acc, snd (push_results p r payload subs w))"
  by (induction p r payload subs acc w rule: push_loop.induct)
     (auto simp: push_one_result push_failures_def map_filter_simps case_prod_beta split: option.split)

section \<open>What the error of a send means\<close>

definition push_ok :: "push_result \<Rightarrow> bool" where
  "push_ok x \<longleftrightarrow> x = Pushed \<or> x = Dropped"

text \<open>The refusals no retry can change: a bad request, a forbidden one, or too many token updates.\<close>

definition push_permanent :: "push_result \<Rightarrow> bool" where
  "push_permanent x = (case x of
     Rejected st body \<Rightarrow> st = 400 \<or> st = 403
        \<or> st = 429 \<and> webPushFailureReason body = ''TooManyProviderTokenUpdates''
   | _ \<Rightarrow> False)"

lemma push_failure_None_iff: "push_failure x = None \<longleftrightarrow> push_ok x"
  by (cases x) (simp_all add: push_ok_def)

lemma push_results_status: "Rejected st body \<in> set (fst (push_results p r payload subs w)) \<Longrightarrow> st \<noteq> 404 \<and> st \<noteq> 410"
  by (induction p r payload subs w rule: push_results.induct)
     (auto simp: case_prod_beta push_result_def split: prod.splits sum.splits option.splits if_splits)

lemma push_failure_permanent:
  assumes "\<And>st body. x = Rejected st body \<Longrightarrow> st \<noteq> 404 \<and> st \<noteq> 410"
  shows "IsPermanentChannelOnly (push_failure x) ChannelWebPush \<longleftrightarrow> push_permanent x"
  using assms by (cases x) (auto simp: push_permanent_def isPermanentWebPushFailure_def)

lemma push_failures_Nil_iff: "push_failures rs = [] \<longleftrightarrow> list_all push_ok rs"
  by (induction rs) (auto simp: push_failures_def map_filter_simps push_failure_None_iff [symmetric] split: option.splits)

lemma push_failures_permanent:
  "(\<forall>st body. Rejected st body \<in> set rs \<longrightarrow> st \<noteq> 404 \<and> st \<noteq> 410) \<Longrightarrow>
     list_all (\<lambda>e. IsPermanentChannelOnly (Some e) ChannelWebPush) (push_failures rs)
       \<longleftrightarrow> list_all (\<lambda>x. push_ok x \<or> push_permanent x) rs"
proof (induction rs)
  case (Cons x rs)
  have x: "IsPermanentChannelOnly (push_failure x) ChannelWebPush \<longleftrightarrow> push_permanent x"
    using Cons.prems by (intro push_failure_permanent) auto
  show ?case
    using Cons x push_failure_None_iff [of x]
    by (cases "push_failure x") (auto simp: push_failures_def map_filter_simps)
qed (simp add: push_failures_def map_filter_simps)

text \<open>
  C19: the error of a Web Push send: nil exactly when every subscription was pushed to or, forgotten by
  its push service, deleted; and permanent on the channel, so that the message is acknowledged,
  exactly when something failed and every failure is a refusal that no retry can change (400, 403, or
  429 for too many token updates). One unreachable service or failed deletion makes it temporary.
\<close>

theorem webpush_error_meaning:
  assumes "ss_ListPushSubscriptionsForSubject (wb_store p) r w = (Inr subs, w1)"
    and "fst (push_results p r (push_payload n) subs w1) = rs"
  shows "(fst (webpush_Send p n r cfg w) = None \<longleftrightarrow> list_all push_ok rs)
     \<and> (IsPermanentChannelOnly (fst (webpush_Send p n r cfg w)) ChannelWebPush \<longleftrightarrow>
          \<not> list_all push_ok rs \<and> list_all (\<lambda>x. push_ok x \<or> push_permanent x) rs)"
proof -
  have send: "fst (webpush_Send p n r cfg w) = fold join_onto (push_failures rs) None"
    using assms by (cases subs) (auto simp: webpush_Send_def push_loop_results push_failures_def map_filter_simps
        split del: if_split)
  have "\<forall>st body. Rejected st body \<in> set rs \<longrightarrow> st \<noteq> 404 \<and> st \<noteq> 410"
    using push_results_status [of _ _ p r "push_payload n" subs w1] assms(2) by blast
  from push_failures_permanent [OF this] show ?thesis
    unfolding send by (simp add: fold_join_None_iff fold_join_permanent push_failures_Nil_iff)
qed

section \<open>Forgotten subscriptions\<close>

definition pg_subscriptions :: "pg_server \<Rightarrow> pg subscriptionStore" where
  "pg_subscriptions X = \<lparr>ss_ListPushSubscriptionsForSubject = ListPushSubscriptionsForSubject X,
     ss_DeletePushSubscription = DeletePushSubscription X\<rparr>"

text \<open>A push service whose answers do not depend on the database and do not change it.\<close>

definition service_push :: "(string \<Rightarrow> PushSubscriptionRow \<Rightarrow> push_options \<Rightarrow> goerr + http_response option) \<Rightarrow> pg push_library" where
  "service_push A = (\<lambda>payload sub opts s. (A payload sub opts, s))"

definition forgotten :: "goerr + http_response option \<Rightarrow> bool" where
  "forgotten answer = (case answer of Inr (Some resp) \<Rightarrow> hp_StatusCode resp = 404 \<or> hp_StatusCode resp = 410 | _ \<Rightarrow> False)"

lemma delete_push_list:
  assumes "pg_faults s = []" and "uuid_cast X r = Some u"
  shows "\<exists>s'. DeletePushSubscription X r ep s = (None, s') \<and> pg_faults s' = []
     \<and> push_list u s' = filter (\<lambda>e. Endpoint e \<noteq> ep) (push_list u s) \<and> (\<forall>v. v \<noteq> u \<longrightarrow> push_list v s' = push_list v s)"
proof -
  let ?s' = "s\<lparr>push_subscriptions := filter (\<lambda>r. \<not> (ps_subject r = u \<and> ps_endpoint r = ep)) (push_subscriptions s)\<rparr>"
  have "DeletePushSubscription X r ep s = (None, ?s')"
    by (simp add: DeletePushSubscription_def pg_run_no_faults assms sql_delete_push_def)
  moreover have "push_list u ?s' = filter (\<lambda>e. Endpoint e \<noteq> ep) (push_list u s)"
    unfolding filter_push_list [of "\<lambda>x. x \<noteq> ep"] by (simp add: push_list_def) (metis (full_types))
  moreover have "push_list v ?s' = push_list v s" if "v \<noteq> u" for v
    using that by (auto simp: push_list_def intro!: arg_cong [of _ _ "map push_entry"] filter_cong)
  ultimately show ?thesis using assms(1) by auto
qed

lemma push_results_pg:
  assumes "wb_store p = pg_subscriptions X" and "wb_push p = service_push A" and "uuid_cast X r = Some u"
  shows "pg_faults s = [] \<Longrightarrow>
     (let gone = Endpoint ` {sub \<in> set subs. forgotten (A payload sub (push_options_of (wb_cfg p)))};
          s' = snd (push_results p r payload subs s)
      in pg_faults s' = [] \<and> push_list u s' = filter (\<lambda>e. Endpoint e \<notin> gone) (push_list u s)
         \<and> (\<forall>v. v \<noteq> u \<longrightarrow> push_list v s' = push_list v s))"
proof (induction subs arbitrary: s)
  case (Cons sub subs)
  let ?A = "\<lambda>sub. A payload sub (push_options_of (wb_cfg p))"
  show ?case
  proof (cases "forgotten (?A sub)")
    case True
    then obtain resp where resp: "?A sub = Inr (Some resp)" "hp_StatusCode resp \<in> {404, 410}"
      by (auto simp: forgotten_def split: sum.splits option.splits)
    obtain s1 where s1: "DeletePushSubscription X r (Endpoint sub) s = (None, s1)" "pg_faults s1 = []"
      "push_list u s1 = filter (\<lambda>e. Endpoint e \<noteq> Endpoint sub) (push_list u s)" "\<forall>v. v \<noteq> u \<longrightarrow> push_list v s1 = push_list v s"
      using delete_push_list [OF Cons.prems assms(3)] by blast
    have "push_result p r payload sub s = (Dropped, s1)"
      using resp s1(1) by (simp add: push_result_def assms(1,2) service_push_def pg_subscriptions_def)
    then have "snd (push_results p r payload (sub # subs) s) = snd (push_results p r payload subs s1)"
      by (simp add: case_prod_beta)
    moreover have "{x \<in> set (sub # subs). forgotten (?A x)} = insert sub {x \<in> set subs. forgotten (?A x)}"
      using True by auto
    ultimately show ?thesis
      using Cons.IH [OF s1(2)] s1(3,4) by (auto simp: Let_def intro: filter_cong)
  next
    case False
    then have "snd (push_result p r payload sub s) = s"
      by (auto simp: push_result_def assms(2) service_push_def forgotten_def split: sum.splits option.splits)
    then have "snd (push_results p r payload (sub # subs) s) = snd (push_results p r payload subs s)"
      by (simp add: case_prod_beta)
    moreover have "{x \<in> set (sub # subs). forgotten (?A x)} = {x \<in> set subs. forgotten (?A x)}"
      using False by auto
    ultimately show ?thesis using Cons.IH [OF Cons.prems] by (simp add: Let_def)
  qed
qed simp

lemma push_list_endpoints:
  assumes "pg_inv s"
  shows "distinct (map Endpoint (push_list u s))"
proof -
  have "distinct (map push_key (filter (\<lambda>r. ps_subject r = u) (push_subscriptions s)))"
    using assms by (simp add: pg_inv_def distinct_map_filter)
  moreover have "map push_key (filter (\<lambda>r. ps_subject r = u) (push_subscriptions s))
      = map (Pair u) (map Endpoint (push_list u s))"
    by (simp add: push_list_def push_entry_def push_key_def)
  ultimately show ?thesis by (metis distinct_map)
qed

text \<open>
  C30: a push service's 404 or 410 for a subscription deletes exactly that subscription: after a
  send over the database (with no fault of the database) the recipient's subscriptions are those whose
  service has not forgotten them, in their order, and no other subject's change.
\<close>

theorem webpush_drops_forgotten:
  assumes "pg_inv s" and "pg_faults s = []" and "uuid_cast X r = Some u"
    and "wb_store p = pg_subscriptions X" and "wb_push p = service_push A"
  shows "push_list u (snd (webpush_Send p n r cfg s))
       = filter (\<lambda>sub. \<not> forgotten (A (push_payload n) sub (push_options_of (wb_cfg p)))) (push_list u s)
     \<and> (\<forall>v. v \<noteq> u \<longrightarrow> push_list v (snd (webpush_Send p n r cfg s)) = push_list v s)"
proof -
  let ?A = "\<lambda>sub. A (push_payload n) sub (push_options_of (wb_cfg p))" and ?subs = "push_list u s"
  have "ss_ListPushSubscriptionsForSubject (wb_store p) r s = (Inr ?subs, s)"
    using ListPush_value [OF assms(2,3)] by (simp add: assms(4) pg_subscriptions_def)
  then have send: "snd (webpush_Send p n r cfg s) = snd (push_results p r (push_payload n) ?subs s)"
    by (cases ?subs) (auto simp: webpush_Send_def push_loop_results)
  have "filter (\<lambda>e. Endpoint e \<notin> Endpoint ` {sub \<in> set ?subs. forgotten (?A sub)}) ?subs = filter (\<lambda>sub. \<not> forgotten (?A sub)) ?subs"
  proof (rule filter_cong [OF refl])
    fix e assume "e \<in> set ?subs"
    then show "Endpoint e \<notin> Endpoint ` {sub \<in> set ?subs. forgotten (?A sub)} \<longleftrightarrow> \<not> forgotten (?A e)"
      using distinct_map_key [OF push_list_endpoints [OF assms(1)], of e] by auto
  qed
  then show ?thesis
    using push_results_pg [OF assms(4,5,3,2), of ?subs "push_payload n"] unfolding send by (simp add: Let_def)
qed

section \<open>Witnesses\<close>

definition sample_subscription :: PushSubscriptionRow where
  "sample_subscription = \<lparr>Endpoint = ''https://p/1'', P256dhKey = ''k'', AuthKey = ''a''\<rparr>"

definition sample_push_config :: web_push_config where
  "sample_push_config = \<lparr>wp_Enabled = True, wp_Subscriber = ''ops@example.com'', wp_VAPIDPublicKey = ''p'', wp_VAPIDPrivateKey = ''s''\<rparr>"

definition refusing_push :: "unit webpush" where
  "refusing_push = \<lparr>wb_store = \<lparr>ss_ListPushSubscriptionsForSubject = (\<lambda>r w. (Inr [sample_subscription], w)),
       ss_DeletePushSubscription = (\<lambda>r ep w. (None, w))\<rparr>, wb_cfg = sample_push_config,
     wb_push = (\<lambda>payload sub opts w. (Inr (Some \<lparr>hp_StatusCode = 400, hp_Body = []\<rparr>), w))\<rparr>"

theorem webpush_error_meaning_witness:
  "IsPermanentChannelOnly (fst (webpush_Send refusing_push zero_notification ''r1'' [] ())) ChannelWebPush"
proof -
  have l: "ss_ListPushSubscriptionsForSubject (wb_store refusing_push) ''r1'' () = (Inr [sample_subscription], ())"
    by (simp add: refusing_push_def)
  have "fst (push_results refusing_push ''r1'' (push_payload zero_notification) [sample_subscription] ()) = [Rejected 400 []]"
    by (simp add: push_result_def refusing_push_def)
  from webpush_error_meaning [OF l this] show ?thesis by (simp add: push_ok_def push_permanent_def)
qed

definition sample_push_pg :: pg where
  "sample_push_pg = snd (UpsertPushSubscription sample_server ''R1'' ''https://p/1'' ''k'' ''a'' [] sample_pg)"

lemma sample_push_pg_facts:
  "pg_inv sample_push_pg" "pg_faults sample_push_pg = []" "push_list ''r1'' sample_push_pg = [sample_subscription]"
proof -
  show "pg_inv sample_push_pg"
    unfolding sample_push_pg_def using sample_inbox(1) by (rule pg_inv_operations)
  show "pg_faults sample_push_pg = []" "push_list ''r1'' sample_push_pg = [sample_subscription]"
    by (simp_all add: sample_push_pg_def UpsertPushSubscription_def pg_run_no_faults sample_visible(1) sql_upsert_push_def
        sample_inbox(2) push_list_def push_row_of_def push_entry_def sample_subscription_def sample_pg_eq empty_pg_def)
qed

definition forgetting_push :: "pg webpush" where
  "forgetting_push = \<lparr>wb_store = pg_subscriptions sample_server, wb_cfg = sample_push_config,
     wb_push = service_push (\<lambda>payload sub opts. Inr (Some \<lparr>hp_StatusCode = 410, hp_Body = []\<rparr>))\<rparr>"

theorem webpush_drops_forgotten_witness:
  "push_list ''r1'' sample_push_pg = [sample_subscription]
   \<and> push_list ''r1'' (snd (webpush_Send forgetting_push zero_notification ''R1'' [] sample_push_pg)) = []"
proof -
  have "wb_store forgetting_push = pg_subscriptions sample_server"
    "wb_push forgetting_push = service_push (\<lambda>payload sub opts. Inr (Some \<lparr>hp_StatusCode = 410, hp_Body = []\<rparr>))"
    by (simp_all add: forgetting_push_def)
  from webpush_drops_forgotten [OF sample_push_pg_facts(1,2) sample_inbox(2) this, of zero_notification "[]"]
  show ?thesis using sample_push_pg_facts(3) by (simp add: forgotten_def)
qed

end
