(* ===== verification/Vapid.thy ===== *)
theory Vapid
  imports Config Telegram
begin

text \<open>
  \<open>internal/provider/webpush/auth.go\<close>: the VAPID authorisation of the requests to the push services: the
  keys in base64, the JWT's claims, and the cache of authorisation headers. The elliptic-curve and
  JWT packages are the record \<open>vapid_crypto\<close>; \<open>net/url\<close> is \<open>url_Parse\<close> of \<open>Config\<close>. Times are
  nanoseconds since the zero time. The cache is locked for the lookup and again for the store, and
  others may use it in between: \<open>seen\<close> is the cache at the lookup, \<open>cache\<close> the one at the store.
\<close>

section \<open>Base64 with the URL alphabet (\<open>encoding/base64\<close>)\<close>

definition b64_char :: "nat \<Rightarrow> char" where
  "b64_char i =
     (if i < 26 then char_of (65 + i) else if i < 52 then char_of (71 + i) else if i < 62 then char_of (i - 4)
      else if i = 62 then CHR ''-'' else CHR ''_'')"

definition b64_index :: "char \<Rightarrow> nat option" where
  "b64_index c =
     (let b = of_char c :: nat in
      if 65 \<le> b \<and> b \<le> 90 then Some (b - 65) else if 97 \<le> b \<and> b \<le> 122 then Some (b - 71)
      else if 48 \<le> b \<and> b \<le> 57 then Some (b + 4) else if c = CHR ''-'' then Some 62 else if c = CHR ''_'' then Some 63
      else None)"

fun sextets :: "nat list \<Rightarrow> nat list" where
  "sextets [] = []"
| "sextets [a] = [a div 4, a mod 4 * 16]"
| "sextets [a, b] = [a div 4, a mod 4 * 16 + b div 16, b mod 16 * 4]"
| "sextets (a # b # c # rest) =
     [a div 4, a mod 4 * 16 + b div 16, b mod 16 * 4 + c div 64, c mod 64] @ sextets rest"

text \<open>The decoder ignores the bits left over in the last group, as Go's does when it is not strict.\<close>

fun octets :: "nat list \<Rightarrow> nat list option" where
  "octets [] = Some []"
| "octets [x] = None"
| "octets [x, y] = Some [x * 4 + y div 16]"
| "octets [x, y, z] = Some [x * 4 + y div 16, y mod 16 * 16 + z div 4]"
| "octets (x # y # z # w # rest) =
     map_option (\<lambda>bs. [x * 4 + y div 16, y mod 16 * 16 + z div 4, z mod 4 * 64 + w] @ bs) (octets rest)"

definition bytes_of :: "string \<Rightarrow> nat list" where "bytes_of s = map of_char s"
definition text_of :: "nat list \<Rightarrow> string" where "text_of bs = map char_of bs"

definition raw_encode :: "string \<Rightarrow> string" where
  "raw_encode s = map b64_char (sextets (bytes_of s))"

definition skip_newlines :: "string \<Rightarrow> string" where
  "skip_newlines s = filter (\<lambda>c. c \<noteq> CHR 0x0A \<and> c \<noteq> CHR 0x0D) s"

definition decode_groups :: "string \<Rightarrow> string option" where
  "decode_groups s =
     (case those (map b64_index s) of None \<Rightarrow> None | Some is \<Rightarrow> map_option text_of (octets is))"

definition raw_decode :: "string \<Rightarrow> string option" where
  "raw_decode s = decode_groups (skip_newlines s)"

definition padded_decode :: "string \<Rightarrow> string option" where
  "padded_decode s =
     (let t = skip_newlines s; body = takeWhile (\<lambda>c. c \<noteq> CHR ''='') t; pad = dropWhile (\<lambda>c. c \<noteq> CHR ''='') t in
      if length body mod 4 = 0 \<and> pad = [] \<or> length body mod 4 = 2 \<and> pad = ''=='' \<or> length body mod 4 = 3 \<and> pad = ''=''
      then decode_groups body else None)"

section \<open>Keys, subject and audience\<close>

definition corrupt_input :: goerr where "corrupt_input = Sentinel ''illegal base64 data''"

definition decodeVAPIDKey :: "string \<Rightarrow> goerr + string" where
  "decodeVAPIDKey key =
     (let key = trim_space key in
      case raw_decode key of
        Some decoded \<Rightarrow> Inr decoded
      | None \<Rightarrow> (case padded_decode key of Some decoded \<Rightarrow> Inr decoded | None \<Rightarrow> Inl corrupt_input))"

definition vapidSubject :: "string \<Rightarrow> goerr + string" where
  "vapidSubject raw =
     (let subscriber = trim_space raw in
      if subscriber = [] then Inl (Errorf ''subscriber is required'' [])
      else if has_prefix (to_lower subscriber) ''https://'' then Inr subscriber
      else if has_prefix (to_lower subscriber) ''mailto:'' then
        (let val = trim_space (drop (length ''mailto:'') subscriber) in
         if val = [] then Inl (Errorf ''subscriber mailto target is required'' []) else Inr (''mailto:'' @ val))
      else Inr (''mailto:'' @ subscriber))"

text \<open>When the parts are missing but the URL parses, the code wraps a nil error: no error is wrapped.\<close>

definition pushServiceAudience :: "parsers \<Rightarrow> string \<Rightarrow> goerr + string" where
  "pushServiceAudience P ep =
     (case url_Parse P ep of
        None \<Rightarrow> Inl (Wrapf ''parse push endpoint: %w'' [] (Sentinel ''url''))
      | Some u \<Rightarrow>
          if u_Scheme u = [] \<or> u_Host u = [] then Inl (Errorf ''parse push endpoint: %w'' [])
          else Inr (u_Scheme u @ ''://'' @ u_Host u))"

record ecdsa_key =
  ek_X :: nat
  ek_Y :: nat
  ek_D :: nat

record claims =
  cl_aud :: string
  cl_exp :: int
  cl_sub :: string

text \<open>\<open>NewPrivateKey\<close> with \<open>PublicKey().Bytes()\<close> of \<open>crypto/ecdh\<close>, and the signing of a token.\<close>

record vapid_crypto =
  vc_PublicKeyOf :: "string \<Rightarrow> goerr + string"
  vc_Sign :: "ecdsa_key \<Rightarrow> claims \<Rightarrow> goerr + string"

definition big_endian :: "string \<Rightarrow> nat" where
  "big_endian bs = fold (\<lambda>c v. v * 256 + of_char c) bs 0"

definition vapidPrivateKeyToECDSA :: "vapid_crypto \<Rightarrow> string \<Rightarrow> goerr + ecdsa_key" where
  "vapidPrivateKeyToECDSA V privateKey =
     (case vc_PublicKeyOf V privateKey of
        Inl e \<Rightarrow> Inl e
      | Inr publicKey \<Rightarrow>
          if length publicKey \<noteq> 1 + 32 * 2 \<or> of_char (publicKey ! 0) \<noteq> (4 :: nat) then
            Inl (Errorf ''decode VAPID public key'' [])
          else Inr \<lparr>ek_X = big_endian (take 32 (drop 1 publicKey)), ek_Y = big_endian (drop 33 publicKey),
                    ek_D = big_endian privateKey\<rparr>)"

section \<open>Authorisation headers and their cache\<close>

definition nanoseconds :: "int \<Rightarrow> int" where "nanoseconds s = s * 1000000000"
definition vapidAuthLifetime :: int where "vapidAuthLifetime = nanoseconds (12 * 3600)"
definition vapidAuthRefreshSkew :: int where "vapidAuthRefreshSkew = nanoseconds (15 * 60)"

definition unix_seconds :: "gotime \<Rightarrow> int" where
  "unix_seconds t = t div 1000000000 - 62135596800"

definition buildVAPIDAuthorizationHeader ::
  "vapid_crypto \<Rightarrow> gotime \<Rightarrow> string \<Rightarrow> string \<Rightarrow> string \<Rightarrow> string \<Rightarrow> gotime \<Rightarrow> goerr + string" where
  "buildVAPIDAuthorizationHeader V time_now audience subscriber publicKey privateKey expiration =
     (let expiration = (if expiration = 0 then time_now + vapidAuthLifetime else expiration) in
      case vapidSubject subscriber of
        Inl e \<Rightarrow> Inl e
      | Inr subject \<Rightarrow>
          (case decodeVAPIDKey privateKey of
             Inl e \<Rightarrow> Inl (Wrapf ''decode VAPID private key: %w'' [] e)
           | Inr decodedPrivateKey \<Rightarrow>
               (case decodeVAPIDKey publicKey of
                  Inl e \<Rightarrow> Inl (Wrapf ''decode VAPID public key: %w'' [] e)
                | Inr decodedPublicKey \<Rightarrow>
                    (case vapidPrivateKeyToECDSA V decodedPrivateKey of
                       Inl e \<Rightarrow> Inl (Wrapf ''derive VAPID signing key: %w'' [] e)
                     | Inr signingKey \<Rightarrow>
                         (case vc_Sign V signingKey \<lparr>cl_aud = audience, cl_exp = unix_seconds expiration, cl_sub = subject\<rparr> of
                            Inl e \<Rightarrow> Inl (Wrapf ''sign VAPID JWT: %w'' [] e)
                          | Inr jwtString \<Rightarrow> Inr (''vapid t='' @ jwtString @ '', k='' @ raw_encode decodedPublicKey))))))"

record cachedAuthorizationHeader =
  ch_header :: string
  ch_refreshAfter :: gotime

type_synonym auth_cache = "cachedAuthorizationHeader go_map"

definition cacheKey_of :: "string \<Rightarrow> string \<Rightarrow> string \<Rightarrow> string" where
  "cacheKey_of audience subscriber publicKey = audience @ [CHR 0x0A] @ subscriber @ [CHR 0x0A] @ publicKey"

definition cached_header :: "string \<Rightarrow> gotime \<Rightarrow> auth_cache \<Rightarrow> string option" where
  "cached_header cacheKey now cache =
     (case go_get cache cacheKey of
        None \<Rightarrow> None
      | Some cached \<Rightarrow> if now < ch_refreshAfter cached then Some (ch_header cached) else None)"

definition authorizationHeader ::
  "parsers \<Rightarrow> vapid_crypto \<Rightarrow> gotime \<Rightarrow> string \<Rightarrow> string \<Rightarrow> string \<Rightarrow> string \<Rightarrow> auth_cache \<Rightarrow> auth_cache
     \<Rightarrow> (goerr + string) \<times> auth_cache" where
  "authorizationHeader P V now ep subscriber publicKey privateKey seen cache =
     (case pushServiceAudience P ep of
        Inl e \<Rightarrow> (Inl e, cache)
      | Inr audience \<Rightarrow>
          (let cacheKey = cacheKey_of audience subscriber publicKey in
           case cached_header cacheKey now seen of
             Some header \<Rightarrow> (Inr header, cache)
           | None \<Rightarrow>
               (let expiration = now + vapidAuthLifetime in
                case buildVAPIDAuthorizationHeader V now audience subscriber publicKey privateKey expiration of
                  Inl e \<Rightarrow> (Inl e, cache)
                | Inr header \<Rightarrow>
                    (Inr header, go_put cacheKey
                       \<lparr>ch_header = header, ch_refreshAfter = expiration - vapidAuthRefreshSkew\<rparr> cache))))"

record authHTTPClient =
  ac_subscriber :: string
  ac_publicKey :: string
  ac_privateKey :: string

definition newAuthHTTPClient :: "string \<Rightarrow> string \<Rightarrow> string \<Rightarrow> authHTTPClient" where
  "newAuthHTTPClient subscriber publicKey privateKey =
     \<lparr>ac_subscriber = trim_space subscriber, ac_publicKey = trim_space publicKey, ac_privateKey = trim_space privateKey\<rparr>"

text \<open>\<open>Do\<close>: \<open>base\<close> is the HTTP client below; \<open>hq_URL\<close> is the text of the request's URL.\<close>

definition auth_Do ::
  "parsers \<Rightarrow> vapid_crypto \<Rightarrow> authHTTPClient \<Rightarrow> 'w http_client \<Rightarrow> gotime \<Rightarrow> http_request \<Rightarrow> auth_cache \<Rightarrow> auth_cache \<Rightarrow> 'w
     \<Rightarrow> (goerr + http_response) \<times> auth_cache \<times> 'w" where
  "auth_Do P V c base now req seen cache w =
     (case authorizationHeader P V now (hq_URL req) (ac_subscriber c) (ac_publicKey c) (ac_privateKey c) seen cache of
        (Inl e, cache') \<Rightarrow> (Inl e, cache', w)
      | (Inr header, cache') \<Rightarrow>
          (case base (req\<lparr>hq_Header := go_put ''Authorization'' header (hq_Header req)\<rparr>) w of
             (resp, w') \<Rightarrow> (resp, cache', w')))"

section \<open>Keys survive their encoding\<close>

lemma b64_index_char [simp]: "i < 64 \<Longrightarrow> b64_index (b64_char i) = Some i"
  by (auto simp: b64_index_def b64_char_def Let_def)

lemma sextets_bound: "list_all (\<lambda>b. b < 256) bs \<Longrightarrow> list_all (\<lambda>x. x < 64) (sextets bs)"
  by (induction bs rule: sextets.induct) auto

lemma octets_sextets: "list_all (\<lambda>b. b < 256) bs \<Longrightarrow> octets (sextets bs) = Some bs"
  by (induction bs rule: sextets.induct) auto

lemma those_index: "list_all (\<lambda>x. x < 64) xs \<Longrightarrow> those (map b64_index (map b64_char xs)) = Some xs"
  by (induction xs) auto

lemma text_of_bytes [simp]: "text_of (bytes_of s) = s"
  by (induction s) (auto simp: text_of_def bytes_of_def)

lemma bytes_bound: "list_all (\<lambda>b. b < 256) (bytes_of s)"
proof -
  have "(of_char c :: nat) < 256" for c using nat_of_char_less_256 [of c] by simp
  then show ?thesis by (simp add: bytes_of_def list_all_iff)
qed

lemma decode_groups_encode: "decode_groups (raw_encode s) = Some s"
  using those_index [OF sextets_bound [OF bytes_bound]] octets_sextets [OF bytes_bound, of s]
  by (simp add: decode_groups_def raw_encode_def del: map_map)

text \<open>The characters of an encoding are neither white space nor line ends nor padding.\<close>

definition b64_plain :: "char \<Rightarrow> bool" where
  "b64_plain c \<longleftrightarrow> (33 :: nat) \<le> of_char c \<and> (of_char c :: nat) < 128 \<and> of_char c \<noteq> (61 :: nat)"

lemma b64_char_plain: "i < 64 \<Longrightarrow> b64_plain (b64_char i)"
  by (auto simp: b64_plain_def b64_char_def)

lemma raw_encode_plain: "list_all b64_plain (raw_encode s)"
proof -
  have "\<forall>x \<in> set (sextets (bytes_of s)). x < 64"
    using sextets_bound [OF bytes_bound, of s] by (simp add: list_all_iff)
  then show ?thesis by (auto simp: raw_encode_def list_all_iff intro: b64_char_plain)
qed

lemma graphic_no_strip:
  assumes "cs = [] \<or> (33 :: nat) \<le> of_char (hd cs) \<and> (of_char (hd cs) :: nat) < 128"
  shows "strip_one space_codes cs = None" and "strip_one (map rev space_codes) cs = None"
proof -
  have "\<forall>code \<in> set space_codes. code \<noteq> [] \<and> ((of_char (hd code) :: nat) < 33 \<or> 128 \<le> (of_char (hd code) :: nat))"
    by code_simp
  moreover have "\<forall>code \<in> set (map rev space_codes). code \<noteq> [] \<and> ((of_char (hd code) :: nat) < 33 \<or> 128 \<le> (of_char (hd code) :: nat))"
    by code_simp
  moreover have "prefix code cs \<Longrightarrow> code \<noteq> [] \<Longrightarrow> cs \<noteq> [] \<and> hd code = hd cs" for code
    by (auto simp: prefix_def)
  ultimately show "strip_one space_codes cs = None" and "strip_one (map rev space_codes) cs = None"
    using assms unfolding strip_one_None_iff by (metis leD)+
qed

lemma trim_space_graphic:
  assumes "list_all (\<lambda>c. (33 :: nat) \<le> of_char c \<and> (of_char c :: nat) < 128) s"
  shows "trim_space s = s"
proof -
  have "trim_left s = s"
    unfolding trim_left_def using assms by (intro strip_codes_id graphic_no_strip(1)) (cases s; simp)
  moreover have "trim_right s = s"
    unfolding trim_right_def
    using assms by (subst strip_codes_id [OF graphic_no_strip(2)]) (cases s rule: rev_cases; simp)+
  ultimately show ?thesis by (simp add: trim_space_def)
qed

lemma skip_newlines_graphic:
  "list_all (\<lambda>c. (33 :: nat) \<le> of_char c \<and> (of_char c :: nat) < 128) s \<Longrightarrow> skip_newlines s = s"
  by (auto simp: skip_newlines_def list_all_iff filter_id_conv)

definition padding :: "string \<Rightarrow> string" where
  "padding s = (case length s mod 3 of 0 \<Rightarrow> [] | Suc 0 \<Rightarrow> ''=='' | _ \<Rightarrow> ''='')"

lemma sextets_length: "length (sextets bs) mod 4 = (case length bs mod 3 of 0 \<Rightarrow> 0 | Suc 0 \<Rightarrow> 2 | _ \<Rightarrow> 3)"
  by (induction bs rule: sextets.induct) (auto simp: mod_Suc split: nat.split)

lemma plain_not_pad: "b64_plain c \<Longrightarrow> c \<noteq> CHR ''=''"
  by (auto simp: b64_plain_def)

lemma plain_graphic:
  "list_all b64_plain s \<Longrightarrow> list_all (\<lambda>c. (33 :: nat) \<le> of_char c \<and> (of_char c :: nat) < 128) s"
  by (auto simp: b64_plain_def list_all_iff)

lemma encoding_graphic:
  "list_all (\<lambda>c. (33 :: nat) \<le> of_char c \<and> (of_char c :: nat) < 128) (raw_encode s @ padding s)"
  using plain_graphic [OF raw_encode_plain, of s] by (auto simp: padding_def split: nat.split)

lemma those_None: "None \<in> set xs \<Longrightarrow> those xs = None"
  by (induction xs) (auto split: option.splits)

lemma padded_decode_encode: "padded_decode (raw_encode s @ padding s) = Some s"
proof -
  have plain: "\<forall>c \<in> set (raw_encode s). c \<noteq> CHR ''=''"
    using raw_encode_plain [of s] plain_not_pad by (auto simp: list_all_iff)
  have pad: "padding s = [] \<or> hd (padding s) = CHR ''=''" by (auto simp: padding_def split: nat.split)
  have split: "takeWhile (\<lambda>c. c \<noteq> CHR ''='') (raw_encode s @ padding s) = raw_encode s"
    "dropWhile (\<lambda>c. c \<noteq> CHR ''='') (raw_encode s @ padding s) = padding s"
    using plain pad by (cases "padding s"; auto simp: takeWhile_append2 dropWhile_append2)+
  have "length (raw_encode s) mod 4 = (case length s mod 3 of 0 \<Rightarrow> 0 | Suc 0 \<Rightarrow> 2 | _ \<Rightarrow> 3)"
    using sextets_length [of "bytes_of s"] by (simp add: raw_encode_def bytes_of_def)
  then have "length (raw_encode s) mod 4 = 0 \<and> padding s = [] \<or> length (raw_encode s) mod 4 = 2 \<and> padding s = ''==''
      \<or> length (raw_encode s) mod 4 = 3 \<and> padding s = ''=''"
    by (auto simp: padding_def split: nat.splits)
  then show ?thesis
    by (simp only: padded_decode_def Let_def skip_newlines_graphic [OF encoding_graphic] split if_True decode_groups_encode)
qed

lemma decode_encoded_key:
  "decodeVAPIDKey (raw_encode s) = Inr s \<and> decodeVAPIDKey (raw_encode s @ padding s) = Inr s"
proof -
  note graphic = plain_graphic [OF raw_encode_plain, of s]
  have raw: "raw_decode (raw_encode s) = Some s"
    by (simp add: raw_decode_def skip_newlines_graphic [OF graphic] decode_groups_encode)
  have "raw_decode (raw_encode s @ padding s) = (if padding s = [] then Some s else None)"
  proof (cases "padding s = []")
    case True
    then show ?thesis using raw by simp
  next
    case False
    then have "CHR ''='' \<in> set (padding s)" by (auto simp: padding_def split: nat.splits)
    then have "None \<in> set (map b64_index (raw_encode s @ padding s))"
      by (auto simp: b64_index_def image_iff intro!: bexI [of _ "CHR ''=''"])
    then show ?thesis
      using False by (simp add: raw_decode_def skip_newlines_graphic [OF encoding_graphic] decode_groups_def those_None del: map_append)
  qed
  then show ?thesis
    using raw padded_decode_encode [of s]
    by (auto simp: decodeVAPIDKey_def trim_space_graphic [OF graphic] trim_space_graphic [OF encoding_graphic])
qed

text \<open>
  C32: a VAPID key survives its encoding: \<open>decodeVAPIDKey\<close> gives back the bytes that were encoded with
  the URL alphabet of base64, with or without padding.
\<close>

theorem vapid_key_roundtrip:
  "decodeVAPIDKey (raw_encode s) = Inr s \<and> decodeVAPIDKey (raw_encode s @ padding s) = Inr s"
  by (rule decode_encoded_key)

section \<open>A header is fresh whenever it is used\<close>

text \<open>
  A header carries a token when it has the text of the client's keys and the token, signed with the
  client's private key for exactly these claims.
\<close>

definition carries_token :: "vapid_crypto \<Rightarrow> authHTTPClient \<Rightarrow> string \<Rightarrow> claims \<Rightarrow> bool" where
  "carries_token V c header cl \<longleftrightarrow>
     (\<exists>priv pub key jwt. decodeVAPIDKey (ac_privateKey c) = Inr priv \<and> decodeVAPIDKey (ac_publicKey c) = Inr pub
        \<and> vapidPrivateKeyToECDSA V priv = Inr key \<and> vc_Sign V key cl = Inr jwt
        \<and> header = ''vapid t='' @ jwt @ '', k='' @ raw_encode pub)"

definition fits :: "vapid_crypto \<Rightarrow> authHTTPClient \<Rightarrow> string \<Rightarrow> gotime \<Rightarrow> string \<Rightarrow> bool" where
  "fits V c audience expiration header \<longleftrightarrow>
     (\<exists>subject. vapidSubject (ac_subscriber c) = Inr subject
        \<and> carries_token V c header \<lparr>cl_aud = audience, cl_exp = unix_seconds expiration, cl_sub = subject\<rparr>)"

definition cache_ok :: "vapid_crypto \<Rightarrow> authHTTPClient \<Rightarrow> auth_cache \<Rightarrow> bool" where
  "cache_ok V c cache \<longleftrightarrow>
     (\<forall>audience e. go_get cache (cacheKey_of audience (ac_subscriber c) (ac_publicKey c)) = Some e \<longrightarrow>
        fits V c audience (ch_refreshAfter e + vapidAuthRefreshSkew) (ch_header e))"

lemma cache_ok_empty: "cache_ok V c []"
  by (simp add: cache_ok_def)

lemma build_fits:
  "e \<noteq> 0 \<Longrightarrow>
     buildVAPIDAuthorizationHeader V n a (ac_subscriber c) (ac_publicKey c) (ac_privateKey c) e = Inr header
       \<longleftrightarrow> fits V c a e header"
  by (auto simp: buildVAPIDAuthorizationHeader_def fits_def carries_token_def Let_def split: sum.splits)

definition client_header where
  "client_header P V c now ep seen cache =
     authorizationHeader P V now ep (ac_subscriber c) (ac_publicKey c) (ac_privateKey c) seen cache"

lemma client_header_cases:
  assumes "0 < now" and "cache_ok V c seen" and "client_header P V c now ep seen cache = (Inr header, cache')"
  obtains (cached) audience e where "pushServiceAudience P ep = Inr audience" "cache' = cache" "now < ch_refreshAfter e"
      "header = ch_header e" "fits V c audience (ch_refreshAfter e + vapidAuthRefreshSkew) header"
      "go_get seen (cacheKey_of audience (ac_subscriber c) (ac_publicKey c)) = Some e"
  | (built) audience where "pushServiceAudience P ep = Inr audience"
      "cached_header (cacheKey_of audience (ac_subscriber c) (ac_publicKey c)) now seen = None"
      "fits V c audience (now + vapidAuthLifetime) header"
      "cache' = go_put (cacheKey_of audience (ac_subscriber c) (ac_publicKey c))
         \<lparr>ch_header = header, ch_refreshAfter = now + vapidAuthLifetime - vapidAuthRefreshSkew\<rparr> cache"
proof -
  obtain audience where a: "pushServiceAudience P ep = Inr audience"
    using assms(3) by (auto simp: client_header_def authorizationHeader_def split: sum.splits)
  let ?key = "cacheKey_of audience (ac_subscriber c) (ac_publicKey c)"
  have pos: "now + vapidAuthLifetime \<noteq> 0" using assms(1) by (simp add: vapidAuthLifetime_def nanoseconds_def)
  show thesis
  proof (cases "cached_header ?key now seen")
    case None
    then have "buildVAPIDAuthorizationHeader V now audience (ac_subscriber c) (ac_publicKey c) (ac_privateKey c)
        (now + vapidAuthLifetime) = Inr header"
      "cache' = go_put ?key \<lparr>ch_header = header, ch_refreshAfter = now + vapidAuthLifetime - vapidAuthRefreshSkew\<rparr> cache"
      using assms(3) a by (auto simp: client_header_def authorizationHeader_def Let_def split: sum.splits)
    then show thesis using built [OF a None] build_fits [OF pos] by simp
  next
    case (Some h)
    then obtain e where e: "go_get seen ?key = Some e" "now < ch_refreshAfter e" "h = ch_header e"
      by (auto simp: cached_header_def split: option.splits if_splits)
    moreover have "cache' = cache" "header = h"
      using assms(3) a Some by (auto simp: client_header_def authorizationHeader_def)
    ultimately show thesis using cached [OF a] assms(2) by (simp add: cache_ok_def)
  qed
qed

lemma cacheKey_inj: "cacheKey_of a s pk = cacheKey_of a' s pk \<longleftrightarrow> a = a'"
  by (simp add: cacheKey_of_def)

lemma client_header_keeps:
  assumes "0 < now" and "cache_ok V c seen" and "cache_ok V c cache" and "client_header P V c now ep seen cache = (res, cache')"
  shows "cache_ok V c cache'"
proof (cases res)
  case (Inl e)
  then have "cache' = cache"
    using assms(4) by (auto simp: client_header_def authorizationHeader_def Let_def split: sum.splits option.splits)
  then show ?thesis using assms(3) by simp
next
  case (Inr header)
  then have "client_header P V c now ep seen cache = (Inr header, cache')" using assms(4) by simp
  then show ?thesis
  proof (rule client_header_cases [OF assms(1,2)])
    assume "cache' = cache"
    then show ?thesis using assms(3) by simp
  next
    fix audience
    assume "fits V c audience (now + vapidAuthLifetime) header"
      "cache' = go_put (cacheKey_of audience (ac_subscriber c) (ac_publicKey c))
         \<lparr>ch_header = header, ch_refreshAfter = now + vapidAuthLifetime - vapidAuthRefreshSkew\<rparr> cache"
    then show ?thesis using assms(3) by (auto simp: cache_ok_def update_conv' cacheKey_inj)
  qed
qed

text \<open>When no header can be made there is no token for the endpoint's audience and the client's subject.\<close>

lemma client_header_refused:
  assumes "0 < now" and "client_header P V c now ep seen cache = (Inl e, cache')"
  shows "cache' = cache \<and> (\<forall>audience header. pushServiceAudience P ep = Inr audience \<longrightarrow>
           \<not> fits V c audience (now + vapidAuthLifetime) header)"
proof -
  have pos: "now + vapidAuthLifetime \<noteq> 0" using assms(1) by (simp add: vapidAuthLifetime_def nanoseconds_def)
  show ?thesis
  proof (intro conjI allI impI notI)
    show "cache' = cache"
      using assms(2) by (auto simp: client_header_def authorizationHeader_def Let_def split: sum.splits option.splits)
    fix audience header
    assume a: "pushServiceAudience P ep = Inr audience" and "fits V c audience (now + vapidAuthLifetime) header"
    then have "buildVAPIDAuthorizationHeader V now audience (ac_subscriber c) (ac_publicKey c) (ac_privateKey c)
        (now + vapidAuthLifetime) = Inr header" by (simp only: build_fits [OF pos])
    then show False
      using assms(2) a by (auto simp: client_header_def authorizationHeader_def Let_def split: option.splits)
  qed
qed

text \<open>
  The caches a client's goroutines can see: each call looks into one such cache and stores into
  another, which covers every interleaving of their two critical sections.
\<close>

inductive auth_reach :: "parsers \<Rightarrow> vapid_crypto \<Rightarrow> authHTTPClient \<Rightarrow> 'w http_client \<Rightarrow> auth_cache \<Rightarrow> bool"
  for P V c base where
  empty: "auth_reach P V c base []"
| call: "auth_reach P V c base seen \<Longrightarrow> auth_reach P V c base cache \<Longrightarrow> 0 < now
     \<Longrightarrow> auth_Do P V c base now req seen cache w = (res, cache', w') \<Longrightarrow> auth_reach P V c base cache'"

lemma auth_Do_header:
  "auth_Do P V c base now req seen cache w =
     (case client_header P V c now (hq_URL req) seen cache of
        (Inl e, cache') \<Rightarrow> (Inl e, cache', w)
      | (Inr header, cache') \<Rightarrow>
          (case base (req\<lparr>hq_Header := go_put ''Authorization'' header (hq_Header req)\<rparr>) w of
             (resp, w') \<Rightarrow> (resp, cache', w')))"
  by (simp add: auth_Do_def client_header_def)

lemma auth_reach_ok: "auth_reach P V c base cache \<Longrightarrow> cache_ok V c cache"
proof (induction rule: auth_reach.induct)
  case (call seen cache now req w res cache' w')
  obtain h where "client_header P V c now (hq_URL req) seen cache = (h, cache')"
    using call.hyps(4) by (auto simp: auth_Do_header split: prod.splits sum.splits)
  from client_header_keeps [OF _ _ _ this] call show ?case by blast
qed (rule cache_ok_empty)

lemma cached_again:
  assumes "pushServiceAudience P ep = Inr audience"
    and "go_get m (cacheKey_of audience (ac_subscriber c) (ac_publicKey c)) = Some e" and "now < ch_refreshAfter e"
  shows "client_header P V c now ep m cache = (Inr (ch_header e), cache)"
  using assms by (simp add: client_header_def authorizationHeader_def cached_header_def)

lemma unix_seconds_skew:
  "now + vapidAuthRefreshSkew < t \<Longrightarrow> unix_seconds now + 900 \<le> unix_seconds t"
  "unix_seconds now + 900 < unix_seconds t \<Longrightarrow> now + vapidAuthRefreshSkew < t"
  "unix_seconds (now + vapidAuthLifetime) = unix_seconds now + 43200"
  unfolding unix_seconds_def vapidAuthRefreshSkew_def vapidAuthLifetime_def nanoseconds_def by linarith+

lemma pushServiceAudience_Inr:
  "pushServiceAudience P ep = Inr a \<longleftrightarrow>
     (\<exists>u. url_Parse P ep = Some u \<and> u_Scheme u \<noteq> [] \<and> u_Host u \<noteq> [] \<and> a = u_Scheme u @ ''://'' @ u_Host u)"
  by (auto simp: pushServiceAudience_def split: option.splits)

lemma client_header_fresh:
  assumes "cache_ok V c seen" and "0 < now" and "client_header P V c now ep seen cache = (Inr header, cache')"
  shows "\<exists>audience expiration m. pushServiceAudience P ep = Inr audience \<and> fits V c audience expiration header
     \<and> now + vapidAuthRefreshSkew < expiration \<and> (cache' = cache \<or> expiration = now + vapidAuthLifetime)
     \<and> m \<in> {seen, cache'}
     \<and> (\<forall>now' cache2. now' + vapidAuthRefreshSkew < expiration \<longrightarrow>
          client_header P V c now' ep m cache2 = (Inr header, cache2))"
proof (rule client_header_cases [OF assms(2,1,3)])
  fix audience e
  assume a: "pushServiceAudience P ep = Inr audience" "cache' = cache" "now < ch_refreshAfter e" "header = ch_header e"
    "fits V c audience (ch_refreshAfter e + vapidAuthRefreshSkew) header"
    "go_get seen (cacheKey_of audience (ac_subscriber c) (ac_publicKey c)) = Some e"
  then show ?thesis
    using cached_again [OF a(1,6)]
    by (intro exI [of _ audience] exI [of _ "ch_refreshAfter e + vapidAuthRefreshSkew"] exI [of _ seen]) simp
next
  fix audience
  assume a: "pushServiceAudience P ep = Inr audience" "fits V c audience (now + vapidAuthLifetime) header"
    "cache' = go_put (cacheKey_of audience (ac_subscriber c) (ac_publicKey c))
         \<lparr>ch_header = header, ch_refreshAfter = now + vapidAuthLifetime - vapidAuthRefreshSkew\<rparr> cache"
  let ?e = "\<lparr>ch_header = header, ch_refreshAfter = now + vapidAuthLifetime - vapidAuthRefreshSkew\<rparr>"
  have "go_get cache' (cacheKey_of audience (ac_subscriber c) (ac_publicKey c)) = Some ?e"
    using a(3) by (simp add: update_conv')
  moreover have "now + vapidAuthRefreshSkew < now + vapidAuthLifetime"
    by (simp add: vapidAuthRefreshSkew_def vapidAuthLifetime_def nanoseconds_def)
  ultimately show ?thesis
    using a(1,2) cached_again [OF a(1), of cache' c ?e]
    by (intro exI [of _ audience] exI [of _ "now + vapidAuthLifetime"] exI [of _ cache']) simp
qed

text \<open>
  C33: every request of the client is sent with a fresh authorisation, under every interleaving of its
  calls: the header carries a token signed with the client's key whose audience is the scheme and
  host of the request's URL, whose subject is the client's and which expires 15 minutes from now
  or later, a newly signed one in 12 hours. Until 15 minutes before its expiration the token is
  used again by the calls that see the cache. A request that is not sent leaves the cache, and
  there is no token for it.
\<close>

theorem auth_header_fresh:
  assumes "auth_reach P V c base seen" and "auth_reach P V c base cache" and "0 < now"
    and "auth_Do P V c base now req seen cache w = (res, cache', w')"
  shows "(w' = w \<and> cache' = cache \<and> (\<exists>e. res = Inl e)
        \<and> (\<forall>u subject header. url_Parse P (hq_URL req) = Some u \<and> u_Scheme u \<noteq> [] \<and> u_Host u \<noteq> []
             \<and> vapidSubject (ac_subscriber c) = Inr subject \<longrightarrow>
             \<not> carries_token V c header \<lparr>cl_aud = u_Scheme u @ ''://'' @ u_Host u,
                  cl_exp = unix_seconds now + 12 * 3600, cl_sub = subject\<rparr>))
     \<or> (\<exists>header u expiry subject.
          base (req\<lparr>hq_Header := go_put ''Authorization'' header (hq_Header req)\<rparr>) w = (res, w')
        \<and> url_Parse P (hq_URL req) = Some u \<and> vapidSubject (ac_subscriber c) = Inr subject
        \<and> carries_token V c header \<lparr>cl_aud = u_Scheme u @ ''://'' @ u_Host u, cl_exp = expiry, cl_sub = subject\<rparr>
        \<and> unix_seconds now + 15 * 60 \<le> expiry \<and> (cache' = cache \<or> expiry = unix_seconds now + 12 * 3600)
        \<and> (\<exists>m \<in> {seen, cache'}. \<forall>now' cache2 w2. unix_seconds now' + 15 * 60 < expiry \<longrightarrow>
             auth_Do P V c base now' req m cache2 w2 =
               (let (res2, w3) = base (req\<lparr>hq_Header := go_put ''Authorization'' header (hq_Header req)\<rparr>) w2
                in (res2, cache2, w3))))"
proof -
  obtain h where h: "client_header P V c now (hq_URL req) seen cache = (h, cache')"
    using assms(4) by (auto simp: auth_Do_header split: prod.splits sum.splits)
  show ?thesis
  proof (cases h)
    case (Inl e)
    have "w' = w" "res = Inl e" using assms(4) h Inl by (auto simp: auth_Do_header)
    then show ?thesis
      using client_header_refused [OF assms(3) h [unfolded Inl]]
      by (auto simp: pushServiceAudience_Inr fits_def unix_seconds_skew)
  next
    case (Inr header)
    let ?req = "req\<lparr>hq_Header := go_put ''Authorization'' header (hq_Header req)\<rparr>"
    have sent: "base ?req w = (res, w')" using assms(4) h Inr by (auto simp: auth_Do_header split: prod.splits)
    obtain audience expiration m where f: "pushServiceAudience P (hq_URL req) = Inr audience" "fits V c audience expiration header"
      "now + vapidAuthRefreshSkew < expiration" "cache' = cache \<or> expiration = now + vapidAuthLifetime" "m \<in> {seen, cache'}"
      "\<And>now' cache2. now' + vapidAuthRefreshSkew < expiration \<Longrightarrow>
          client_header P V c now' (hq_URL req) m cache2 = (Inr header, cache2)"
      using client_header_fresh [OF auth_reach_ok [OF assms(1)] assms(3) h [unfolded Inr]] by blast
    obtain u where u: "url_Parse P (hq_URL req) = Some u" "audience = u_Scheme u @ ''://'' @ u_Host u"
      using f(1) by (auto simp: pushServiceAudience_Inr)
    obtain subject where s: "vapidSubject (ac_subscriber c) = Inr subject"
      "carries_token V c header \<lparr>cl_aud = audience, cl_exp = unix_seconds expiration, cl_sub = subject\<rparr>"
      using f(2) by (auto simp: fits_def)
    have again: "auth_Do P V c base now' req m cache2 w2 = (let (res2, w3) = base ?req w2 in (res2, cache2, w3))"
      if "unix_seconds now' + 15 * 60 < unix_seconds expiration" for now' cache2 w2
      using f(6) [of now' cache2] that unix_seconds_skew(2) [of now' expiration] by (simp add: auth_Do_header)
    have "unix_seconds now + 15 * 60 \<le> unix_seconds expiration"
      using unix_seconds_skew(1) [OF f(3)] by simp
    moreover have "cache' = cache \<or> unix_seconds expiration = unix_seconds now + 12 * 3600"
      using f(4) by (auto simp: unix_seconds_skew(3))
    ultimately show ?thesis
      using sent u s f(5) again
      by (intro disjI2 exI [of _ header] exI [of _ u] exI [of _ "unix_seconds expiration"] exI [of _ subject]) auto
  qed
qed

section \<open>Witness\<close>

definition sample_crypto :: vapid_crypto where
  "sample_crypto = \<lparr>vc_PublicKeyOf = (\<lambda>k. Inr (char_of (4 :: nat) # replicate 64 (CHR ''x''))),
     vc_Sign = (\<lambda>k cl. Inr (cl_aud cl))\<rparr>"

definition sample_url_parsers :: parsers where
  "sample_url_parsers = \<lparr>yaml_Unmarshal = (\<lambda>t. Inl (Sentinel ''yaml'')), ExpandEnv = (\<lambda>c. c),
     url_Parse = (\<lambda>t. Some \<lparr>u_Scheme = ''https'', u_Host = ''push'', u_String = t\<rparr>), mail_ParseAddress = (\<lambda>t. Some t)\<rparr>"

definition sample_auth_client :: authHTTPClient where
  "sample_auth_client = \<lparr>ac_subscriber = ''ops@example.com'', ac_publicKey = raw_encode ''public'', ac_privateKey = raw_encode ''private''\<rparr>"

lemma sample_header:
  "\<exists>header cache'. client_header sample_url_parsers sample_crypto sample_auth_client 1 ''https://push/1'' [] [] = (Inr header, cache')"
proof -
  have "vapidSubject ''ops@example.com'' = Inr ''mailto:ops@example.com''" by code_simp
  then show ?thesis
    by (simp add: client_header_def authorizationHeader_def pushServiceAudience_def sample_url_parsers_def sample_auth_client_def
        cached_header_def buildVAPIDAuthorizationHeader_def Let_def decode_encoded_key vapidPrivateKeyToECDSA_def sample_crypto_def)
qed

theorem auth_header_fresh_witness:
  "\<exists>sent header expiry. snd (snd (auth_Do sample_url_parsers sample_crypto sample_auth_client
        (recording_client (\<lambda>req. Inr \<lparr>hp_StatusCode = 201, hp_Body = []\<rparr>)) 1
        \<lparr>hq_Method = ''POST'', hq_URL = ''https://push/1'', hq_Header = [], hq_Body = []\<rparr> [] [] [])) = [sent]
     \<and> hq_Header sent = [(''Authorization'', header)]
     \<and> carries_token sample_crypto sample_auth_client header
         \<lparr>cl_aud = ''https://push'', cl_exp = expiry, cl_sub = ''mailto:ops@example.com''\<rparr>
     \<and> unix_seconds 1 + 15 * 60 \<le> expiry"
proof -
  let ?req = "\<lparr>hq_Method = ''POST'', hq_URL = ''https://push/1'', hq_Header = [], hq_Body = []\<rparr>"
    and ?base = "recording_client (\<lambda>req. Inr \<lparr>hp_StatusCode = 201, hp_Body = []\<rparr>)"
  obtain h cache' where h: "client_header sample_url_parsers sample_crypto sample_auth_client 1 ''https://push/1'' [] [] = (Inr h, cache')"
    using sample_header by blast
  obtain res cache2 w' where run: "auth_Do sample_url_parsers sample_crypto sample_auth_client ?base 1 ?req [] [] [] = (res, cache2, w')"
    by (metis prod.exhaust)
  have "w' \<noteq> []" using run h by (auto simp: auth_Do_header recording_client_def)
  then obtain header u expiry subject where
    "?base (?req\<lparr>hq_Header := go_put ''Authorization'' header (hq_Header ?req)\<rparr>) [] = (res, w')"
    "url_Parse sample_url_parsers ''https://push/1'' = Some u" "vapidSubject (ac_subscriber sample_auth_client) = Inr subject"
    "carries_token sample_crypto sample_auth_client header
       \<lparr>cl_aud = u_Scheme u @ ''://'' @ u_Host u, cl_exp = expiry, cl_sub = subject\<rparr>"
    "unix_seconds 1 + 15 * 60 \<le> expiry"
    using auth_header_fresh [OF auth_reach.empty auth_reach.empty _ run] by auto
  moreover have "vapidSubject (ac_subscriber sample_auth_client) = Inr ''mailto:ops@example.com''" by code_simp
  ultimately show ?thesis
    using run by (intro exI [of _ "hd w'"] exI [of _ header] exI [of _ expiry])
      (auto simp: sample_url_parsers_def recording_client_def)
qed

end
