(* ===== verification/Wiring.thy ===== *)
theory Wiring
  imports Live Webpush Vapid Pipeline Rmq
begin

text \<open>
  \<open>cmd/csar-notify/main.go\<close>: how the service is put together. The results of the external steps of the
  start-up (configuration, tracer, database, Redis, AMQP, servers) are a record; the trace of a run
  lists what was opened, started, shut down and closed, in order. Deferred calls are the stack
  \<open>bt_open\<close>, run at every return. The HTTP middleware and the servers are third-party code.
\<close>

section \<open>Health, trust, and the dead-letter queue\<close>

record check_status =
  hs_Status :: string
  hs_Detail :: string

definition rabbitmq_check :: "conn_manager \<Rightarrow> check_status" where
  "rabbitmq_check cm =
     (if IsConnected cm then \<lparr>hs_Status = ''ok'', hs_Detail = []\<rparr>
      else \<lparr>hs_Status = ''fail'', hs_Detail = ''not connected''\<rparr>)"

text \<open>The checks of the database and of Redis, by the answer to a ping and the text of its error.\<close>

definition ping_check :: "(goerr \<Rightarrow> string) \<Rightarrow> error \<Rightarrow> check_status" where
  "ping_check error_text ping =
     (case ping of Some e \<Rightarrow> \<lparr>hs_Status = ''fail'', hs_Detail = error_text e\<rparr>
      | None \<Rightarrow> \<lparr>hs_Status = ''ok'', hs_Detail = []\<rparr>)"

text \<open>The check of the buffer, with the quotient as a rational: a double rounds no quotient of
  numbers below \<open>2 ^ 50\<close> across the bound.\<close>

definition buffer_check :: "buffer \<Rightarrow> check_status" where
  "buffer_check buf =
     (let capacity = buffer_Capacity buf in
      if capacity = 0 then \<lparr>hs_Status = ''ok'', hs_Detail = []\<rparr>
      else
        (let depth = buffer_Depth buf in
         if rat_of_int depth / rat_of_int capacity \<ge> 8 / 10 then
           \<lparr>hs_Status = ''degraded'', hs_Detail = ''buffer over 80% full''\<rparr>
         else \<lparr>hs_Status = ''ok'', hs_Detail = []\<rparr>))"

text \<open>The peers' common names: \<open>None\<close> for a request without TLS.\<close>

definition buildTrustFunc :: "config \<Rightarrow> string list option \<Rightarrow> error" where
  "buildTrustFunc cfg peers =
     (let cnm = c_AllowedClientCN cfg in
      if cnm = [] then None
      else (case peers of
              None \<Rightarrow> Some (Errorf ''client certificate required'' [])
            | Some [] \<Rightarrow> Some (Errorf ''client certificate required'' [])
            | Some (peer # _) \<Rightarrow>
                if peer \<noteq> cnm then Some (Errorf ''client CN %q not authorized'' [AStr peer]) else None))"

definition declareDLQ :: "'w amqp \<Rightarrow> string \<Rightarrow> bool \<Rightarrow> 'w \<Rightarrow> error \<times> 'w" where
  "declareDLQ Q dlq durable w =
     (case aq_Channel Q w of
        (Inl e, w1) \<Rightarrow> (Some e, w1)
      | (Inr ch, w1) \<Rightarrow>
          (case aq_QueueDeclare Q ch dlq durable [] w1 of
             (Some e, w2) \<Rightarrow> with_close Q ch (Some (Wrapf ''declare dlq: %w'' [] e)) w2
           | (None, w2) \<Rightarrow> with_close Q ch None w2))"

definition ToTLSx :: "tls_section \<Rightarrow> string \<times> string \<times> string \<times> string" where
  "ToTLSx t = (tls_CertFile t, tls_KeyFile t, tls_ClientCAFile t, tls_MinVersion t)"

definition http_tls :: "config \<Rightarrow> (string \<times> string \<times> string \<times> string) option" where
  "http_tls cfg =
     (if tls_CertFile (c_TLS cfg) \<noteq> [] \<or> tls_KeyFile (c_TLS cfg) \<noteq> [] then Some (ToTLSx (c_TLS cfg)) else None)"

text \<open>What the configuration makes of the tracer's endpoint, the AMQP connection and the buffer.\<close>

definition tracer_endpoint :: "string \<Rightarrow> config \<Rightarrow> string" where
  "tracer_endpoint otlpEndpoint cfg = (if otlpEndpoint = [] then c_TracingEndpoint cfg else otlpEndpoint)"

definition service_connection :: "config \<Rightarrow> conn_manager" where
  "service_connection cfg = NewConnectionManager (rq_ReconnectDelay (c_RabbitMQ cfg))"

definition service_buffer :: "config \<Rightarrow> buffer" where
  "service_buffer cfg = NewBuffer (ig_BufferSize (c_Ingest cfg)) (ig_PublisherWorkers (c_Ingest cfg))"

text \<open>The two servers as the configuration sets them up; the write timeout is off for the event streams.\<close>

record http_server_config =
  hc_Addr :: string
  hc_TLS :: "(string \<times> string \<times> string \<times> string) option"
  hc_ReadTimeout :: int
  hc_WriteTimeout :: int

definition http_server :: "config \<Rightarrow> http_server_config" where
  "http_server cfg = \<lparr>hc_Addr = HTTPAddr cfg, hc_TLS = http_tls cfg, hc_ReadTimeout = 30 * second, hc_WriteTimeout = 0\<rparr>"

text \<open>The middleware around the mux, outermost first; the last one asks \<open>buildTrustFunc\<close>.\<close>

datatype middleware = RequestID | AccessLog | Recover | MaxBodySize int | TrustedMiddleware "string list option \<Rightarrow> error"

definition http_stack :: "config \<Rightarrow> middleware list" where
  "http_stack cfg = [RequestID, AccessLog, Recover, MaxBodySize (2 ^ 20), TrustedMiddleware (buildTrustFunc cfg)]"

text \<open>The registered readiness checks, in order.\<close>

definition readiness :: "(goerr \<Rightarrow> string) \<Rightarrow> conn_manager \<Rightarrow> error \<Rightarrow> error \<Rightarrow> buffer \<Rightarrow> (string \<times> check_status) list" where
  "readiness error_text cm postgres redis buf =
     [(''rabbitmq'', rabbitmq_check cm), (''postgres'', ping_check error_text postgres),
      (''redis'', ping_check error_text redis), (''notify_buffer'', buffer_check buf)]"

text \<open>The health sidecar: its address and the checks it serves.\<close>

record health_sidecar_config =
  he_Addr :: string
  he_Readiness :: "(string \<times> check_status) list"

definition health_sidecar ::
  "config \<Rightarrow> (goerr \<Rightarrow> string) \<Rightarrow> conn_manager \<Rightarrow> error \<Rightarrow> error \<Rightarrow> buffer \<Rightarrow> health_sidecar_config" where
  "health_sidecar cfg error_text cm postgres redis buf =
     \<lparr>he_Addr = HealthAddr cfg, he_Readiness = readiness error_text cm postgres redis buf\<rparr>"

section \<open>The providers\<close>

record 'w deps =
  wd_writer :: "'w deliveryWriter"
  wd_redis :: "'w redis_client"
  wd_http :: "'w http_client"
  wd_subscriptions :: "'w subscriptionStore"
  wd_push :: "authHTTPClient \<Rightarrow> 'w push_library"
  wd_time :: time_text
  wd_url_error :: "string \<Rightarrow> error"

text \<open>\<open>webpush.New\<close>: the library sends through the authorising client of the configured keys.\<close>

definition webpush_New :: "'w deps \<Rightarrow> web_push_config \<Rightarrow> 'w webpush" where
  "webpush_New D cfg = \<lparr>wb_store = wd_subscriptions D, wb_cfg = cfg,
     wb_push = wd_push D (newAuthHTTPClient (wp_Subscriber cfg) (wp_VAPIDPublicKey cfg) (wp_VAPIDPrivateKey cfg))\<rparr>"

definition buildProviders :: "'w deps \<Rightarrow> config \<Rightarrow> goerr + 'w registry" where
  "buildProviders D cfg =
     (let pc = c_Providers cfg in
      case (if sc_Enabled (pc_Site pc) then
              (case site_New (wd_writer D) (Some (wd_redis D)) (pc_Site pc) (rd_Prefix (c_Redis cfg)) of
                 Inl e \<Rightarrow> Inl (Wrapf ''site provider: %w'' [] e)
               | Inr prov \<Rightarrow> Inr [Some (site_provider (wd_time D) prov)])
            else Inr []) of
        Inl e \<Rightarrow> Inl e
      | Inr items1 \<Rightarrow>
          (case (if tc_Enabled (pc_Telegram pc) then
                   (case telegram_New (wd_http D) (pc_Telegram pc) of
                      Inl e \<Rightarrow> Inl (Wrapf ''telegram provider: %w'' [] e)
                    | Inr prov \<Rightarrow> Inr [Some (telegram_provider (wd_url_error D) prov)])
                 else Inr []) of
             Inl e \<Rightarrow> Inl e
           | Inr items2 \<Rightarrow>
               Inr (NewRegistry (items1 @ items2
                 @ (if wp_Enabled (pc_WebPush pc) then [Some (webpush_provider (webpush_New D (pc_WebPush pc)))] else [])))))"

section \<open>The routes\<close>

text \<open>
  The patterns registered on the \<open>http.ServeMux\<close>: a method and the segments of a path, \<open>None\<close> the
  wildcard \<open>{id}\<close>. A request is matched by its method (\<open>GET\<close> patterns also take \<open>HEAD\<close>) and the decoded
  segments of its cleaned path.
\<close>

datatype endpoint =
    IngestPost | InboxGet | CountGet | ReadPatch | DismissPatch | PreferencesGet | PreferencesPut
  | VapidKeyGet | SubscriptionsPost | SubscriptionsDelete | StreamGet

type_synonym route = "string \<times> string option list \<times> endpoint"

definition route_at :: "string \<Rightarrow> string option list \<Rightarrow> endpoint \<Rightarrow> route" where
  "route_at verb path e = (verb, Some ''notifications'' # path, e)"

definition inbox_Register :: "route list" where
  "inbox_Register = [route_at ''GET'' [] InboxGet, route_at ''GET'' [Some ''count''] CountGet,
     route_at ''PATCH'' [None, Some ''read''] ReadPatch, route_at ''PATCH'' [None, Some ''dismiss''] DismissPatch]"

definition preferences_Register :: "route list" where
  "preferences_Register = [route_at ''GET'' [Some ''preferences''] PreferencesGet, route_at ''PUT'' [Some ''preferences''] PreferencesPut]"

definition vapid_Register :: "route list" where
  "vapid_Register = [route_at ''GET'' [Some ''vapid-public-key''] VapidKeyGet]"

definition push_Register :: "route list" where
  "push_Register = [route_at ''POST'' [Some ''push'', Some ''subscriptions''] SubscriptionsPost,
     route_at ''DELETE'' [Some ''push'', Some ''subscriptions''] SubscriptionsDelete]"

definition service_mux :: "route list" where
  "service_mux = [(''POST'', [Some ''ingest''], IngestPost)] @ inbox_Register @ preferences_Register @ vapid_Register
     @ push_Register @ [route_at ''GET'' [Some ''stream''] StreamGet]"

fun segments_match :: "string option list \<Rightarrow> string list \<Rightarrow> bool" where
  "segments_match [] [] \<longleftrightarrow> True"
| "segments_match (None # ps) (s # ss) \<longleftrightarrow> segments_match ps ss"
| "segments_match (Some p # ps) (s # ss) \<longleftrightarrow> p = s \<and> segments_match ps ss"
| "segments_match _ _ \<longleftrightarrow> False"

definition matching :: "string \<Rightarrow> string list \<Rightarrow> route list" where
  "matching verb path = filter (\<lambda>(v, ps, e). (v = verb \<or> v = ''GET'' \<and> verb = ''HEAD'') \<and> segments_match ps path) service_mux"

section \<open>A run of the service\<close>

datatype resource = Tracer | Pool | RedisClient | Amqp | Buf | AppContext | Providers

datatype life = Opened resource | Closed resource | ConsumerStarted | Serving | AppCancelled | HttpShutdown | HealthShutdown

record boot =
  bt_trace :: "life list"
  bt_open :: "resource list"

definition opened :: "resource \<Rightarrow> boot \<Rightarrow> boot" where
  "opened r b = \<lparr>bt_trace = bt_trace b @ [Opened r], bt_open = r # bt_open b\<rparr>"

definition noted :: "life \<Rightarrow> boot \<Rightarrow> boot" where
  "noted l b = b\<lparr>bt_trace := bt_trace b @ [l]\<rparr>"

definition returns :: "error \<Rightarrow> boot \<Rightarrow> error \<times> life list" where
  "returns err b = (err, bt_trace b @ map Closed (bt_open b))"

definition attempt :: "error \<Rightarrow> string \<Rightarrow> (boot \<Rightarrow> error \<times> life list) \<Rightarrow> boot \<Rightarrow> error \<times> life list" where
  "attempt res fmt k b = (case res of Some e \<Rightarrow> returns (Some (Wrapf fmt [] e)) b | None \<Rightarrow> k b)"

record startup =
  su_config :: "goerr + config"
  su_tracer :: error
  su_postgres :: error
  su_migrate :: error
  su_redis_url :: error
  su_redis_ping :: error
  su_amqp :: error
  su_dlq :: error
  su_subscribed :: error
  su_http :: error
  su_health :: error

definition error_of :: "goerr + 'a \<Rightarrow> error" where
  "error_of r = (case r of Inl e \<Rightarrow> Some e | Inr _ \<Rightarrow> None)"

definition site_targets_of :: "config \<Rightarrow> goerr + site_target go_map \<times> string" where
  "site_targets_of cfg = EffectiveTargets (pc_Site (c_Providers cfg)) (rd_Prefix (c_Redis cfg))"

definition service_hub :: "config \<Rightarrow> hub" where
  "service_hub cfg = (case site_targets_of cfg of Inl _ \<Rightarrow> hub_of [] [] | Inr (ts, d) \<Rightarrow> hub_of ts d)"

text \<open>From the signal on: the context is cancelled, the two servers are shut down (their errors are only logged).\<close>

definition shut_down :: "boot \<Rightarrow> error \<times> life list" where
  "shut_down b = returns None (noted HealthShutdown (noted HttpShutdown (noted AppCancelled b)))"

text \<open>
  From the dispatcher on: the consumer is started, the two servers are built, and the service runs until
  the signal. A failure to build a server returns while the consumer is running.
\<close>

definition run_serving :: "startup \<Rightarrow> boot \<Rightarrow> error \<times> life list" where
  "run_serving S b =
     attempt (su_http S) ''http server: %w'' (\<lambda>b.
     attempt (su_health S) ''health sidecar: %w'' (\<lambda>b.
       shut_down (noted Serving b)) b) (noted ConsumerStarted b)"

definition run_with :: "'w deps \<Rightarrow> startup \<Rightarrow> config \<Rightarrow> boot \<Rightarrow> error \<times> life list" where
  "run_with D S cfg =
     attempt (su_tracer S) ''init tracer: %w'' (\<lambda>b.
     attempt (su_postgres S) ''postgres: %w'' (\<lambda>b.
     attempt (su_migrate S) ''migrate: %w'' (\<lambda>b.
     attempt (su_redis_url S) ''parse redis url: %w'' (\<lambda>b.
     attempt (su_redis_ping S) ''redis ping: %w'' (\<lambda>b.
     attempt (su_amqp S) ''rabbitmq connect: %w'' (\<lambda>b.
     attempt (su_dlq S) ''declare rabbitmq dlq: %w'' (\<lambda>b.
     attempt (error_of (site_targets_of cfg)) ''resolve site provider targets: %w'' (\<lambda>b.
     attempt (fst (hub_Start (su_subscribed S) (service_hub cfg))) ''start sse hub: %w'' (\<lambda>b.
     attempt (error_of (buildProviders D cfg)) ''build providers: %w'' (\<lambda>b.
       run_serving S (opened Providers b)) b)
       (opened AppContext b))
       (opened Buf b))
       (opened Amqp b)) b)
       (opened RedisClient b)) b)
       (opened Pool b))
       (opened Tracer b))"

definition run_service :: "'w deps \<Rightarrow> startup \<Rightarrow> error \<times> life list" where
  "run_service D S =
     (case su_config S of
        Inl e \<Rightarrow> (Some (Wrapf ''load config: %w'' [] e), [])
      | Inr cfg \<Rightarrow> run_with D S cfg \<lparr>bt_trace = [], bt_open = []\<rparr>)"

text \<open>\<open>main\<close>: the status the process exits with.\<close>

definition main_exit :: "'w deps \<Rightarrow> startup \<Rightarrow> int" where
  "main_exit D S = (if fst (run_service D S) \<noteq> None then 1 else 0)"

end
