(* ===== verification/WiringProps.thy ===== *)
theory WiringProps
  imports Wiring
begin

text \<open>
  The start-up of \<open>cmd/csar-notify/main.go\<close>: every return of \<open>run\<close> releases what was opened, in reverse
  order; a validated configuration starts once the outside world answers, with the exception of a
  disabled site provider whose targets do not resolve; the registry holds the enabled providers.
\<close>

section \<open>Releasing what was opened\<close>

definition openings :: "life list \<Rightarrow> resource list" where
  "openings tr = List.map_filter (\<lambda>l. case l of Opened r \<Rightarrow> Some r | _ \<Rightarrow> None) tr"

definition closings :: "life list \<Rightarrow> resource list" where
  "closings tr = List.map_filter (\<lambda>l. case l of Closed r \<Rightarrow> Some r | _ \<Rightarrow> None) tr"

definition boot_order :: "resource list" where
  "boot_order = [Tracer, Pool, RedisClient, Amqp, Buf, AppContext, Providers]"

definition complete_run :: "life list" where
  "complete_run = map Opened boot_order @ [ConsumerStarted, Serving, AppCancelled, HttpShutdown, HealthShutdown]
     @ map Closed (rev boot_order)"

lemma trace_simps [simp]:
  "openings [] = []" "openings (tr @ tr') = openings tr @ openings tr'" "openings [Opened r] = [r]"
  "closings [] = []" "closings (tr @ tr') = closings tr @ closings tr'" "closings [Opened r] = []"
  "openings (map Closed rs) = []" "closings (map Closed rs) = rs"
  by (induction rs) (simp_all add: openings_def closings_def map_filter_append map_filter_simps)

text \<open>
  What holds between the steps (\<open>clean\<close>) and of a finished run (\<open>released\<close>), with one rule for each
  way the run goes on.
\<close>

definition clean :: "boot \<Rightarrow> bool" where
  "clean b \<longleftrightarrow> openings (bt_trace b) = rev (bt_open b) \<and> closings (bt_trace b) = [] \<and> prefix (rev (bt_open b)) boot_order
     \<and> Serving \<notin> set (bt_trace b)"

definition released :: "error \<times> life list \<Rightarrow> bool" where
  "released res \<longleftrightarrow> closings (snd res) = rev (openings (snd res)) \<and> prefix (openings (snd res)) boot_order
     \<and> (if fst res = None then snd res = complete_run else Serving \<notin> set (snd res))"

lemma released_failure: "clean b \<Longrightarrow> released (returns (Some e) b)"
  by (auto simp: clean_def released_def returns_def)

lemma released_attempt [intro]:
  "clean b \<Longrightarrow> (res = None \<Longrightarrow> released (k b)) \<Longrightarrow> released (attempt res f k b)"
  by (auto simp: attempt_def released_failure split: option.split)

lemma clean_opened: "clean b \<Longrightarrow> prefix (rev (bt_open b) @ [r]) boot_order \<Longrightarrow> clean (opened r b)"
  by (auto simp: clean_def opened_def)

lemma clean_started: "clean b \<Longrightarrow> clean (noted ConsumerStarted b)"
  by (simp add: clean_def noted_def openings_def closings_def map_filter_append map_filter_simps)

lemma clean_start: "clean \<lparr>bt_trace = [], bt_open = []\<rparr>"
  by (simp add: clean_def)

lemma released_run: "released (run_service D S)"
proof (cases "su_config S")
  case (Inl e)
  then show ?thesis by (simp add: run_service_def released_def)
next
  case (Inr cfg)
  have "released (run_with D S cfg \<lparr>bt_trace = [], bt_open = []\<rparr>)"
    unfolding run_with_def run_serving_def
    by (intro released_attempt clean_opened clean_started clean_start)
       (simp_all add: boot_order_def opened_def noted_def shut_down_def returns_def released_def complete_run_def
          trace_simps(2) openings_def closings_def map_filter_append map_filter_simps)
  then show ?thesis by (simp add: run_service_def Inr)
qed

text \<open>
  C20: a run of the service. Whatever fails, everything opened by then is closed exactly once, in the
  reverse order, and only an initial part of the start-up order was opened. A run without an error is
  the complete one: the HTTP server is shut down before the buffer is closed, the
  buffer before the AMQP connection its workers publish on. One with an error never served,
  and the process exits with status 1.
\<close>

theorem run_releases_all:
  "closings (snd (run_service D S)) = rev (openings (snd (run_service D S)))
   \<and> prefix (openings (snd (run_service D S))) boot_order
   \<and> (if fst (run_service D S) = None then snd (run_service D S) = complete_run
      else Serving \<notin> set (snd (run_service D S)))
   \<and> main_exit D S = (if snd (run_service D S) = complete_run then 0 else 1)"
proof -
  have "Serving \<in> set complete_run" by (simp add: complete_run_def)
  then show ?thesis
    using released_run [of D S] unfolding released_def main_exit_def by (cases "fst (run_service D S) = None") auto
qed

section \<open>The providers of a configuration\<close>

definition enabled_providers :: "config \<Rightarrow> Channel set" where
  "enabled_providers cfg =
     (if sc_Enabled (pc_Site (c_Providers cfg)) then {ChannelSite} else {})
     \<union> (if tc_Enabled (pc_Telegram (c_Providers cfg)) then {ChannelTelegram} else {})
     \<union> (if wp_Enabled (pc_WebPush (c_Providers cfg)) then {ChannelWebPush} else {})"

lemma channels_differ [simp]:
  "ChannelSite \<noteq> ChannelTelegram" "ChannelSite \<noteq> ChannelWebPush" "ChannelTelegram \<noteq> ChannelWebPush"
  "ChannelTelegram \<noteq> ChannelSite" "ChannelWebPush \<noteq> ChannelSite" "ChannelWebPush \<noteq> ChannelTelegram"
  by (simp_all add: ChannelSite_def ChannelTelegram_def ChannelWebPush_def)

lemma provider_channels [simp]:
  "pv_Channel (site_provider T p) = ChannelSite" "pv_Channel (telegram_provider u t) = ChannelTelegram"
  "pv_Channel (webpush_provider q) = ChannelWebPush"
  by (simp_all add: site_provider_def telegram_provider_def webpush_provider_def)

lemma buildProviders_cases:
  assumes "buildProviders D cfg = Inr reg"
  obtains sp tp where
    "sc_Enabled (pc_Site (c_Providers cfg)) \<Longrightarrow>
       site_New (wd_writer D) (Some (wd_redis D)) (pc_Site (c_Providers cfg)) (rd_Prefix (c_Redis cfg)) = Inr sp"
    "tc_Enabled (pc_Telegram (c_Providers cfg)) \<Longrightarrow> telegram_New (wd_http D) (pc_Telegram (c_Providers cfg)) = Inr tp"
    "registry_Get (Some reg) c =
       (if c = ChannelSite \<and> sc_Enabled (pc_Site (c_Providers cfg)) then Some (site_provider (wd_time D) sp)
        else if c = ChannelTelegram \<and> tc_Enabled (pc_Telegram (c_Providers cfg)) then Some (telegram_provider (wd_url_error D) tp)
        else if c = ChannelWebPush \<and> wp_Enabled (pc_WebPush (c_Providers cfg))
          then Some (webpush_provider (webpush_New D (pc_WebPush (c_Providers cfg)))) else None)"
proof -
  have "\<exists>sp tp. (sc_Enabled (pc_Site (c_Providers cfg)) \<longrightarrow>
       site_New (wd_writer D) (Some (wd_redis D)) (pc_Site (c_Providers cfg)) (rd_Prefix (c_Redis cfg)) = Inr sp)
    \<and> (tc_Enabled (pc_Telegram (c_Providers cfg)) \<longrightarrow> telegram_New (wd_http D) (pc_Telegram (c_Providers cfg)) = Inr tp)
    \<and> registry_Get (Some reg) c =
       (if c = ChannelSite \<and> sc_Enabled (pc_Site (c_Providers cfg)) then Some (site_provider (wd_time D) sp)
        else if c = ChannelTelegram \<and> tc_Enabled (pc_Telegram (c_Providers cfg)) then Some (telegram_provider (wd_url_error D) tp)
        else if c = ChannelWebPush \<and> wp_Enabled (pc_WebPush (c_Providers cfg))
          then Some (webpush_provider (webpush_New D (pc_WebPush (c_Providers cfg)))) else None)"
    using assms
    by (auto simp: buildProviders_def Let_def registry_Get_def NewRegistry_def split: sum.splits if_splits)
  then show thesis using that by blast
qed

text \<open>The constructors accept what the validation accepted.\<close>

lemma buildProviders_loaded:
  assumes "config_ok P cfg"
  shows "\<exists>reg. buildProviders D cfg = Inr reg"
proof -
  have "\<exists>sp. sc_Enabled (pc_Site (c_Providers cfg)) \<longrightarrow>
      site_New (wd_writer D) (Some (wd_redis D)) (pc_Site (c_Providers cfg)) (rd_Prefix (c_Redis cfg)) = Inr sp"
    using assms by (auto simp: config_ok_def site_New_def split: prod.split)
  moreover have "\<exists>tp. tc_Enabled (pc_Telegram (c_Providers cfg)) \<longrightarrow>
      telegram_New (wd_http D) (pc_Telegram (c_Providers cfg)) = Inr tp"
    using assms by (auto simp: config_ok_def telegram_New_def split: prod.split)
  ultimately show ?thesis by (auto simp: buildProviders_def Let_def)
qed

text \<open>
  For every configuration that was loaded, the providers are built, and the registry has a
  provider for a channel exactly when the channel is enabled: that channel's own one, and none for e-mail.
\<close>

theorem providers_match_config:
  assumes "LoadFromBytes P data = Inr cfg"
  shows "\<exists>reg. buildProviders D cfg = Inr reg
     \<and> (\<forall>c. registry_Get (Some reg) c \<noteq> None \<longleftrightarrow> c \<in> enabled_providers cfg)
     \<and> (\<forall>c p. registry_Get (Some reg) c = Some p \<longrightarrow> pv_Channel p = c)"
proof -
  obtain reg where reg: "buildProviders D cfg = Inr reg"
    using buildProviders_loaded [OF LoadFromBytes_ok [OF assms]] by blast
  have "(registry_Get (Some reg) c \<noteq> None \<longleftrightarrow> c \<in> enabled_providers cfg)
      \<and> (\<forall>p. registry_Get (Some reg) c = Some p \<longrightarrow> pv_Channel p = c)" for c
    by (rule buildProviders_cases [OF reg, of c]) (auto simp: enabled_providers_def)
  with reg show ?thesis by blast
qed

section \<open>When the service starts\<close>

definition all_up :: "goerr + config \<Rightarrow> startup" where
  "all_up c = \<lparr>su_config = c, su_tracer = None, su_postgres = None, su_migrate = None, su_redis_url = None,
     su_redis_ping = None, su_amqp = None, su_dlq = None, su_subscribed = None, su_http = None, su_health = None\<rparr>"

lemma attempt_None [simp]: "attempt None f k b = k b"
  by (simp add: attempt_def)

lemma hub_Start_None [simp]: "fst (hub_Start None h) = None"
  by (simp add: hub_Start_def)

lemma run_all_up:
  assumes "config_ok P cfg"
  shows "fst (run_service D (all_up (Inr cfg)))
     = map_option (Wrapf ''resolve site provider targets: %w'' []) (error_of (site_targets_of cfg))"
proof (cases "site_targets_of cfg")
  case (Inl e)
  then show ?thesis by (simp add: run_service_def run_with_def run_serving_def all_up_def error_of_def attempt_def returns_def)
next
  case (Inr r)
  obtain reg where "buildProviders D cfg = Inr reg" using buildProviders_loaded [OF assms] by blast
  with Inr show ?thesis
    by (simp add: run_service_def run_with_def run_serving_def all_up_def error_of_def shut_down_def returns_def)
qed

text \<open>
  C21: when every external step succeeds (the database, Redis and the broker answer, the Redis URL
  parses, the servers are built), a loaded configuration starts and the service runs until it is told to stop, unless the targets of the site provider do not resolve; a configuration with the
  site provider enabled always starts.
\<close>

theorem loaded_config_starts:
  assumes "LoadFromBytes P data = Inr cfg"
  shows "fst (run_service D (all_up (Inr cfg)))
       = map_option (Wrapf ''resolve site provider targets: %w'' []) (error_of (site_targets_of cfg))
     \<and> (sc_Enabled (pc_Site (c_Providers cfg)) \<longrightarrow> fst (run_service D (all_up (Inr cfg))) = None)"
proof -
  have ok: "config_ok P cfg" by (rule LoadFromBytes_ok [OF assms])
  have "sc_Enabled (pc_Site (c_Providers cfg)) \<Longrightarrow> error_of (site_targets_of cfg) = None"
    using ok by (auto simp: config_ok_def error_of_def site_targets_of_def)
  with run_all_up [OF ok, of D] show ?thesis by simp
qed

text \<open>A configuration that does not use the site provider but names two targets.\<close>

definition unused_site_config :: config where
  "unused_site_config = sample_config\<lparr>c_Providers := (c_Providers sample_config)\<lparr>pc_Site :=
     \<lparr>sc_Enabled = False, sc_DefaultTarget = [], sc_Targets = [(''a'', \<lparr>RedisPrefix = []\<rparr>), (''b'', \<lparr>RedisPrefix = []\<rparr>)]\<rparr>\<rparr>\<rparr>"

lemma load_unused_site:
  "LoadFromBytes (sample_parsers unused_site_config) ''yaml'' = Inr (defaults unused_site_config)"
  by code_simp

lemma targets_unused_site:
  "site_targets_of (defaults unused_site_config)
     = Inl (Errorf ''providers.site.default_target is required when multiple site targets are configured'' [])"
  by code_simp

text \<open>
  The validation does not look at the targets of a disabled site provider, the start-up resolves them
  all the same: a configuration that is accepted stops the service.
\<close>

theorem disabled_site_blocks_start:
  "LoadFromBytes (sample_parsers unused_site_config) ''yaml'' = Inr (defaults unused_site_config)
   \<and> \<not> sc_Enabled (pc_Site (c_Providers (defaults unused_site_config)))
   \<and> fst (run_service D (all_up (LoadFromBytes (sample_parsers unused_site_config) ''yaml'')))
       = Some (Wrapf ''resolve site provider targets: %w'' []
           (Errorf ''providers.site.default_target is required when multiple site targets are configured'' []))"
proof -
  have "\<not> sc_Enabled (pc_Site (c_Providers (defaults unused_site_config)))" by code_simp
  with run_all_up [OF LoadFromBytes_ok [OF load_unused_site], of D] show ?thesis
    by (simp add: load_unused_site targets_unused_site error_of_def)
qed

lemma loaded_sample_starts: "error_of (site_targets_of (defaults sample_config)) = None"
  by code_simp

theorem loaded_config_starts_witness:
  "\<forall>D :: unit deps. fst (run_service D (all_up (Inr (defaults sample_config)))) = None"
proof
  fix D :: "unit deps"
  from loaded_config_starts [OF sample_load, of D]
  show "fst (run_service D (all_up (Inr (defaults sample_config)))) = None" by (simp add: loaded_sample_starts)
qed

theorem providers_match_config_witness:
  "\<forall>D :: unit deps. \<exists>reg. buildProviders D (defaults sample_config) = Inr reg \<and> registry_Get (Some reg) ChannelEmail = None"
proof
  fix D :: "unit deps"
  have "ChannelEmail \<notin> enabled_providers (defaults sample_config)"
    by (simp add: enabled_providers_def ChannelEmail_def ChannelSite_def ChannelTelegram_def ChannelWebPush_def)
  with providers_match_config [OF sample_load, of D]
  show "\<exists>reg. buildProviders D (defaults sample_config) = Inr reg \<and> registry_Get (Some reg) ChannelEmail = None" by blast
qed

section \<open>The checks of the health server\<close>

text \<open>
  The check of the buffer reports \<open>degraded\<close> exactly when at least four fifths of the capacity are
  in use. The buffer of the service has the configured capacity and number of workers, each at least
  one: never the zero that the check excludes.
\<close>

theorem buffer_health_threshold:
  "hs_Status (buffer_check buf)
     = (if 0 < bf_capacity buf \<and> 4 * bf_capacity buf \<le> 5 * length (bf_ch buf) then ''degraded'' else ''ok'')
   \<and> buffer_Capacity (service_buffer cfg) = max 1 (ig_BufferSize (c_Ingest cfg))
   \<and> int (length (bf_workers (service_buffer cfg))) = max 1 (ig_PublisherWorkers (c_Ingest cfg))"
proof -
  have cap: "bf_capacity buf \<noteq> 0 \<Longrightarrow>
      (rat_of_int (buffer_Depth buf) / rat_of_int (buffer_Capacity buf) \<ge> 8 / 10
         \<longleftrightarrow> 4 * bf_capacity buf \<le> 5 * length (bf_ch buf))"
    by (simp add: buffer_Depth_def buffer_Capacity_def field_simps)
       (metis (mono_tags, lifting) of_nat_le_iff of_nat_mult of_nat_numeral)
  show ?thesis
    using cap by (auto simp: buffer_check_def Let_def buffer_Capacity_def service_buffer_def NewBuffer_def)
qed

section \<open>The routes\<close>

text \<open>
  No request matches two of the registered patterns, so that none of the registrations panics and none
  hides another; a pattern with the id of a notification takes any id.
\<close>

theorem routes_unambiguous:
  "length (matching verb path) \<le> 1
   \<and> map (\<lambda>(v, ps, e). e) (matching ''PATCH'' [''notifications'', i, ''read'']) = [ReadPatch]
   \<and> map (\<lambda>(v, ps, e). e) (matching ''PATCH'' [''notifications'', i, ''dismiss'']) = [DismissPatch]"
proof -
  have "length (matching verb path) \<le> 1"
    by (cases path; cases "tl path"; cases "tl (tl path)"; cases "tl (tl (tl path))")
       (auto simp: matching_def service_mux_def inbox_Register_def preferences_Register_def vapid_Register_def
          push_Register_def route_at_def)
  then show ?thesis
    by (simp add: matching_def service_mux_def inbox_Register_def preferences_Register_def vapid_Register_def
        push_Register_def route_at_def)
qed

end
