(* ===== verification/StoreTrace.thy ===== *)
theory StoreTrace
  imports StoreQueries
begin

text \<open>
  What becomes of an inbox item over time: along any sequence of store operations, in whatever order the
  parts of the service issue them and whichever fail, an item stays, keeps its times, and changes
  its flags only by its owner's own requests. Dispatchers and handlers run concurrently but
  reach the database by these operations only, so the sequences cover their interleavings.
\<close>

section \<open>Reaching a state by operations of some kind\<close>

definition does :: "pg_server \<Rightarrow> (pg_op \<Rightarrow> bool) \<Rightarrow> pg \<Rightarrow> pg \<Rightarrow> bool" where
  "does X P s t \<longleftrightarrow> (\<exists>ops. pg_steps X s ops t \<and> list_all P ops)"

lemma does_refl: "does X P s s"
  unfolding does_def by (intro exI [of _ "[]"]) (simp add: none)

lemma does_trans [trans]: "does X P s s1 \<Longrightarrow> does X P s1 s2 \<Longrightarrow> does X P s s2"
  unfolding does_def using pg_steps_append by (metis list_all_append)

lemma does_mono: "does X P s t \<Longrightarrow> (\<And>op. P op \<Longrightarrow> Q op) \<Longrightarrow> does X Q s t"
  unfolding does_def by (metis list.pred_mono_strong)

lemma does_op: "t = pg_effect X op s \<Longrightarrow> op_enabled op s \<Longrightarrow> P op \<Longrightarrow> does X P s t"
  unfolding does_def using pg_steps_one [of op s X] by (intro exI [of _ "[op]"]) simp

section \<open>One operation\<close>

text \<open>Which operations ask to change the flags of an item: by its owner, under its id.\<close>

definition reads_item :: "pg_server \<Rightarrow> string \<Rightarrow> string \<Rightarrow> pg_op \<Rightarrow> bool" where
  "reads_item X u n op = (case op of ReadItem r i \<Rightarrow> uuid_cast X r = Some u \<and> uuid_cast X i = Some n | _ \<Rightarrow> False)"

definition dismisses_item :: "pg_server \<Rightarrow> string \<Rightarrow> string \<Rightarrow> pg_op \<Rightarrow> bool" where
  "dismisses_item X u n op = (case op of DismissItem r i \<Rightarrow> uuid_cast X r = Some u \<and> uuid_cast X i = Some n | _ \<Rightarrow> False)"

text \<open>What a step leaves of an item.\<close>

definition aged :: "bool \<Rightarrow> bool \<Rightarrow> delivery_row \<Rightarrow> delivery_row \<Rightarrow> bool" where
  "aged may_read may_dismiss d d' \<longleftrightarrow> delivery_key d' = delivery_key d \<and> dr_created_at d' = dr_created_at d
     \<and> (dr_read d \<longrightarrow> dr_read d' \<and> (dr_read_at d \<noteq> None \<longrightarrow> dr_read_at d' = dr_read_at d)) \<and> (dr_read d' \<longrightarrow> dr_read d \<or> may_read)
     \<and> (dr_dismissed d \<longrightarrow> dr_dismissed d') \<and> (dr_dismissed d' \<longrightarrow> dr_dismissed d \<or> may_dismiss)"

lemma aged_refl: "aged p q d d"
  by (simp add: aged_def)

lemma aged_trans: "aged p q d d1 \<Longrightarrow> aged p' q' d1 d2 \<Longrightarrow> aged (p \<or> p') (q \<or> q') d d2"
  by (auto simp: aged_def)

lemma find_delivery_run:
  assumes "\<And>s. find_delivery n u s = Some d \<Longrightarrow> find_delivery n u (snd (stmt s)) = Some d" and "find_delivery n u s = Some d"
  shows "find_delivery n u (snd (pg_run stmt s)) = Some d"
  by (rule pg_run_keeps [where I = "\<lambda>s. find_delivery n u s = Some d"]) (use assms in simp_all)

lemma find_delivery_statements:
  "find_delivery n u (snd (sql_upsert_notification X m s)) = find_delivery n u s"
  "find_delivery n u (snd (sql_upsert_preference X v ch en cfg ts s)) = find_delivery n u s"
  "find_delivery n u (snd (sql_upsert_push X v ep p a ua s)) = find_delivery n u s"
  "find_delivery n u (snd (sql_delete_push X v ep s)) = find_delivery n u s"
  by (simp_all add: sql_upsert_notification_def sql_upsert_preference_def sql_upsert_push_def sql_delete_push_def
      find_delivery_def split: option.split)

lemma find_delivery_insert:
  "find_delivery n u s = Some d \<Longrightarrow> find_delivery n u (snd (sql_insert_delivery X i r s)) = Some d"
  by (auto simp: sql_insert_delivery_def insert_delivery_rows find_delivery_def find_append split: option.splits)

lemma find_delivery_scripts:
  "find_delivery n u (s\<lparr>pg_now := now\<rparr>) = find_delivery n u s"
  "find_delivery n u (s\<lparr>topic_subscriptions := ts\<rparr>) = find_delivery n u s"
  by (simp_all add: find_delivery_def)

lemma same_after_op:
  assumes "find_delivery n u s = Some d" and "\<And>r i. op \<noteq> ReadItem r i" and "\<And>r i. op \<noteq> DismissItem r i"
  shows "find_delivery n u (pg_effect X op s) = Some d"
  using assms
  by (cases op) (auto intro!: find_delivery_run find_delivery_insert simp: find_delivery_statements find_delivery_scripts split: option.split)

text \<open>An operation that does not ask to change the flags of an item leaves it as it is.\<close>

lemma untouched_op:
  assumes "find_delivery n u s = Some d" and "\<not> reads_item X u n op" and "\<not> dismisses_item X u n op"
  shows "find_delivery n u (pg_effect X op s) = Some d"
proof (cases op)
  case (ReadItem r i)
  show ?thesis
  proof (cases "fst (MarkRead X r i s)")
    case None
    obtain v k e t where "uuid_cast X r = Some v" "uuid_cast X i = Some k"
      and f: "find_delivery n u (snd (MarkRead X r i s)) = (if u = v \<and> n = k then Some (set_read t e) else find_delivery n u s)"
      using MarkRead_done [OF None] by metis
    then have "\<not> (u = v \<and> n = k)" using assms(2,3) ReadItem by (auto simp: reads_item_def)
    then show ?thesis using assms(1) ReadItem by (auto simp: f simp del: snd_store_op)
  next
    case (Some e)
    then show ?thesis using MarkRead_failed [of X r i s n u] assms(1) ReadItem by (simp del: snd_store_op)
  qed
next
  case (DismissItem r i)
  show ?thesis
  proof (cases "fst (Dismiss X r i s)")
    case None
    obtain v k e t where "uuid_cast X r = Some v" "uuid_cast X i = Some k"
      and f: "find_delivery n u (snd (Dismiss X r i s)) = (if u = v \<and> n = k then Some (set_dismissed t e) else find_delivery n u s)"
      using Dismiss_done [OF None] by metis
    then have "\<not> (u = v \<and> n = k)" using assms(2,3) DismissItem by (auto simp: dismisses_item_def)
    then show ?thesis using assms(1) DismissItem by (auto simp: f simp del: snd_store_op)
  next
    case (Some e)
    then show ?thesis using Dismiss_failed [of X r i s n u] assms(1) DismissItem by (simp del: snd_store_op)
  qed
qed (rule same_after_op [OF assms(1)], simp, simp)+

lemma delivery_after_op:
  assumes "find_delivery n u s = Some d"
  shows "\<exists>d'. find_delivery n u (pg_effect X op s) = Some d' \<and> aged (reads_item X u n op) (dismisses_item X u n op) d d'"
proof -
  have same: ?thesis if "find_delivery n u (pg_effect X op s) = Some d"
    using that aged_refl by blast
  show ?thesis
  proof (cases op)
    case (ReadItem r i)
    show ?thesis
    proof (cases "fst (MarkRead X r i s)")
      case None
      obtain v k e t where "uuid_cast X r = Some v" "uuid_cast X i = Some k" "find_delivery k v s = Some e"
        and f: "find_delivery n u (snd (MarkRead X r i s)) = (if u = v \<and> n = k then Some (set_read t e) else find_delivery n u s)"
        using MarkRead_done [OF None] by metis
      then show ?thesis
        using assms ReadItem by (auto simp: reads_item_def aged_def set_read_def delivery_key_def simp del: snd_store_op split: option.split)
    next
      case (Some e)
      then have "find_delivery n u (snd (MarkRead X r i s)) = Some d" using MarkRead_failed [of X r i s n u] assms by simp
      then show ?thesis using same ReadItem by (simp del: snd_store_op)
    qed
  next
    case (DismissItem r i)
    show ?thesis
    proof (cases "fst (Dismiss X r i s)")
      case None
      obtain v k e t where "uuid_cast X r = Some v" "uuid_cast X i = Some k" "find_delivery k v s = Some e"
        and f: "find_delivery n u (snd (Dismiss X r i s)) = (if u = v \<and> n = k then Some (set_dismissed t e) else find_delivery n u s)"
        using Dismiss_done [OF None] by metis
      then show ?thesis
        using assms DismissItem by (auto simp: dismisses_item_def aged_def set_dismissed_def delivery_key_def simp del: snd_store_op)
    next
      case (Some e)
      then have "find_delivery n u (snd (Dismiss X r i s)) = Some d" using Dismiss_failed [of X r i s n u] assms by simp
      then show ?thesis using same DismissItem by (simp del: snd_store_op)
    qed
  qed (rule same, rule same_after_op [OF assms], simp, simp)+
qed

lemma find_notification_run:
  assumes "\<And>s. P (find_notification n s) \<Longrightarrow> P (find_notification n (snd (stmt s)))" and "P (find_notification n s)"
  shows "P (find_notification n (snd (pg_run stmt s)))"
  by (rule pg_run_keeps [where I = "\<lambda>s. P (find_notification n s)"]) (use assms in simp_all)

lemma find_notification_statements:
  "find_notification n (snd (sql_upsert_preference X v ch en cfg ts s)) = find_notification n s"
  "find_notification n (snd (sql_upsert_push X v ep p a ua s)) = find_notification n s"
  "find_notification n (snd (sql_delete_push X v ep s)) = find_notification n s"
  "find_notification n (snd (sql_insert_delivery X i r s)) = find_notification n s"
  "find_notification n (snd (sql_update_deliveries X upd r i s)) = find_notification n s"
  by (simp_all add: sql_upsert_preference_def sql_upsert_push_def sql_delete_push_def sql_insert_delivery_def
      sql_update_deliveries_def Let_def find_notification_def split: option.split)

text \<open>A notification under an id stays, with the time of its first storing.\<close>

definition created :: "gotime \<Rightarrow> notification_row option \<Rightarrow> bool" where
  "created t r \<longleftrightarrow> (\<exists>nr. r = Some nr \<and> nr_created_at nr = t)"

lemma created_upsert: "created t (find_notification n s) \<Longrightarrow> created t (find_notification n (snd (sql_upsert_notification X m s)))"
proof -
  have "nr_created_at (notification_row_of k md m t') = t'" for k md t' by (simp add: notification_row_of_def)
  then show "created t (find_notification n s) \<Longrightarrow> created t (find_notification n (snd (sql_upsert_notification X m s)))"
    by (auto simp: sql_upsert_notification_def find_notification_def find_notification_upsert created_def split: option.splits)
qed

lemma notification_after_op: "created t (find_notification n s) \<Longrightarrow> created t (find_notification n (pg_effect X op s))"
  by (cases op) (auto intro!: find_notification_run [where P = "created t"] simp: find_notification_statements created_upsert split: option.split,
      simp_all add: find_notification_def)

section \<open>Any sequence of operations\<close>

lemma item_after_ops:
  assumes "pg_steps X s ops t" and "find_delivery n u s = Some d" and "created c (find_notification n s)"
  shows "created c (find_notification n t) \<and> (\<exists>d'. find_delivery n u t = Some d'
     \<and> aged (list_ex (reads_item X u n) ops) (list_ex (dismisses_item X u n) ops) d d')"
  using assms(1)
proof (induction rule: pg_steps.induct)
  case none
  then show ?case using assms(2,3) aged_refl by auto
next
  case (more ops t op)
  then obtain d1 where "find_delivery n u t = Some d1"
    and d1: "aged (list_ex (reads_item X u n) ops) (list_ex (dismisses_item X u n) ops) d d1" by blast
  from delivery_after_op [OF this(1), of X op] obtain d2 where "find_delivery n u (pg_effect X op t) = Some d2"
    "aged (reads_item X u n op) (dismisses_item X u n op) d1 d2" by blast
  with aged_trans [OF d1 this(2)] notification_after_op [of c n t X op] more.IH show ?case by auto
qed

text \<open>
  C4: the life of an inbox item, over any sequence of operations on the store by any part of the service,
  whichever of them fail: an item that is there stays, with the times it was stored at; once
  read it stays read, with its first read time, and it becomes read only by a request of its owner
  to read it; once dismissed it stays dismissed, and it is dismissed only by a request of its owner;
  and it is listed exactly as long as it is not dismissed.
\<close>

theorem item_lifecycle:
  assumes "pg_steps X s ops t" and "pg_inv s" and "find_delivery n u s = Some d" and "find_notification n s = Some nr"
  shows "\<exists>d' nr'. find_delivery n u t = Some d' \<and> find_notification n t = Some nr'
     \<and> nr_created_at nr' = nr_created_at nr \<and> dr_created_at d' = dr_created_at d
     \<and> (dr_read d \<longrightarrow> dr_read d' \<and> dr_read_at d' = dr_read_at d)
     \<and> (dr_read d' \<longrightarrow> dr_read d \<or> (\<exists>op \<in> set ops. reads_item X u n op))
     \<and> (dr_dismissed d \<longrightarrow> dr_dismissed d')
     \<and> (dr_dismissed d' \<longrightarrow> dr_dismissed d \<or> (\<exists>op \<in> set ops. dismisses_item X u n op))
     \<and> ((nr', d') \<in> visible u t \<longleftrightarrow> \<not> dr_dismissed d')"
proof -
  have "created (nr_created_at nr) (find_notification n s)" by (simp add: created_def assms(4))
  from item_after_ops [OF assms(1,3) this] obtain d' nr' where d': "find_delivery n u t = Some d'"
    and aged: "aged (list_ex (reads_item X u n) ops) (list_ex (dismisses_item X u n) ops) d d'"
    and nr': "find_notification n t = Some nr'" "nr_created_at nr' = nr_created_at nr"
    by (auto simp: created_def)
  have "read_time_ok d" using assms(2) find_SomeD [OF assms(3) [unfolded find_delivery_def]] by (auto simp: pg_inv_def list_all_iff)
  then have at: "dr_read d \<longrightarrow> dr_read_at d \<noteq> None" by (simp add: read_time_ok_def)
  have "(nr', d') \<in> visible u t \<longleftrightarrow> \<not> dr_dismissed d'"
    using find_SomeD [OF d' [unfolded find_delivery_def]] find_SomeD [OF nr'(1) [unfolded find_notification_def]]
    by (auto simp: visible_def)
  with d' aged nr' at show ?thesis by (auto simp: aged_def list_ex_iff)
qed

definition sample_life :: "pg_op list" where
  "sample_life = [Clock 9, ReadItem ''R1'' ''A1'', Outages [Some (Sentinel ''gone'')], ReadCount ''R1'', Clock 12,
     DismissItem ''22'' ''A1'', ReadItem ''R1'' ''A1'']"

text \<open>Whether a sequence of operations can run, and the state it leaves.\<close>

fun all_enabled :: "pg_server \<Rightarrow> pg_op list \<Rightarrow> pg \<Rightarrow> bool" where
  "all_enabled X [] s \<longleftrightarrow> True"
| "all_enabled X (op # ops) s \<longleftrightarrow> op_enabled op s \<and> all_enabled X ops (pg_effect X op s)"

lemma pg_steps_fold: "all_enabled X ops s \<Longrightarrow> pg_steps X s ops (fold (pg_effect X) ops s)"
proof (induction ops arbitrary: s)
  case (Cons op ops)
  then show ?case using pg_steps_append [OF pg_steps_one [of op s X] Cons.IH] by simp
qed (simp add: none)

lemma sample_life:
  "\<not> list_ex (dismisses_item sample_server ''r1'' ''a1'') sample_life"
  "all_enabled sample_server sample_life sample_pg"
  by code_simp+

theorem item_lifecycle_witness:
  "\<exists>d' nr'. find_delivery ''a1'' ''r1'' (fold (pg_effect sample_server) sample_life sample_pg) = Some d'
     \<and> (nr', d') \<in> visible ''r1'' (fold (pg_effect sample_server) sample_life sample_pg)"
proof -
  have d: "find_delivery ''a1'' ''r1'' sample_pg = Some (new_delivery ''a1'' ''r1'' 5)"
    and nr: "find_notification ''a1'' sample_pg = Some (notification_row_of ''a1'' ''{}'' (zero_notification\<lparr>n_ID := ''A1''\<rparr>) 5)"
    by (simp_all add: sample_pg_eq empty_pg_def find_delivery_def find_notification_def new_delivery_def)
  from item_lifecycle [OF pg_steps_fold [OF sample_life(2)] sample_inbox(1) d nr] sample_life(1)
  show ?thesis by (auto simp: list_ex_iff new_delivery_def)
qed

end
