(* ===== verification/Delivered.thy ===== *)
theory Delivered
  imports WiringProps DispatchProps StoreTrace
begin

text \<open>
  The dispatcher with the providers the service builds, over the database, Redis and the two HTTP
  clients at once, while other users of the database act between its statements: a dispatch that
  returns nil has reached the inbox of every recipient whose site channel is chosen. The step from
  one component to the next is the relation \<open>kept\<close>: the database is reached by a
  dispatch's operations and those of the others, in some order.
\<close>

section \<open>The store of the service\<close>

definition on_pg_store :: "pg storeAccessor \<Rightarrow> services storeAccessor" where
  "on_pg_store sa = \<lparr>sa_UpsertNotification = (\<lambda>np. on_pg (sa_UpsertNotification sa np)),
     sa_ListTopicSubscribers = (\<lambda>t. on_pg (sa_ListTopicSubscribers sa t)),
     sa_GetPreferences = (\<lambda>r. on_pg (sa_GetPreferences sa r))\<rparr>"

definition live_subscriptions :: "pg_server \<Rightarrow> services subscriptionStore" where
  "live_subscriptions X = \<lparr>ss_ListPushSubscriptionsForSubject = (\<lambda>u. on_pg (ListPushSubscriptionsForSubject X u)),
     ss_DeletePushSubscription = (\<lambda>u ep. on_pg (DeletePushSubscription X u ep))\<rparr>"

lemma on_pg_eq: "on_pg f w = (x, w') \<longleftrightarrow> (\<exists>s. f (ws_pg (turn w)) = (x, s) \<and> w' = (turn w)\<lparr>ws_pg := s\<rparr>)"
  by (auto simp: on_pg_def split: prod.splits)

text \<open>A store that keeps the dispatcher's contract keeps it as a part of the service, if the others keep its invariant.\<close>

definition undisturbed :: "(pg \<Rightarrow> bool) \<Rightarrow> services \<Rightarrow> bool" where
  "undisturbed I w \<longleftrightarrow> I (ws_pg w) \<and> (\<forall>g \<in> set (ws_others w). \<forall>s. I s \<longrightarrow> I (g s))"

lemma undisturbed_turn: "undisturbed I w \<Longrightarrow> undisturbed I (turn w)"
  by (auto simp: undisturbed_def turn_def split: list.split)

lemma undisturbed_on_pg:
  "undisturbed I w \<Longrightarrow> (\<And>s. I s \<Longrightarrow> I (snd (f s))) \<Longrightarrow> undisturbed I (snd (on_pg f w))"
  using undisturbed_turn [of I w] by (simp add: undisturbed_def)

lemma on_pg_dispatch_store:
  assumes "dispatch_store I sa"
  shows "dispatch_store (undisturbed I) (on_pg_store sa)"
proof -
  note laws = assms [unfolded dispatch_store_def]
  have sa: "sa_UpsertNotification (on_pg_store sa) np = on_pg (sa_UpsertNotification sa np)"
    "sa_ListTopicSubscribers (on_pg_store sa) topic = on_pg (sa_ListTopicSubscribers sa topic)"
    "sa_GetPreferences (on_pg_store sa) r = on_pg (sa_GetPreferences sa r)" for np topic r
    by (simp_all add: on_pg_store_def)
  have here: "I (ws_pg (turn w))" if "undisturbed I w" for w
    using undisturbed_turn [OF that] by (simp add: undisturbed_def)
  show ?thesis
    unfolding dispatch_store_def sa on_pg_eq using laws here by (auto intro!: undisturbed_on_pg) metis
qed

interpretation live_dispatch: dispatch_store "undisturbed pg_inv" "on_pg_store (pg_store X)" for X
  by (rule on_pg_dispatch_store) (rule pg_dispatch.dispatch_store_axioms)

section \<open>What every operation keeps\<close>

text \<open>
  What the others do is reached by operations of the store that satisfy \<open>C\<close>, whatever the state
  they find: the condition on the environment of a dispatch.
\<close>

definition others_do :: "pg_server \<Rightarrow> (pg_op \<Rightarrow> bool) \<Rightarrow> services \<Rightarrow> bool" where
  "others_do X C w \<longleftrightarrow> (\<forall>g \<in> set (ws_others w). \<forall>s. does X C s (g s))"

lemma others_do_mono: "others_do X C w \<Longrightarrow> (\<And>op. C op \<Longrightarrow> D op) \<Longrightarrow> others_do X D w"
  unfolding others_do_def by (blast intro: does_mono)

lemma others_do_subset: "others_do X C w \<Longrightarrow> set (ws_others w') \<subseteq> set (ws_others w) \<Longrightarrow> others_do X C w'"
  by (auto simp: others_do_def)

lemma others_do_none [simp]: "ws_others w = [] \<Longrightarrow> others_do X C w"
  by (simp add: others_do_def)

text \<open>
  A part of the service reaches the database by operations of the store only: from \<open>w\<close> to \<open>w'\<close> by
  operations that satisfy \<open>P\<close>, and by what the others do in between.
\<close>

definition runs :: "pg_server \<Rightarrow> (pg_op \<Rightarrow> bool) \<Rightarrow> services \<Rightarrow> services \<Rightarrow> bool" where
  "runs X P w w' \<longleftrightarrow> set (ws_others w') \<subseteq> set (ws_others w)
     \<and> (\<forall>C. others_do X C w \<longrightarrow> does X (\<lambda>op. P op \<or> C op) (ws_pg w) (ws_pg w'))"

lemma runs_same_pg: "ws_pg w' = ws_pg w \<Longrightarrow> ws_others w' = ws_others w \<Longrightarrow> runs X P w w'"
  by (simp add: runs_def does_refl)

lemma runs_refl: "runs X P w w"
  by (simp add: runs_same_pg)

lemma runs_trans [trans]: "runs X P w w1 \<Longrightarrow> runs X P w1 w2 \<Longrightarrow> runs X P w w2"
  unfolding runs_def by (meson does_trans others_do_subset order_trans)

lemma runs_mono: "runs X P w w' \<Longrightarrow> (\<And>op. P op \<Longrightarrow> Q op) \<Longrightarrow> runs X Q w w'"
  unfolding runs_def by (blast intro: does_mono)

lemma runs_turn: "runs X P w (turn w)"
  by (auto simp: runs_def turn_def others_do_def does_refl intro: does_mono split: list.split)

lemma runs_op:
  assumes "ws_pg w' = pg_effect X op (ws_pg (turn w))" and "ws_others w' = tl (ws_others w)"
    and "op_enabled op (ws_pg (turn w))" and "P op"
  shows "runs X P w w'"
proof -
  have "runs X P (turn w) w'"
    using does_op [OF assms(1,3), of "\<lambda>op. P op \<or> _ op"] assms(2,4) by (simp add: runs_def)
  with runs_turn show ?thesis by (rule runs_trans)
qed

lemma runs_others: "runs X P w w' \<Longrightarrow> others_do X C w \<Longrightarrow> others_do X C w'"
  unfolding runs_def by (blast intro: others_do_subset)

text \<open>The operations of a dispatch: none of them writes a preference or touches a flag.\<close>

definition delivering :: "pg_op \<Rightarrow> bool" where
  "delivering op = (case op of StoreNotification _ \<Rightarrow> True | InsertDelivery _ _ \<Rightarrow> True | ListSubscribers _ \<Rightarrow> True
     | ReadPreferences _ \<Rightarrow> True | ReadPush _ \<Rightarrow> True | DropPush _ _ \<Rightarrow> True | _ \<Rightarrow> False)"

text \<open>Once the notification is stored: insertions are for this notification and for recipients in \<open>P\<close>.\<close>

definition dispatching :: "notification \<Rightarrow> (string \<Rightarrow> bool) \<Rightarrow> pg_op \<Rightarrow> bool" where
  "dispatching n P op = (case op of InsertDelivery r np \<Rightarrow> np = Some n \<and> P r | ListSubscribers _ \<Rightarrow> True
     | ReadPreferences _ \<Rightarrow> True | ReadPush _ \<Rightarrow> True | DropPush _ _ \<Rightarrow> True | _ \<Rightarrow> False)"

lemma dispatching_delivering: "dispatching n P op \<Longrightarrow> delivering op"
  by (cases op) (simp_all add: dispatching_def delivering_def)

lemma dispatching_mono: "dispatching n P op \<Longrightarrow> (\<And>r. P r \<Longrightarrow> Q r) \<Longrightarrow> dispatching n Q op"
  by (cases op) (auto simp: dispatching_def)

definition kept :: "pg_server \<Rightarrow> services \<Rightarrow> services \<Rightarrow> bool" where
  "kept X = runs X delivering"

lemma kept_refl: "kept X w w" and kept_trans [trans]: "kept X w w1 \<Longrightarrow> kept X w1 w2 \<Longrightarrow> kept X w w2"
  unfolding kept_def by (rule runs_refl, erule runs_trans)

lemma kept_turn: "kept X w (turn w)"
  unfolding kept_def by (rule runs_turn)

lemma runs_kept: "runs X (dispatching n P) w w' \<Longrightarrow> kept X w w'"
  unfolding kept_def by (erule runs_mono) (rule dispatching_delivering)

lemma kept_others: "kept X w w' \<Longrightarrow> others_do X C w \<Longrightarrow> others_do X C w'"
  unfolding kept_def by (rule runs_others)

lemma kept_does: "kept X w w' \<Longrightarrow> others_do X C w \<Longrightarrow> does X (\<lambda>op. delivering op \<or> C op) (ws_pg w) (ws_pg w')"
  by (simp add: kept_def runs_def)

text \<open>The least that is asked of the others: they use the operations of the store.\<close>

abbreviation by_operations :: "pg_server \<Rightarrow> services \<Rightarrow> bool" where
  "by_operations X \<equiv> others_do X (\<lambda>_. True)"

text \<open>An operation that writes a preference of user \<open>u\<close>; an outage with errors that satisfy \<open>Q\<close> only.\<close>

definition sets_preference :: "pg_server \<Rightarrow> string \<Rightarrow> pg_op \<Rightarrow> bool" where
  "sets_preference X u op = (case op of PutPreference v _ \<Rightarrow> uuid_cast X v = Some u | _ \<Rightarrow> False)"

definition plain_outage :: "(goerr \<Rightarrow> bool) \<Rightarrow> pg_op \<Rightarrow> bool" where
  "plain_outage Q op = (case op of Outages fs \<Rightarrow> \<forall>e. Some e \<in> set fs \<longrightarrow> Q e | _ \<Rightarrow> True)"

lemma does_keeps:
  assumes "does X P s t" and "\<And>op s. P op \<Longrightarrow> I s \<Longrightarrow> I (pg_effect X op s)" and "I s"
  shows "I t"
proof -
  obtain ops where "pg_steps X s ops t" "list_all P ops" using assms(1) by (auto simp: does_def)
  then show ?thesis using assms(2,3) by (induction rule: pg_steps.induct) simp_all
qed

lemma kept_inv: "kept X w w' \<Longrightarrow> by_operations X w \<Longrightarrow> pg_inv (ws_pg w) \<Longrightarrow> pg_inv (ws_pg w')"
  by (drule (1) kept_does) (erule does_keeps, erule pg_effect_inv)

lemma kept_found:
  "kept X w w' \<Longrightarrow> by_operations X w \<Longrightarrow> find_delivery k u (ws_pg w) \<noteq> None \<Longrightarrow> find_delivery k u (ws_pg w') \<noteq> None"
  by (drule (1) kept_does) (erule does_keeps, use delivery_after_op in blast)

definition preferences_of :: "string \<Rightarrow> pg \<Rightarrow> preference_row list" where
  "preferences_of u s = filter (\<lambda>q. pr_subject q = u) (notification_preferences s)"

lemma preferences_of_run:
  "(\<And>s. preferences_of u (snd (stmt s)) = preferences_of u s) \<Longrightarrow> preferences_of u (snd (pg_run stmt s)) = preferences_of u s"
  by (cases rule: pg_run_cases [of s stmt]) (simp_all add: preferences_of_def)

lemma preferences_of_statements:
  "preferences_of u (snd (sql_upsert_notification X m s)) = preferences_of u s"
  "preferences_of u (snd (sql_insert_delivery X i r s)) = preferences_of u s"
  "preferences_of u (snd (sql_update_deliveries X upd r i s)) = preferences_of u s"
  "preferences_of u (snd (sql_upsert_push X v ep p a ua s)) = preferences_of u s"
  "preferences_of u (snd (sql_delete_push X v ep s)) = preferences_of u s"
  by (simp_all add: preferences_of_def sql_upsert_notification_def sql_insert_delivery_def sql_update_deliveries_def
      sql_upsert_push_def sql_delete_push_def split: option.split)

lemma preferences_of_upsert:
  "uuid_cast X v \<noteq> Some u \<Longrightarrow> preferences_of u (snd (sql_upsert_preference X v ch en cfg ts s)) = preferences_of u s"
  by (auto simp: preferences_of_def sql_upsert_preference_def preference_row_of_def
      intro!: filter_upsert_row_other split: option.split)

lemma preferences_of_read:
  "preferences_of u (s\<lparr>pg_faults := fs\<rparr>) = preferences_of u s" "preferences_of u (s\<lparr>pg_now := now\<rparr>) = preferences_of u s"
  "preferences_of u (s\<lparr>topic_subscriptions := ts\<rparr>) = preferences_of u s"
  by (simp_all add: preferences_of_def)

lemma preferences_of_op: "\<not> sets_preference X u op \<Longrightarrow> preferences_of u (pg_effect X op s) = preferences_of u s"
  by (cases op) (auto simp: sets_preference_def preferences_of_read preferences_of_statements
      intro!: preferences_of_run preferences_of_upsert split: option.split)

lemma delivering_preference: "delivering op \<Longrightarrow> \<not> sets_preference X u op"
  by (cases op) (simp_all add: delivering_def sets_preference_def)

lemma kept_preferences:
  assumes "kept X w w'" and "others_do X (\<lambda>op. \<not> sets_preference X u op) w"
  shows "preferences_of u (ws_pg w') = preferences_of u (ws_pg w)"
  by (rule does_keeps [OF kept_does [OF assms], where I = "\<lambda>s. preferences_of u s = preferences_of u (ws_pg w)"])
     (use delivering_preference in \<open>auto simp: preferences_of_op\<close>)

lemma faults_of_run:
  assumes "\<And>s. pg_faults (snd (stmt s)) = pg_faults s"
  shows "set (pg_faults (snd (pg_run stmt s))) \<subseteq> set (pg_faults s)"
  by (cases rule: pg_run_cases [of s stmt]) (auto simp: assms)

lemma faults_of_statements:
  "pg_faults (snd (sql_upsert_notification X m s)) = pg_faults s"
  "pg_faults (snd (sql_insert_delivery X i r s)) = pg_faults s"
  "pg_faults (snd (sql_upsert_preference X v ch en cfg ts s)) = pg_faults s"
  "pg_faults (snd (sql_update_deliveries X upd r i s)) = pg_faults s"
  "pg_faults (snd (sql_upsert_push X v ep p a ua s)) = pg_faults s"
  "pg_faults (snd (sql_delete_push X v ep s)) = pg_faults s"
  by (simp_all add: sql_upsert_notification_def sql_insert_delivery_def sql_upsert_preference_def sql_update_deliveries_def
      sql_upsert_push_def sql_delete_push_def Let_def split: option.split)

text \<open>The errors a database has in its script come from there or from an outage.\<close>

lemma faults_of_op:
  assumes "plain_outage Q op" and "\<forall>e. Some e \<in> set (pg_faults s) \<longrightarrow> Q e"
  shows "\<forall>e. Some e \<in> set (pg_faults (pg_effect X op s)) \<longrightarrow> Q e"
proof (cases "\<exists>fs. op = Outages fs")
  case False
  then have "set (pg_faults (pg_effect X op s)) \<subseteq> set (pg_faults s)"
    by (cases op) (simp_all add: faults_of_run faults_of_statements list.set_sel(2) subsetI split: option.split,
         (metis list.sel(2) list.set_sel(2) subsetI)+)
  with assms(2) show ?thesis by blast
qed (use assms(1) in \<open>auto simp: plain_outage_def\<close>)

lemma delivering_outage: "delivering op \<Longrightarrow> plain_outage Q op"
  by (cases op) (simp_all add: delivering_def plain_outage_def)

lemma kept_faults:
  assumes "kept X w w'" and "others_do X (plain_outage Q) w" and "\<forall>e. Some e \<in> set (pg_faults (ws_pg w)) \<longrightarrow> Q e"
  shows "\<forall>e. Some e \<in> set (pg_faults (ws_pg w')) \<longrightarrow> Q e"
  by (rule does_keeps [OF kept_does [OF assms(1,2)], where I = "\<lambda>s. \<forall>e. Some e \<in> set (pg_faults s) \<longrightarrow> Q e"])
     (use delivering_outage faults_of_op assms(3) in blast)+

text \<open>The operations of the service, as the dispatcher and the providers call them.\<close>

lemma kept_store:
  "runs X (\<lambda>op. op = StoreNotification np) w (snd (on_pg (UpsertNotification X np) w))"
  "runs X (dispatching n P) w (snd (on_pg (GetPreferences X r) w))"
  "runs X (dispatching n P) w (snd (on_pg (ListPushSubscriptionsForSubject X r) w))"
  "runs X (dispatching n P) w (snd (on_pg (DeletePushSubscription X r ep) w))"
  "runs X (dispatching n P) w (snd (on_pg (ListTopicSubscribers X t) w))"
proof -
  show "runs X (\<lambda>op. op = StoreNotification np) w (snd (on_pg (UpsertNotification X np) w))"
    by (rule runs_op [where op = "StoreNotification np"]) simp_all
  show "runs X (dispatching n P) w (snd (on_pg (GetPreferences X r) w))"
    by (rule runs_op [where op = "ReadPreferences r"]) (simp_all add: dispatching_def)
  show "runs X (dispatching n P) w (snd (on_pg (ListPushSubscriptionsForSubject X r) w))"
    by (rule runs_op [where op = "ReadPush r"]) (simp_all add: dispatching_def)
  show "runs X (dispatching n P) w (snd (on_pg (DeletePushSubscription X r ep) w))"
    by (rule runs_op [where op = "DropPush r ep"]) (simp_all add: dispatching_def)
  show "runs X (dispatching n P) w (snd (on_pg (ListTopicSubscribers X t) w))"
    by (rule runs_op [where op = "ListSubscribers t"]) (simp_all add: dispatching_def)
qed

lemma kept_upsert: "kept X w (snd (on_pg (UpsertNotification X np) w))"
  unfolding kept_def by (rule runs_mono [OF kept_store(1)]) (simp add: delivering_def)

lemmas kept_subscribers = runs_kept [OF kept_store(5)]

lemma runs_site_Send:
  assumes "si_store p = pg_writer X" and "si_redis p = map_option recording_redis R" and "P r"
  shows "runs X (dispatching n P) w (snd (site_Send T p n r cfg w))"
proof -
  obtain err w' where send: "site_Send T p n r cfg w = (err, w')" by fastforce
  have "w' = w \<or> ws_pg w' = snd (InsertSiteDelivery X r (Some n) (ws_pg (turn w))) \<and> ws_others w' = tl (ws_others w)"
    using site_Send_nil [OF assms(1,2)] site_Send_failed [OF assms(1,2)] send by (cases err) blast+
  then show ?thesis
    using send runs_refl runs_op [where op = "InsertDelivery r (Some n)"] assms(3)
    by (auto simp: dispatching_def simp del: snd_store_op)
qed

section \<open>Deliveries\<close>

definition in_inbox :: "pg_server \<Rightarrow> notification \<Rightarrow> string \<Rightarrow> services \<Rightarrow> bool" where
  "in_inbox X n r w \<longleftrightarrow> (\<exists>k u. uuid_cast X (n_ID n) = Some k \<and> uuid_cast X r = Some u
     \<and> find_delivery k u (ws_pg w) \<noteq> None)"

lemma in_inbox_kept: "in_inbox X n r w \<Longrightarrow> kept X w w' \<Longrightarrow> by_operations X w \<Longrightarrow> in_inbox X n r w'"
  unfolding in_inbox_def using kept_found [of X w w'] by blast

lemma in_inbox_site_Send:
  assumes "si_store p = pg_writer X" and "si_redis p = map_option recording_redis R"
    and "fst (site_Send T p n r cfg w) = None"
  shows "in_inbox X n r (snd (site_Send T p n r cfg w))"
proof -
  have "site_Send T p n r cfg w = (None, snd (site_Send T p n r cfg w))" using assms(3) by (metis prod.collapse)
  from site_Send_nil [OF assms(1,2) this] obtain item where
    "fst (InsertSiteDelivery X r (Some n) (ws_pg (turn w))) = Inr item"
    "ws_pg (snd (site_Send T p n r cfg w)) = snd (InsertSiteDelivery X r (Some n) (ws_pg (turn w)))" by blast
  with inserted_delivery_found [OF this(1)] show ?thesis by (simp add: in_inbox_def del: snd_store_op)
qed

text \<open>The preferences a recipient has stored, as \<open>GetPreferences\<close> reads them.\<close>

definition stored_preferences :: "pg_server \<Rightarrow> string \<Rightarrow> services \<Rightarrow> preference list" where
  "stored_preferences X r w = (case uuid_cast X r of None \<Rightarrow> [] | Some u \<Rightarrow>
     map (scan_preference r) (sort_key pr_channel (preferences_of u (ws_pg w))))"

lemma GetPreferences_stored:
  assumes "fst (GetPreferences X r (ws_pg w)) = Inr prefs"
  shows "prefs = stored_preferences X r w"
proof -
  obtain rows s' where run: "pg_run (sql_get_preferences X r) (ws_pg w) = (Inr rows, s')"
    and prefs: "prefs = map (scan_preference r) rows"
    using assms by (auto simp: GetPreferences_def split: prod.splits sum.splits)
  obtain fs where "sql_get_preferences X r ((ws_pg w)\<lparr>pg_faults := fs\<rparr>) = (Inr rows, s')"
    by (rule pg_run_Inr [OF run])
  with prefs show ?thesis by (auto simp: stored_preferences_def preferences_of_def sql_get_preferences_def split: option.splits)
qed

text \<open>The others leave the preferences of \<open>r\<close> alone.\<close>

definition preferences_rest :: "pg_server \<Rightarrow> string \<Rightarrow> services \<Rightarrow> bool" where
  "preferences_rest X r w \<longleftrightarrow> (\<forall>u. uuid_cast X r = Some u \<longrightarrow> others_do X (\<lambda>op. \<not> sets_preference X u op) w)"

lemma preferences_rest_kept: "kept X w w' \<Longrightarrow> preferences_rest X r w \<Longrightarrow> preferences_rest X r w'"
  unfolding preferences_rest_def using kept_others by blast

lemma stored_kept: "kept X w w' \<Longrightarrow> preferences_rest X r w \<Longrightarrow> stored_preferences X r w' = stored_preferences X r w"
  by (auto simp: stored_preferences_def preferences_rest_def kept_preferences split: option.split)

lemmas stored_turn = stored_kept [OF kept_turn]

section \<open>The loops of a dispatch\<close>

definition providers_kept :: "pg_server \<Rightarrow> services registry option \<Rightarrow> bool" where
  "providers_kept X reg \<longleftrightarrow> (\<forall>c p n r cfg w. registry_Get reg c = Some p \<longrightarrow>
     runs X (dispatching n (\<lambda>r'. r' = r \<and> c = ChannelSite)) w (snd (pv_Send p n r cfg w)))"

lemma providers_keptD: "providers_kept X reg \<Longrightarrow> registry_Get reg c = Some p \<Longrightarrow> kept X w (snd (pv_Send p n r cfg w))"
  unfolding providers_kept_def by (blast intro: runs_kept)

lemma send_events_runs:
  assumes "providers_kept X (dp_providers d)" and "ChannelSite \<in> rp_Channel ` set ts \<Longrightarrow> P r"
  shows "runs X (dispatching n P) w (snd (send_events d n r ts w))"
  using assms(2)
proof (induction ts arbitrary: w)
  case (Cons t ts)
  have rest: "runs X (dispatching n P) w1 (snd (send_events d n r ts w1))" for w1
    using Cons by auto
  show ?case
  proof (cases "registry_Get (dp_providers d) (rp_Channel t)")
    case (Some prov)
    then have "runs X (dispatching n (\<lambda>r'. r' = r \<and> rp_Channel t = ChannelSite)) w (snd (pv_Send prov n r (rp_Config t) w))"
      using assms(1) by (simp add: providers_kept_def)
    then have "runs X (dispatching n P) w (snd (pv_Send prov n r (rp_Config t) w))"
      by (rule runs_mono) (rule dispatching_mono, assumption, use Cons.prems in force)
    from runs_trans [OF this rest] Some show ?thesis by (simp add: case_prod_beta Let_def)
  qed (simp add: rest)
qed (simp add: runs_refl)

lemma send_events_kept: "providers_kept X (dp_providers d) \<Longrightarrow> kept X w (snd (send_events d n r ts w))"
  by (rule runs_kept, rule send_events_runs [where P = "\<lambda>_. True"]) simp_all

lemma resolveChannels_runs:
  "dp_store d = on_pg_store (pg_store X) \<Longrightarrow> runs X (dispatching n' P) w (snd (resolveChannels d r n w))"
  using kept_store(2) [of X n' P w r]
  by (auto simp: resolveChannels_def on_pg_store_def pg_store_def split: prod.split sum.split)

lemmas resolveChannels_kept = runs_kept [OF resolveChannels_runs]

text \<open>Which insertions a dispatch makes: for the recipients that some resolution gives the site channel.\<close>

lemma dispatch_events_runs:
  assumes kp: "providers_kept X (dp_providers d)" and st: "dp_store d = on_pg_store (pg_store X)"
  shows "(\<And>r w1 ts w2. r \<in> set rs \<Longrightarrow> kept X w w1 \<Longrightarrow> resolveChannels d r n w1 = (Inr ts, w2) \<Longrightarrow>
       ChannelSite \<in> rp_Channel ` set ts \<Longrightarrow> P r) \<Longrightarrow> runs X (dispatching n P) w (snd (dispatch_events d n rs w))"
proof (induction rs arbitrary: w)
  case (Cons r rs)
  obtain x w1 where x: "resolveChannels d r n w = (x, w1)" by fastforce
  have w1: "runs X (dispatching n P) w w1" using resolveChannels_runs [OF st, of n P w r n] x by simp
  have IH: "runs X (dispatching n P) w2 (snd (dispatch_events d n rs w2))" if "kept X w w2" for w2
  proof (rule Cons.IH)
    fix r' w1 ts w3
    assume "r' \<in> set rs" "kept X w2 w1" "resolveChannels d r' n w1 = (Inr ts, w3)" "ChannelSite \<in> rp_Channel ` set ts"
    then show "P r'" using Cons.prems [of r' w1 ts w3] kept_trans [OF that] by simp
  qed
  show ?case
  proof (cases x)
    case (Inl e)
    then show ?thesis using runs_trans [OF w1 IH [OF runs_kept [OF w1]]] x by (simp add: case_prod_beta Let_def)
  next
    case (Inr ts)
    have "runs X (dispatching n P) w1 (snd (send_events d n r ts w1))"
      by (rule send_events_runs [OF kp]) (use Cons.prems [of r w ts w1] x Inr kept_refl in auto)
    then have w2: "runs X (dispatching n P) w (snd (send_events d n r ts w1))" by (rule runs_trans [OF w1])
    from runs_trans [OF this IH [OF runs_kept [OF this]]] show ?thesis using x Inr by (simp add: case_prod_beta Let_def)
  qed
qed (simp add: runs_refl)

lemma dispatch_events_kept:
  "providers_kept X (dp_providers d) \<Longrightarrow> dp_store d = on_pg_store (pg_store X) \<Longrightarrow> kept X w (snd (dispatch_events d n rs w))"
  by (rule runs_kept, rule dispatch_events_runs [where P = "\<lambda>_. True"]) simp_all

text \<open>An event that did not keep the site provider from storing the delivery.\<close>

definition site_reached :: "event \<Rightarrow> bool" where
  "site_reached ev = (case ev of ResolveFailed r e \<Rightarrow> False | SendResult c r err \<Rightarrow> c = ChannelSite \<longrightarrow> err = None)"

lemma site_reached_simps [simp]:
  "\<not> site_reached (ResolveFailed r e)" "site_reached (SendResult c r err) \<longleftrightarrow> (c = ChannelSite \<longrightarrow> err = None)"
  by (simp_all add: site_reached_def)

lemma send_events_delivered:
  assumes "providers_kept X (dp_providers d)"
    and "registry_Get (dp_providers d) ChannelSite = Some (site_provider T p)"
    and "si_store p = pg_writer X" and "si_redis p = map_option recording_redis R"
  shows "list_all site_reached (fst (send_events d n r ts w)) \<Longrightarrow> ChannelSite \<in> rp_Channel ` set ts
     \<Longrightarrow> by_operations X w \<Longrightarrow> in_inbox X n r (snd (send_events d n r ts w))"
proof (induction ts arbitrary: w)
  case (Cons t ts)
  show ?case
  proof (cases "registry_Get (dp_providers d) (rp_Channel t)")
    case None
    then show ?thesis using Cons assms(2) by auto
  next
    case (Some prov)
    obtain err w1 where send: "pv_Send prov n r (rp_Config t) w = (err, w1)" by fastforce
    have snd: "snd (send_events d n r (t # ts) w) = snd (send_events d n r ts w1)"
      using Some send by (simp add: case_prod_beta Let_def)
    have c1: "by_operations X w1"
      using kept_others [OF providers_keptD [OF assms(1) Some] Cons.prems(3)] send by (metis snd_conv)
    have ok: "rp_Channel t = ChannelSite \<longrightarrow> err = None" "list_all site_reached (fst (send_events d n r ts w1))"
      using Cons.prems(1) Some send by (simp_all add: case_prod_beta Let_def)
    show ?thesis
    proof (cases "rp_Channel t = ChannelSite")
      case True
      then have "in_inbox X n r w1"
        using Some assms(2) send ok(1) in_inbox_site_Send [OF assms(3,4), of T n r "rp_Config t" w]
        by (auto simp: site_provider_def)
      then show ?thesis unfolding snd by (rule in_inbox_kept [OF _ send_events_kept [OF assms(1)] c1])
    next
      case False
      then have "ChannelSite \<in> rp_Channel ` set ts" using Cons.prems(2) by auto
      then show ?thesis unfolding snd by (rule Cons.IH [OF ok(2) _ c1])
    qed
  qed
qed simp

lemma undisturbed_inv: "by_operations X w \<Longrightarrow> pg_inv (ws_pg w) \<Longrightarrow> undisturbed pg_inv w"
  unfolding undisturbed_def others_do_def by (blast intro: does_keeps pg_effect_inv)

lemma dispatch_events_delivered:
  assumes kp: "providers_kept X (dp_providers d)" and st: "dp_store d = on_pg_store (pg_store X)"
    and site: "registry_Get (dp_providers d) ChannelSite = Some (site_provider T p)"
      "si_store p = pg_writer X" "si_redis p = map_option recording_redis R"
    and dist: "distinct (n_Channels n)"
  shows "list_all site_reached (fst (dispatch_events d n rs w)) \<Longrightarrow> pg_inv (ws_pg w) \<Longrightarrow> r \<in> set rs
     \<Longrightarrow> chosen (stored_preferences X r w) n ChannelSite \<Longrightarrow> by_operations X w \<Longrightarrow> preferences_rest X r w \<Longrightarrow> in_inbox X n r (snd (dispatch_events d n rs w))"
proof (induction rs arbitrary: w)
  case (Cons r0 rs)
  obtain x w1 where x: "resolveChannels d r0 n w = (x, w1)" by fastforce
  have w1: "kept X w w1" using resolveChannels_kept [OF st, of w r0 n] x by simp
  obtain ts where ts: "x = Inr ts"
    using Cons.prems(1) x by (cases x) (simp_all add: case_prod_beta Let_def)
  obtain evs w2 where evs: "send_events d n r0 ts w1 = (evs, w2)" by fastforce
  have w2: "kept X w w2" using kept_trans [OF w1 send_events_kept [OF kp]] evs by (metis snd_conv)
  note c1 = kept_others [OF w1 Cons.prems(5)] and c2 = kept_others [OF w2 Cons.prems(5)]
  have ok: "list_all site_reached evs" "list_all site_reached (fst (dispatch_events d n rs w2))"
    and snd: "snd (dispatch_events d n (r0 # rs) w) = snd (dispatch_events d n rs w2)"
    using Cons.prems(1) x ts evs by (simp_all add: case_prod_beta Let_def)
  show ?case
  proof (cases "r = r0")
    case True
    have res: "resolveChannels d r n w = (Inr ts, w1)" using x ts True by simp
    from live_dispatch.targets_spec [OF st undisturbed_inv [OF Cons.prems(5,2)] dist res] obtain prefs where
      "fst (sa_GetPreferences (on_pg_store (pg_store X)) r w) = Inr prefs"
      and t: "\<forall>t. t \<in> set ts \<longleftrightarrow> chosen prefs n (rp_Channel t) \<and> rp_Config t = config_for prefs (rp_Channel t)" by blast
    then have "fst (GetPreferences X r (ws_pg (turn w))) = Inr prefs" by (simp add: on_pg_store_def pg_store_def)
    then have "chosen prefs n ChannelSite"
      using GetPreferences_stored stored_turn [OF Cons.prems(6)] Cons.prems(4) by metis
    then have "\<lparr>rp_Channel = ChannelSite, rp_Config = config_for prefs ChannelSite\<rparr> \<in> set ts" using t by simp
    then have "ChannelSite \<in> rp_Channel ` set ts" by force
    then have "in_inbox X n r w2"
      using send_events_delivered [OF kp site, of n r0 ts w1] ok(1) evs True c1 by simp
    then show ?thesis unfolding snd by (rule in_inbox_kept [OF _ dispatch_events_kept [OF kp st] c2])
  next
    case False
    then have "r \<in> set rs" using Cons.prems(3) by simp
    moreover have "pg_inv (ws_pg w2)" by (rule kept_inv [OF w2 Cons.prems(5,2)])
    ultimately show ?thesis
      unfolding snd using Cons.IH [OF ok(2)] Cons.prems(4) stored_kept [OF w2 Cons.prems(6)] c2
        preferences_rest_kept [OF w2 Cons.prems(6)] by simp
  qed
qed simp

lemma dispatch_spec_kept:
  assumes "providers_kept X (dp_providers d)" and "dp_store d = on_pg_store (pg_store X)"
    and "dispatch_spec uuid_ok d np w = (x, np', w')"
  shows "kept X w w'"
proof -
  have up: "kept X w w1" if "sa_UpsertNotification (dp_store d) m w = (y, w1)" for m y w1
    using kept_upsert [of X w m] that by (simp add: assms(2) on_pg_store_def pg_store_def)
  have rs: "kept X w1 w2" if "resolveRecipients d m w1 = (y, w2)" for m w1 y w2
    using that kept_subscribers [of X w1 "n_Topic m"]
    by (auto simp: resolveRecipients_def assms(2) on_pg_store_def pg_store_def kept_refl split: if_splits prod.splits sum.splits)
  have ev: "kept X w2 w3" if "dispatch_events d m r w2 = (evs, w3)" for m r w2 evs w3
    using dispatch_events_kept [OF assms(1,2), of w2 m r] that by simp
  show ?thesis
    using assms(3) unfolding dispatch_spec_def
    by (auto simp: kept_refl split: if_splits prod.splits option.splits sum.splits
        dest!: up rs ev intro: kept_trans)
qed

section \<open>The providers of the service\<close>

text \<open>
  The parts the service is built from: its own store, the Redis client, and two HTTP clients, which
  are third-party and leave the database and its other users alone.
\<close>

definition same_database :: "services \<Rightarrow> services \<Rightarrow> bool" where
  "same_database w w' \<longleftrightarrow> ws_pg w' = ws_pg w \<and> ws_others w' = ws_others w"

lemma same_database_refl [simp]: "same_database w w"
  by (simp add: same_database_def)

lemma same_database_runs: "same_database w w' \<Longrightarrow> runs X P w w'"
  by (simp add: same_database_def runs_same_pg)

definition live_deps :: "pg_server \<Rightarrow> (string \<Rightarrow> string \<Rightarrow> error) \<Rightarrow> services deps \<Rightarrow> bool" where
  "live_deps X R D \<longleftrightarrow> wd_writer D = pg_writer X \<and> wd_redis D = recording_redis R \<and> wd_subscriptions D = live_subscriptions X
     \<and> (\<forall>req w. same_database w (snd (wd_http D req w)))
     \<and> (\<forall>client payload sub opts w. same_database w (snd (wd_push D client payload sub opts w)))"

lemma kept_telegram:
  assumes "\<And>req w. same_database w (snd (tg_client p req w))"
  shows "runs X P w (snd (telegram_Send u p np r cfg w))"
proof (rule same_database_runs)
  show "same_database w (snd (telegram_Send u p np r cfg w))"
    using assms [of w] by (auto simp: telegram_Send_def Let_def same_database_def split: option.split prod.split sum.split)
      (metis snd_conv)+
qed

lemma kept_push_one:
  assumes "wb_store p = live_subscriptions X" and "\<And>payload sub opts w. same_database w (snd (wb_push p payload sub opts w))"
  shows "runs X (dispatching n P) w (snd (push_one p r payload sub acc w))"
proof -
  obtain x w1 where x: "wb_push p payload sub (push_options_of (wb_cfg p)) w = (x, w1)" by fastforce
  have w1: "runs X (dispatching n P) w w1"
    using assms(2) [of w payload sub "push_options_of (wb_cfg p)"] x by (simp add: same_database_runs)
  have del: "runs X (dispatching n P) w w2" if "ss_DeletePushSubscription (wb_store p) r (Endpoint sub) w1 = (y, w2)" for y w2
    using runs_trans [OF w1 kept_store(4) [of X n P w1 r "Endpoint sub"]] that assms(1) by (simp add: live_subscriptions_def)
  show ?thesis
    using w1 by (auto simp: push_one_def x Let_def dest: del split: sum.split option.split prod.split)
qed

lemma kept_push_loop:
  assumes "wb_store p = live_subscriptions X" and "\<And>payload sub opts w. same_database w (snd (wb_push p payload sub opts w))"
  shows "runs X (dispatching n P) w (snd (push_loop p r payload subs acc w))"
proof (induction subs arbitrary: acc w)
  case (Cons sub subs)
  from runs_trans [OF kept_push_one [OF assms] Cons.IH] show ?case by (simp add: case_prod_beta)
qed (simp add: runs_refl)

lemma kept_webpush:
  assumes "wb_store p = live_subscriptions X" and "\<And>payload sub opts w. same_database w (snd (wb_push p payload sub opts w))"
  shows "runs X (dispatching n P) w (snd (webpush_Send p m r cfg w))"
proof -
  obtain x w1 where x: "ss_ListPushSubscriptionsForSubject (wb_store p) r w = (x, w1)" by fastforce
  have w1: "runs X (dispatching n P) w w1" using kept_store(3) [of X n P w r] x assms(1) by (simp add: live_subscriptions_def)
  show ?thesis
    using w1 runs_trans [OF w1 kept_push_loop [OF assms]] by (auto simp: webpush_Send_def x split: sum.split)
qed

lemma built_providers:
  assumes "buildProviders D cfg = Inr reg" and "live_deps X R D"
  shows "providers_kept X (Some reg)"
    and "sc_Enabled (pc_Site (c_Providers cfg)) \<Longrightarrow> \<exists>p. registry_Get (Some reg) ChannelSite = Some (site_provider (wd_time D) p)
      \<and> si_store p = pg_writer X \<and> si_redis p = map_option recording_redis (Some R)"
proof -
  have site: "si_store sp = pg_writer X \<and> si_redis sp = map_option recording_redis (Some R)"
    if "site_New (wd_writer D) (Some (wd_redis D)) c b = Inr sp" for c b sp
    using site_New_targets(1,2) [OF that] assms(2) by (simp add: live_deps_def)
  show "providers_kept X (Some reg)"
    unfolding providers_kept_def
  proof (intro allI impI)
    fix c p n r prefs w
    assume p: "registry_Get (Some reg) c = Some p"
    show "runs X (dispatching n (\<lambda>r'. r' = r \<and> c = ChannelSite)) w (snd (pv_Send p n r prefs w))"
    proof (rule buildProviders_cases [OF assms(1), of c])
      fix sp tp
      assume sp: "sc_Enabled (pc_Site (c_Providers cfg)) \<Longrightarrow>
          site_New (wd_writer D) (Some (wd_redis D)) (pc_Site (c_Providers cfg)) (rd_Prefix (c_Redis cfg)) = Inr sp"
        and tp: "tc_Enabled (pc_Telegram (c_Providers cfg)) \<Longrightarrow> telegram_New (wd_http D) (pc_Telegram (c_Providers cfg)) = Inr tp"
        and reg: "registry_Get (Some reg) c =
           (if c = ChannelSite \<and> sc_Enabled (pc_Site (c_Providers cfg)) then Some (site_provider (wd_time D) sp)
            else if c = ChannelTelegram \<and> tc_Enabled (pc_Telegram (c_Providers cfg)) then Some (telegram_provider (wd_url_error D) tp)
            else if c = ChannelWebPush \<and> wp_Enabled (pc_WebPush (c_Providers cfg))
              then Some (webpush_provider (webpush_New D (pc_WebPush (c_Providers cfg)))) else None)"
      consider "sc_Enabled (pc_Site (c_Providers cfg))" "p = site_provider (wd_time D) sp" "c = ChannelSite"
        | "tc_Enabled (pc_Telegram (c_Providers cfg))" "p = telegram_provider (wd_url_error D) tp"
        | "p = webpush_provider (webpush_New D (pc_WebPush (c_Providers cfg)))"
        using p reg by (auto split: if_splits)
      then show ?thesis
      proof cases
        case 1
        have "si_store sp = pg_writer X" "si_redis sp = map_option recording_redis (Some R)"
          using site [OF sp [OF 1(1)]] by simp_all
        from runs_site_Send [OF this] 1(2,3) show ?thesis by (simp add: site_provider_def)
      next
        case 2
        have "tg_client tp = wd_http D" using telegram_New_Inr [OF tp [OF 2(1)]] by metis
        then show ?thesis using 2(2) assms(2) by (simp add: telegram_provider_def live_deps_def kept_telegram)
      next
        case 3
        then show ?thesis
          using assms(2) by (simp add: webpush_provider_def webpush_New_def live_deps_def kept_webpush [where X = X])
      qed
    qed
  qed
  show "\<exists>p. registry_Get (Some reg) ChannelSite = Some (site_provider (wd_time D) p)
      \<and> si_store p = pg_writer X \<and> si_redis p = map_option recording_redis (Some R)"
    if "sc_Enabled (pc_Site (c_Providers cfg))"
    by (rule buildProviders_cases [OF assms(1), of ChannelSite]) (use that site in auto)
qed

section \<open>From a dispatch to the inbox\<close>

lemma chosen_identified: "chosen prefs (m\<lparr>n_ID := k, n_CreatedAt := t\<rparr>) c = chosen prefs m c"
  by (cases "find (\<lambda>q. p_Channel q = c) prefs") (simp_all add: chosen_def)

lemma dispatch_delivers:
  assumes "providers_kept X (dp_providers d)" and "dp_store d = on_pg_store (pg_store X)"
    and "registry_Get (dp_providers d) ChannelSite = Some (site_provider T p)"
    and "si_store p = pg_writer X" "si_redis p = map_option recording_redis R"
    and "pg_inv (ws_pg w)" and "dispatch_spec uuid_ok d (Some n) w = (Inr evs, np', w')" and "list_all site_reached evs"
    and "r \<in> set (uniqueStrings (n_Recipients n))" and "chosen (stored_preferences X r w) (Normalize n) ChannelSite"
    and "by_operations X w" and "preferences_rest X r w"
  shows "\<exists>k t. np' = Some ((Normalize n)\<lparr>n_ID := k, n_CreatedAt := t\<rparr>)
     \<and> in_inbox X ((Normalize n)\<lparr>n_ID := k, n_CreatedAt := t\<rparr>) r w'"
proof -
  have up: "sa_UpsertNotification (dp_store d) (Some m) v = ((None, np), v') \<Longrightarrow>
      \<exists>k t. np = Some (m\<lparr>n_ID := k, n_CreatedAt := t\<rparr>)" for m np v v'
    unfolding assms(2) by (rule live_dispatch.upsert_ok)
  obtain k t w1 where run: "dispatch_events d ((Normalize n)\<lparr>n_ID := k, n_CreatedAt := t\<rparr>)
      (uniqueStrings (n_Recipients n)) w1 = (evs, w')"
    and w1: "w1 = snd (sa_UpsertNotification (dp_store d) (Some (Normalize n)) w)"
    and n': "np' = Some ((Normalize n)\<lparr>n_ID := k, n_CreatedAt := t\<rparr>)"
    by (rule dispatch_spec_recipients [OF assms(7) _ up]) (use assms(9) in auto)
  have k1: "kept X w w1"
    unfolding w1 assms(2) using kept_upsert by (simp add: on_pg_store_def pg_store_def)
  let ?n = "(Normalize n)\<lparr>n_ID := k, n_CreatedAt := t\<rparr>"
  have "chosen (stored_preferences X r w1) ?n ChannelSite"
    using assms(10) by (simp add: stored_kept [OF k1 assms(12)] chosen_identified)
  moreover have "distinct (n_Channels ?n)" by (simp add: Normalize_def uniqueChannels_eq distinct_uniqueStrings)
  moreover have "pg_inv (ws_pg w1)" by (rule kept_inv [OF k1 assms(11,6)])
  ultimately have "in_inbox X ?n r w'"
    using dispatch_events_delivered [OF assms(1-5), of ?n "uniqueStrings (n_Recipients n)" w1 r] run assms(8,9)
      kept_others [OF k1 assms(11)] preferences_rest_kept [OF k1 assms(12)] by simp
  with n' show ?thesis by blast
qed

text \<open>
  The service end to end: with the registry built from the configuration, a dispatch that returns
  nil has put the notification into the inbox rows of every recipient the message names whose site
  channel is chosen by his stored preferences, whatever the other users of the database do meanwhile but
  edit these preferences; no delivery that was there before is lost, and no preference changed
  but by the others. What a consumer acknowledges after a nil dispatch is therefore in the database.
\<close>

theorem dispatch_reaches_inbox:
  assumes "buildProviders D cfg = Inr reg" and "live_deps X R D" and "sc_Enabled (pc_Site (c_Providers cfg))"
    and "pg_inv (ws_pg (world s))"
    and "Dispatch uuid_ok \<lparr>dp_store = on_pg_store (pg_store X), dp_providers = Some reg\<rparr> (Some n) s = ((None, Some n'), s')"
    and "r \<in> set (uniqueStrings (n_Recipients n))"
    and "chosen (stored_preferences X r (world s)) (Normalize n) ChannelSite"
    and "by_operations X (world s)" and "preferences_rest X r (world s)"
  shows "\<exists>k u. uuid_cast X (n_ID n') = Some k \<and> uuid_cast X r = Some u
     \<and> find_delivery k u (ws_pg (world s')) \<noteq> None
     \<and> (\<forall>k u. find_delivery k u (ws_pg (world s)) \<noteq> None \<longrightarrow> find_delivery k u (ws_pg (world s')) \<noteq> None)
     \<and> (\<forall>q. preferences_rest X q (world s) \<longrightarrow> stored_preferences X q (world s') = stored_preferences X q (world s))"
proof -
  let ?d = "\<lparr>dp_store = on_pg_store (pg_store X), dp_providers = Some reg\<rparr>"
  obtain p where p: "registry_Get (Some reg) ChannelSite = Some (site_provider (wd_time D) p)"
    "si_store p = pg_writer X" "si_redis p = map_option recording_redis (Some R)"
    using built_providers(2) [OF assms(1-3)] by blast
  obtain x np' w where spec: "dispatch_spec uuid_ok ?d (Some n) (world s) = (x, np', w)" by (metis prod.exhaust)
  with assms(5) obtain evs where evs: "x = Inr evs" "join_failures evs None = None" "np' = Some n'" "world s' = w"
    by (auto simp: Dispatch_events after_events_simps split: sum.splits)
  have "list_all event_ok evs"
    using evs(2) by (simp add: join_failures_def fold_join_None_iff failures_Nil_iff)
  then have "list_all site_reached evs"
    by (rule list.pred_mono_strong) (auto simp: event_ok_def site_reached_def split: event.splits)
  then have "in_inbox X n' r (world s')"
    using dispatch_delivers [where d = ?d, OF _ _ _ p(2,3) assms(4) spec [unfolded evs(1)] _ assms(6-9)]
      built_providers(1) [OF assms(1,2)] p(1) evs(3,4) by auto
  moreover have "kept X (world s) (world s')"
    unfolding evs(4) by (rule dispatch_spec_kept [OF _ _ spec]) (simp_all add: built_providers(1) [OF assms(1,2)])
  ultimately show ?thesis
    unfolding in_inbox_def using kept_found [OF _ assms(8)] stored_kept by blast
qed

definition sample_deps :: "services deps" where
  "sample_deps = \<lparr>wd_writer = pg_writer sample_server, wd_redis = recording_redis (\<lambda>c p. None),
     wd_http = (\<lambda>req w. (Inl (Sentinel ''down''), w)), wd_subscriptions = live_subscriptions sample_server,
     wd_push = (\<lambda>client payload sub opts w. (Inr None, w)), wd_time = (\<lambda>t. Some ''now''), wd_url_error = (\<lambda>u. None)\<rparr>"

definition live_config :: config where
  "live_config = sample_config\<lparr>c_Redis := \<lparr>rd_URL = ''redis:'', rd_Prefix = ''n:''\<rparr>,
     c_Providers := (c_Providers sample_config)\<lparr>pc_Site := \<lparr>sc_Enabled = True, sc_DefaultTarget = [], sc_Targets = []\<rparr>,
       pc_Telegram := (pc_Telegram (c_Providers sample_config))\<lparr>tc_Enabled := False\<rparr>\<rparr>\<rparr>"

definition live_registry :: "services registry" where
  "live_registry = (case buildProviders sample_deps live_config of Inr reg \<Rightarrow> reg | Inl _ \<Rightarrow> [])"

text \<open>Meanwhile a user marks an item as read, and another consumer stores a notification.\<close>

definition sample_others :: "pg_op list" where
  "sample_others = [ReadItem ''R1'' ''A1'', StoreNotification (Some (zero_notification\<lparr>n_ID := ''B2''\<rparr>))]"

definition live_env :: "services env" where
  "live_env = \<lparr>world = \<lparr>ws_pg = sample_pg, ws_published = [], ws_others = map (pg_effect sample_server) sample_others\<rparr>,
     providerSends = [], providerErrors = []\<rparr>"

lemma others_do_effects:
  "ws_others w = map (pg_effect X) ops \<Longrightarrow> list_all (\<lambda>op. C op \<and> (\<forall>s. op_enabled op s)) ops \<Longrightarrow> others_do X C w"
  by (auto simp: others_do_def list_all_iff intro: does_op)

lemma live_others: "list_all C sample_others \<Longrightarrow> others_do sample_server C (world live_env)"
  by (rule others_do_effects [of _ _ sample_others]) (auto simp: live_env_def sample_others_def)

lemma live_by_operations: "by_operations sample_server (world live_env)"
  by (rule live_others) (simp add: list_all_iff)

lemma live_rest: "preferences_rest sample_server r (world live_env)"
  unfolding preferences_rest_def by (auto intro!: live_others simp: sample_others_def sets_preference_def)

lemma live_registry: "buildProviders sample_deps live_config = Inr live_registry"
proof -
  have "\<exists>reg. buildProviders sample_deps live_config = Inr reg"
    by (simp add: buildProviders_def Let_def live_config_def sample_config_def site_New_def EffectiveTargets_def)
  then show ?thesis by (auto simp: live_registry_def)
qed

lemma live_dispatch_nil:
  "fst (Dispatch (\<lambda>_. True) \<lparr>dp_store = on_pg_store (pg_store sample_server), dp_providers = Some live_registry\<rparr>
      (Some sample_message) live_env)
   = (None, Some ((Normalize sample_message)\<lparr>n_ID := ''a1'', n_CreatedAt := 5\<rparr>))"
  by code_simp

theorem dispatch_reaches_inbox_witness:
  "find_delivery ''a1'' ''r2'' (ws_pg (world live_env)) = None
   \<and> find_delivery ''a1'' ''r2'' (ws_pg (world (snd (Dispatch (\<lambda>_. True)
       \<lparr>dp_store = on_pg_store (pg_store sample_server), dp_providers = Some live_registry\<rparr> (Some sample_message) live_env)))) \<noteq> None"
proof -
  let ?d = "\<lparr>dp_store = on_pg_store (pg_store sample_server), dp_providers = Some live_registry\<rparr>"
  let ?n = "(Normalize sample_message)\<lparr>n_ID := ''a1'', n_CreatedAt := 5\<rparr>"
  have deps: "live_deps sample_server (\<lambda>c p. None) sample_deps" by (simp add: live_deps_def sample_deps_def)
  have site: "sc_Enabled (pc_Site (c_Providers live_config))" by (simp add: live_config_def)
  have pg: "pg_inv (ws_pg (world live_env))" using sample_inbox(1) by (simp add: live_env_def)
  have run: "Dispatch (\<lambda>_. True) ?d (Some sample_message) live_env
      = ((None, Some ?n), snd (Dispatch (\<lambda>_. True) ?d (Some sample_message) live_env))"
    using live_dispatch_nil by (metis prod.collapse)
  have r: "''r2'' \<in> set (uniqueStrings (n_Recipients sample_message))"
    and ch: "chosen (stored_preferences sample_server ''r2'' (world live_env)) (Normalize sample_message) ChannelSite"
    and cast: "uuid_cast sample_server ''a1'' = Some ''a1''" "uuid_cast sample_server ''r2'' = Some ''r2''"
    and old: "find_delivery ''a1'' ''r2'' (ws_pg (world live_env)) = None"
    by code_simp+
  from dispatch_reaches_inbox [OF live_registry deps site pg run r ch live_by_operations live_rest] cast old show ?thesis by auto
qed

end
