(* ===== verification/ConsumerProps.thy ===== *)
theory ConsumerProps
  imports Consumer ConfigProps
begin

text \<open>
  What the consumer guarantees: which messages it treats as poison, that it settles every delivery of
  a batch exactly once and how, that a session loses and repeats no delivery; and two consequences
  of the code that its names and comments do not suggest: a failing message is requeued without
  end, and the delay between sessions is never reset.
\<close>

section \<open>Decoding\<close>

definition decodable :: "int \<Rightarrow> amqp_delivery \<Rightarrow> bool" where
  "decodable m d \<longleftrightarrow> \<not> too_often m d \<and> unmarshal_notification (dl_Body d) \<noteq> None"

definition decode_labels :: "int \<Rightarrow> amqp_delivery list \<Rightarrow> string list" where
  "decode_labels m ds = map (\<lambda>d. if too_often m d then ''dlq'' else ''decode_error'') (filter (\<lambda>d. \<not> decodable m d) ds)"

lemma decodeBatch_spec:
  "decodeBatch m ds s =
     ((map (\<lambda>d. the (unmarshal_notification (dl_Body d))) (filter (decodable m) ds),
       filter (decodable m) ds, filter (\<lambda>d. \<not> decodable m d) ds),
      s\<lparr>cs_errors := cs_errors s @ decode_labels m ds\<rparr>)"
proof (induction ds arbitrary: s)
  case Nil
  then show ?case by (simp add: decode_labels_def)
next
  case (Cons d ds)
  then show ?case
    by (auto simp: decodable_def decode_labels_def count_error_def split: option.split)
qed

section \<open>Settling\<close>

definition ack_tag :: "ack_call \<Rightarrow> nat" where
  "ack_tag c = (case c of Ack t _ \<Rightarrow> t | Nack t _ _ \<Rightarrow> t)"

definition dead_letter :: "amqp_delivery \<Rightarrow> ack_call" where
  "dead_letter d = Nack (dl_DeliveryTag d) False False"

definition settlement :: "error \<Rightarrow> amqp_delivery \<Rightarrow> ack_call" where
  "settlement err d =
     (if err = None \<or> IsPermanentChannelOnly err ChannelWebPush then Ack (dl_DeliveryTag d) False
      else Nack (dl_DeliveryTag d) False True)"

fun dispatch_all ::
  "(string \<Rightarrow> bool) \<Rightarrow> 'w dispatcher \<Rightarrow> notification list \<Rightarrow> 'w env \<Rightarrow> error list \<times> 'w env" where
  "dispatch_all uuid_ok d [] e = ([], e)"
| "dispatch_all uuid_ok d (n # ns) e =
     (case Dispatch uuid_ok d (Some n) e of
        ((err, _), e1) \<Rightarrow> (case dispatch_all uuid_ok d ns e1 of (errs, e2) \<Rightarrow> (err # errs, e2)))"

lemma length_dispatch_all [simp]: "length (fst (dispatch_all uuid_ok d ns e)) = length ns"
  by (induction ns arbitrary: e) (simp_all add: case_prod_beta)

lemma settle_one_spec:
  "cs_calls (settle_one uuid_ok d n dl s) = cs_calls s @ [settlement (fst (fst (Dispatch uuid_ok d (Some n) (cs_env s)))) dl]"
  "cs_env (settle_one uuid_ok d n dl s) = snd (Dispatch uuid_ok d (Some n) (cs_env s))"
  by (auto simp: settle_one_def settlement_def shouldAckAfterDispatchError_def call_def count_error_def Let_def
      split: prod.split)

lemma dispatch_loop_spec:
  assumes "length ns = length good"
  shows "cs_calls (dispatch_loop uuid_ok d (zip ns good) s)
       = cs_calls s @ map2 settlement (fst (dispatch_all uuid_ok d ns (cs_env s))) good
     \<and> cs_env (dispatch_loop uuid_ok d (zip ns good) s) = snd (dispatch_all uuid_ok d ns (cs_env s))"
  using assms
proof (induction ns good arbitrary: s rule: list_induct2)
  case (Cons n ns g gs)
  then show ?case by (simp add: settle_one_spec case_prod_beta)
qed simp

lemma calls_of_nacks:
  "cs_calls (fold (\<lambda>p. call (Nack (dl_DeliveryTag p) False False)) ps s) = cs_calls s @ map dead_letter ps
   \<and> cs_env (fold (\<lambda>p. call (Nack (dl_DeliveryTag p) False False)) ps s) = cs_env s"
  by (induction ps arbitrary: s) (simp_all add: call_def dead_letter_def)

lemma process_batch_calls:
  "cs_calls (process_batch uuid_ok d m ds s) = cs_calls s
     @ map dead_letter (filter (\<lambda>d. \<not> decodable m d) ds)
     @ map2 settlement
         (fst (dispatch_all uuid_ok d (map (\<lambda>d. the (unmarshal_notification (dl_Body d))) (filter (decodable m) ds)) (cs_env s)))
         (filter (decodable m) ds)"
  by (simp add: process_batch_def decodeBatch_spec Let_def calls_of_nacks dispatch_loop_spec)

text \<open>
  C12: how a batch is settled: first each poison message (delivered too often, or not decodable) is
  sent to the dead-letter queue, then each other message, in order, is dispatched and acknowledged
  when its dispatch returned nil or failed permanently on web push only, and requeued otherwise.
\<close>

theorem batch_settlement:
  "cs_calls (process_batch uuid_ok d m ds s) = cs_calls s
     @ map dead_letter (filter (\<lambda>d. \<not> decodable m d) ds)
     @ map2 settlement
         (fst (dispatch_all uuid_ok d (map (\<lambda>d. the (unmarshal_notification (dl_Body d))) (filter (decodable m) ds)) (cs_env s)))
         (filter (decodable m) ds)"
  by (rule process_batch_calls)

lemma tags_of_settlement: "length errs = length ds \<Longrightarrow> map ack_tag (map2 settlement errs ds) = map dl_DeliveryTag ds"
  by (induction errs ds rule: list_induct2) (simp_all add: ack_tag_def settlement_def)

lemma process_batch_settles:
  obtains calls where "cs_calls (process_batch uuid_ok d m ds s) = cs_calls s @ calls"
    "mset (map ack_tag calls) = mset (map dl_DeliveryTag ds)"
proof -
  let ?errs = "fst (dispatch_all uuid_ok d (map (\<lambda>d. the (unmarshal_notification (dl_Body d))) (filter (decodable m) ds)) (cs_env s))"
  let ?calls = "map dead_letter (filter (\<lambda>d. \<not> decodable m d) ds) @ map2 settlement ?errs (filter (decodable m) ds)"
  have dead: "map ack_tag (map dead_letter xs) = map dl_DeliveryTag xs" for xs
    by (simp add: dead_letter_def ack_tag_def)
  have "mset (map ack_tag ?calls) = mset (map dl_DeliveryTag (filter (\<lambda>d. \<not> decodable m d) ds @ filter (decodable m) ds))"
    unfolding map_append dead by (subst tags_of_settlement) simp_all
  also have "\<dots> = mset (map dl_DeliveryTag ds)"
    by (metis image_mset_union mset_append mset_filter mset_map multiset_partition union_commute)
  finally show thesis using that [of ?calls] process_batch_calls [of uuid_ok d m ds s] by simp
qed

section \<open>Sessions\<close>

text \<open>
  How a schedule is cut into batches: a batch is open from its first delivery until it has \<open>k\<close>
  deliveries or the timer fires; the end of the channel or of the context ends the session and cuts
  the open batch short. The result is the batches, the deliveries cut off, the reason and the
  rest of the schedule; \<open>None\<close> when nothing ends the session.
\<close>

fun cut ::
  "int \<Rightarrow> amqp_delivery list \<Rightarrow> queue_event list
     \<Rightarrow> (amqp_delivery list list \<times> amqp_delivery list \<times> goerr \<times> queue_event list) option" where
  "cut k batch [] = None"
| "cut k batch (Deliver d # evs) =
     (if int (length batch) + 1 < k then cut k (batch @ [d]) evs
      else map_option (apfst (Cons (batch @ [d]))) (cut k [] evs))"
| "cut k batch (TimerFired # evs) =
     (if batch = [] then cut k [] evs else map_option (apfst (Cons batch)) (cut k [] evs))"
| "cut k batch (DeliveriesClosed # evs) = Some ([], batch, deliveries_closed, evs)"
| "cut k batch (CtxDone e # evs) = Some ([], batch, e, evs)"

text \<open>A flush interval that is not positive closes every batch at its first delivery.\<close>

definition batch_limit :: "consumer_config \<Rightarrow> int" where
  "batch_limit ccfg = (if co_FlushInterval ccfg \<le> 0 then 1 else co_BatchSize ccfg)"

lemma cut_conserves:
  "cut k batch evs = Some (bs, left, e, rest) \<Longrightarrow> int (length batch) < k \<Longrightarrow>
     batch @ delivered evs = concat bs @ left @ delivered rest \<and> int (length left) < k
     \<and> list_all (\<lambda>b. b \<noteq> [] \<and> int (length b) \<le> k) bs"
  by (induction k batch evs arbitrary: bs rule: cut.induct) (fastforce split: if_splits)+

lemma collect_loop_cut:
  "int (length batch) < k \<Longrightarrow> batch \<noteq> [] \<Longrightarrow>
     cut k batch evs = (case collect_loop k batch evs of
         None \<Rightarrow> None
       | Some ((b, None), rest) \<Rightarrow> map_option (apfst (Cons b)) (cut k [] rest)
       | Some ((b, Some e), rest) \<Rightarrow> Some ([], b, e, rest))"
proof (induction k batch evs rule: collect_loop.induct)
  case (2 k batch ev evs)
  show ?case
  proof (cases ev)
    case (Deliver d)
    show ?thesis
    proof (cases "int (length batch) + 1 < k")
      case True
      then show ?thesis using 2 Deliver by simp
    next
      case False
      then have "collect_loop k (batch @ [d]) evs = Some ((batch @ [d], None), evs)" by (cases evs) simp_all
      then show ?thesis using 2(2) Deliver False by simp
    qed
  qed (use 2 in simp_all)
qed simp

lemma CollectBatch_cut:
  assumes "1 \<le> co_BatchSize ccfg"
  shows "cut (batch_limit ccfg) [] evs = (case CollectBatch (co_BatchSize ccfg) (co_FlushInterval ccfg) evs of
       None \<Rightarrow> None
     | Some ((b, None), rest) \<Rightarrow> map_option (apfst (Cons b)) (cut (batch_limit ccfg) [] rest)
     | Some ((b, Some e), rest) \<Rightarrow> Some ([], b, e, rest))"
proof (induction evs)
  case (Cons ev evs)
  have "1 \<le> batch_limit ccfg" using assms by (simp add: batch_limit_def)
  then show ?case
    using Cons assms collect_loop_cut [of "[d]" "batch_limit ccfg" evs for d]
    by (cases ev) (auto simp: CollectBatch_def Let_def batch_limit_def split: if_splits)
qed (use assms in \<open>simp add: CollectBatch_def\<close>)

text \<open>The loop of a session processes exactly these batches, in order.\<close>

lemma session_loop_cut:
  assumes "1 \<le> co_BatchSize ccfg"
  shows "session_loop uuid_ok d ccfg evs s = (case cut (batch_limit ccfg) [] evs of
       None \<Rightarrow> None
     | Some (bs, left, e, rest) \<Rightarrow> Some (e, fold (process_batch uuid_ok d (co_MaxRedeliveries ccfg)) bs s, rest))"
proof (induction "length evs" arbitrary: evs s rule: less_induct)
  case (less evs s)
  let ?P = "process_batch uuid_ok d (co_MaxRedeliveries ccfg)"
  show ?case
  proof (cases "\<exists>e rest. evs = CtxDone e # rest")
    case True
    then show ?thesis by (auto simp: session_loop.simps)
  next
    case False
    have loop: "session_loop uuid_ok d ccfg evs s =
        (case CollectBatch (co_BatchSize ccfg) (co_FlushInterval ccfg) evs of
           None \<Rightarrow> None
         | Some ((ds, Some x), r) \<Rightarrow> Some (x, s, r)
         | Some ((ds, None), r) \<Rightarrow> session_loop uuid_ok d ccfg r (if length ds = 0 then s else ?P ds s))"
      using False by (subst session_loop.simps) (auto split: list.split queue_event.split)
    show ?thesis
    proof (cases "CollectBatch (co_BatchSize ccfg) (co_FlushInterval ccfg) evs")
      case None
      then show ?thesis by (simp add: loop CollectBatch_cut [OF assms])
    next
      case (Some y)
      obtain ds x r where cb: "CollectBatch (co_BatchSize ccfg) (co_FlushInterval ccfg) evs = Some ((ds, x), r)"
        using Some by (cases y) auto
      show ?thesis
      proof (cases x)
        case None
        then have "ds \<noteq> []" "length r < length evs"
          using CollectBatch_conserves [OF cb] CollectBatch_shrinks cb by auto
        then show ?thesis
          using less.hyps [of r "?P ds s"] None cb
          by (auto simp: loop CollectBatch_cut [OF assms] split: option.split)
      qed (simp add: loop CollectBatch_cut [OF assms] cb)
    qed
  qed
qed

lemma batches_settle:
  obtains calls where "cs_calls (fold (process_batch uuid_ok d m) bs s) = cs_calls s @ concat calls"
    "list_all2 (\<lambda>b cs. mset (map ack_tag cs) = mset (map dl_DeliveryTag b)) bs calls"
proof (induction bs arbitrary: s thesis)
  case (Cons b bs)
  obtain cs where "cs_calls (process_batch uuid_ok d m b s) = cs_calls s @ cs"
    "mset (map ack_tag cs) = mset (map dl_DeliveryTag b)" by (rule process_batch_settles)
  moreover obtain calls where "cs_calls (fold (process_batch uuid_ok d m) bs (process_batch uuid_ok d m b s))
      = cs_calls (process_batch uuid_ok d m b s) @ concat calls"
    "list_all2 (\<lambda>b cs. mset (map ack_tag cs) = mset (map dl_DeliveryTag b)) bs calls" by (rule Cons.IH)
  ultimately show ?case by (intro Cons.prems [of "cs # calls"]) simp_all
qed simp

text \<open>
  C13: a session settles what it takes, once, batch by batch: it ends exactly when its schedule does, with
  the error of the event that ends it. Every delivery of every batch that was complete by then is
  settled exactly once, batch after batch; only the deliveries of the batch that was still open,
  fewer than the batch size, are left to the broker. A session that cannot be opened takes nothing.
\<close>

theorem session_settles_once:
  assumes "1 \<le> co_BatchSize ccfg"
  shows "case fst (OpenConsumerSession Q (session_queue ccfg) (world (cs_env s))) of
       Inl e \<Rightarrow> \<exists>s'. runSession uuid_ok Q d ccfg evs s = Some (Some e, s', evs) \<and> cs_calls s' = cs_calls s
     | Inr ch \<Rightarrow>
         (case cut (batch_limit ccfg) [] evs of
            None \<Rightarrow> runSession uuid_ok Q d ccfg evs s = None
          | Some (bs, open_batch, e, rest) \<Rightarrow>
              delivered evs = concat bs @ open_batch @ delivered rest \<and> int (length open_batch) < batch_limit ccfg
              \<and> (\<exists>s' calls. runSession uuid_ok Q d ccfg evs s = Some (Some e, s', rest)
                   \<and> cs_calls s' = cs_calls s @ concat calls
                   \<and> list_all2 (\<lambda>b cs. mset (map ack_tag cs) = mset (map dl_DeliveryTag b)) bs calls))"
proof -
  obtain x env1 where opened: "in_world (OpenConsumerSession Q (session_queue ccfg)) (cs_env s) = (x, env1)"
    by fastforce
  then have fst: "fst (OpenConsumerSession Q (session_queue ccfg) (world (cs_env s))) = x"
    by (auto simp: in_world_def split: prod.splits)
  show ?thesis
  proof (cases x)
    case (Inl e)
    then show ?thesis using opened fst by (simp add: runSession_def)
  next
    case (Inr ch)
    show ?thesis
    proof (cases "cut (batch_limit ccfg) [] evs")
      case None
      then show ?thesis using opened fst Inr by (simp add: runSession_def session_loop_cut [OF assms])
    next
      case (Some y)
      obtain bs left e rest where c: "cut (batch_limit ccfg) [] evs = Some (bs, left, e, rest)"
        using Some by (metis prod_cases4)
      have "0 < batch_limit ccfg" using assms by (simp add: batch_limit_def)
      then have "delivered evs = concat bs @ left @ delivered rest" "int (length left) < batch_limit ccfg"
        using cut_conserves [OF c] by simp_all
      moreover obtain calls where
        "cs_calls (fold (process_batch uuid_ok d (co_MaxRedeliveries ccfg)) bs (s\<lparr>cs_env := env1\<rparr>)) = cs_calls s @ concat calls"
        "list_all2 (\<lambda>b cs. mset (map ack_tag cs) = mset (map dl_DeliveryTag b)) bs calls"
        using batches_settle [of uuid_ok d "co_MaxRedeliveries ccfg" bs "s\<lparr>cs_env := env1\<rparr>"] by auto
      ultimately show ?thesis
        using opened fst Inr c by (auto simp: runSession_def session_loop_cut [OF assms])
    qed
  qed
qed

lemma runSession_error: "runSession uuid_ok Q d ccfg evs s = Some (err, s', rest) \<Longrightarrow> err \<noteq> None"
  by (auto simp: runSession_def split: prod.splits sum.splits option.splits)

lemma Run_loop_backoff:
  assumes "0 < b" and "b \<le> 30 * second"
    and "list_all (\<lambda>se. se_err se \<noteq> None \<and> \<not> se_ctx_done se \<and> \<not> se_ctx_done_waiting se
            \<and> \<not> errors_is (the (se_err se)) context_Canceled) ends"
  shows "Run_loop b ends = map (\<lambda>k. min (2 ^ k * b) (30 * second)) [0..<length ends]"
  using assms
proof (induction ends arbitrary: b)
  case (Cons se ends)
  let ?b' = "min (2 * b) (30 * second)"
  have nb: "next_backoff (30 * second) b = ?b'"
    using Cons.prems by (intro next_backoff_bounds) (auto simp: second_def)
  have "0 < ?b'" using Cons.prems by (auto simp: second_def)
  then have "Run_loop ?b' ends = map (\<lambda>k. min (2 ^ k * ?b') (30 * second)) [0..<length ends]"
    using Cons by (intro Cons.IH) auto
  also have "\<dots> = map (\<lambda>k. min (2 ^ Suc k * b) (30 * second)) [0..<length ends]"
    by (intro map_cong refl min_doubled) (simp add: second_def)
  finally have "Run_loop ?b' ends = map (\<lambda>k. min (2 ^ Suc k * b) (30 * second)) [0..<length ends]" .
  moreover have "map f [0..<length (se # ends)] = f 0 # map (\<lambda>k. f (Suc k)) [0..<length ends]" for f :: "nat \<Rightarrow> int"
    by (simp add: upt_conv_Cons map_Suc_upt [symmetric] o_def del: upt_Suc)
  ultimately show ?case
    using Cons.prems nb by (auto simp del: upt_Suc)
qed simp

text \<open>
  C39: \<open>runSession\<close> never returns nil, so the branch of \<open>Run\<close> that resets the delay is never taken:
  whatever errors the sessions ended with, in a service that is not shutting down the consumer
  waits \<open>2^k\<close> seconds, at most 30, before the k-th restart, however long and successful the
  sessions in between were.
\<close>

theorem session_backoff_never_reset:
  assumes "\<And>se. se \<in> set ends \<Longrightarrow> (\<exists>evs s s' rest. runSession uuid_ok Q d ccfg evs s = Some (se_err se, s', rest))
      \<and> \<not> se_ctx_done se \<and> \<not> se_ctx_done_waiting se
      \<and> (\<forall>e. se_err se = Some e \<longrightarrow> \<not> errors_is e context_Canceled)"
  shows "Run ends = map (\<lambda>k. min (2 ^ k * second) (30 * second)) [0..<length ends]"
proof -
  have "list_all (\<lambda>se. se_err se \<noteq> None \<and> \<not> se_ctx_done se \<and> \<not> se_ctx_done_waiting se
            \<and> \<not> errors_is (the (se_err se)) context_Canceled) ends"
    unfolding list_all_iff
  proof
    fix se assume se: "se \<in> set ends"
    then obtain e where "se_err se = Some e" using assms runSession_error by blast
    with assms [OF se] show "se_err se \<noteq> None \<and> \<not> se_ctx_done se \<and> \<not> se_ctx_done_waiting se
        \<and> \<not> errors_is (the (se_err se)) context_Canceled" by simp
  qed
  then show ?thesis unfolding Run_def by (intro Run_loop_backoff) (simp_all add: second_def)
qed

section \<open>Redelivery\<close>

text \<open>
  What the broker does with a message that is negatively acknowledged with requeue: it delivers it again
  with the flag \<open>redelivered\<close> set and the headers as they were. (The header \<open>x-death\<close> is only written
  when a message is dead-lettered.)
\<close>

definition requeued :: "amqp_delivery \<Rightarrow> amqp_delivery" where
  "requeued d = d\<lparr>dl_Redelivered := True\<rparr>"

lemma requeued_power: "(requeued ^^ k) d = (if k = 0 then d else requeued d)"
  by (induction k) (auto simp: requeued_def)

text \<open>
  C40: with a limit of two or more redeliveries (the default is three) a decodable message that has never
  been dead-lettered does not reach the limit however often it has been requeued: it is dispatched
  again each time, and while its dispatch fails it is requeued each time.
\<close>

theorem redelivery_limit_ineffective:
  assumes "go_get (dl_Headers m) ''x-death'' = None" and "2 \<le> limit"
    and "unmarshal_notification (dl_Body m) = Some n"
    and "fst (fst (Dispatch uuid_ok d (Some n) (cs_env s))) = Some e"
    and "\<not> IsPermanentChannelOnly (Some e) ChannelWebPush"
  shows "cs_calls (process_batch uuid_ok d limit [(requeued ^^ k) m] s)
     = cs_calls s @ [Nack (dl_DeliveryTag m) False True]"
proof -
  have "deathCount ((requeued ^^ k) m) \<le> 1"
    using assms(1) by (simp add: requeued_power requeued_def deathCount_def)
  then have dec: "decodable limit ((requeued ^^ k) m)"
    using assms(2,3) by (simp add: decodable_def too_often_def requeued_power requeued_def)
  have body: "unmarshal_notification (dl_Body ((requeued ^^ k) m)) = Some n"
    using assms(3) by (simp add: requeued_power requeued_def)
  obtain np env where dis: "Dispatch uuid_ok d (Some n) (cs_env s) = ((Some e, np), env)"
    using assms(4) by (metis prod.collapse)
  have tag: "dl_DeliveryTag ((requeued ^^ k) m) = dl_DeliveryTag m"
    by (simp add: requeued_power requeued_def)
  show ?thesis
    using assms(5) by (simp add: process_batch_calls dec body dis tag settlement_def)
qed

definition sample_state :: "(string \<times> string) list consumer_state" where
  "sample_state = \<lparr>cs_env = \<lparr>world = [], providerSends = [], providerErrors = []\<rparr>, cs_calls = [],
     cs_errors = [], cs_seen = 0, cs_batches = []\<rparr>"

definition down_dispatcher :: "(string \<times> string) list dispatcher" where
  "down_dispatcher = sample_dispatcher (Some (Sentinel ''down''))"

lemma sample_message_decodes:
  "unmarshal_notification (marshal_notification sample_message) = Some sample_message"
proof -
  have "utf8_notification sample_message" by code_simp
  then have "unmarshal_notification (marshal_notification sample_message)
      = Some (sample_message\<lparr>n_Metadata := sort_key fst (n_Metadata sample_message), n_CreatedAt := 0\<rparr>)"
    by (rule unmarshal_marshal_notification) (simp add: sample_message_def zero_notification_def)
  then show ?thesis by (simp add: sample_message_def zero_notification_def)
qed

lemma sample_down:
  "fst (fst (Dispatch (\<lambda>_. True) down_dispatcher (Some sample_message) \<lparr>world = [], providerSends = [], providerErrors = []\<rparr>))
     = Some (Joined [Joined [Wrapf ''%s send to %s: %w'' [AStr ''site'', AStr ''r1''] (Sentinel ''down'')],
                     Wrapf ''%s send to %s: %w'' [AStr ''site'', AStr ''r2''] (Sentinel ''down'')])"
  by code_simp

theorem redelivery_limit_ineffective_witness:
  "cs_calls (process_batch (\<lambda>_. True) down_dispatcher 3
      [(requeued ^^ 1000) (sample_delivery 7 (marshal_notification sample_message))] sample_state)
     = [Nack 7 False True]"
proof -
  let ?m = "sample_delivery 7 (marshal_notification sample_message)"
  have env: "cs_env sample_state = \<lparr>world = [], providerSends = [], providerErrors = []\<rparr>" "cs_calls sample_state = []"
    by (simp_all add: sample_state_def)
  have m: "go_get (dl_Headers ?m) ''x-death'' = None" "dl_DeliveryTag ?m = 7"
      "unmarshal_notification (dl_Body ?m) = Some sample_message"
    by (simp_all add: sample_delivery_def sample_message_decodes)
  have "cs_calls (process_batch (\<lambda>_. True) down_dispatcher 3 [(requeued ^^ 1000) ?m] sample_state)
      = cs_calls sample_state @ [Nack (dl_DeliveryTag ?m) False True]"
    by (rule redelivery_limit_ineffective [OF m(1) _ m(3) sample_down [folded env(1)]]) simp_all
  then show ?thesis by (simp only: env m append_Nil)
qed

definition quiet_amqp :: "'w amqp" where
  "quiet_amqp = \<lparr>aq_Channel = (\<lambda>w. (Inr 1, w)), aq_Close = (\<lambda>ch w. (None, w)), aq_Confirm = (\<lambda>ch w. (None, w)),
     aq_Publish = (\<lambda>ch m w. (None, w)), aq_AwaitConfirm = (\<lambda>ch w. (Confirmed True, w)),
     aq_QueueDeclare = (\<lambda>ch q dur args w. (None, w)), aq_Qos = (\<lambda>ch k w. (None, w)),
     aq_Consume = (\<lambda>ch q w. (None, w)), aq_trace_headers = (\<lambda>w. [])\<rparr>"

definition sample_schedule :: "queue_event list" where
  "sample_schedule = [Deliver (sample_delivery 1 ''x''), TimerFired, Deliver (sample_delivery 2 ''y''), DeliveriesClosed]"

theorem session_settles_once_witness:
  "\<exists>s'. runSession (\<lambda>_. True) quiet_amqp down_dispatcher (default_consumer (c_Consumer sample_config))
        sample_schedule sample_state = Some (Some deliveries_closed, s', [])
     \<and> mset (map ack_tag (cs_calls s')) = {#1#}"
proof -
  let ?c = "default_consumer (c_Consumer sample_config)"
  have opened: "fst (OpenConsumerSession quiet_amqp (session_queue ?c) (world (cs_env sample_state))) = Inr 1"
    by code_simp
  have c: "cut (batch_limit ?c) [] sample_schedule
      = Some ([[sample_delivery 1 ''x'']], [sample_delivery 2 ''y''], deliveries_closed, [])"
    by code_simp
  have "1 \<le> co_BatchSize ?c" "cs_calls sample_state = []" by code_simp+
  then show ?thesis
    using session_settles_once [where ccfg = ?c and Q = quiet_amqp and s = sample_state and uuid_ok = "\<lambda>_. True"
        and d = down_dispatcher and evs = sample_schedule]
    by (auto simp: opened c list_all2_Cons1 sample_delivery_def)
qed

text \<open>Sessions that a closed channel of deliveries ended, after a batch was settled.\<close>

lemma sample_session:
  "map_option (\<lambda>(err, s, rest). err)
     (runSession (\<lambda>_. True) quiet_amqp down_dispatcher (default_consumer (c_Consumer sample_config)) sample_schedule sample_state)
   = Some (Some deliveries_closed)"
  by code_simp

theorem session_backoff_never_reset_witness:
  "Run (replicate 7 \<lparr>se_err = Some deliveries_closed, se_ctx_done = False, se_ctx_done_waiting = False\<rparr>)
     = map (\<lambda>k. k * second) [1, 2, 4, 8, 16, 30, 30]"
proof -
  obtain s' rest where run: "runSession (\<lambda>_. True) quiet_amqp down_dispatcher (default_consumer (c_Consumer sample_config))
      sample_schedule sample_state = Some (Some deliveries_closed, s', rest)"
    using sample_session by (auto simp: map_option_case split: option.splits prod.splits)
  let ?se = "\<lparr>se_err = Some deliveries_closed, se_ctx_done = False, se_ctx_done_waiting = False\<rparr>"
  have "Run (replicate 7 ?se) = map (\<lambda>k. min (2 ^ k * second) (30 * second)) [0..<length (replicate 7 ?se)]"
    by (rule session_backoff_never_reset) (use run in \<open>auto simp: deliveries_closed_def context_Canceled_def\<close>)
  also have "\<dots> = map (\<lambda>k. k * second) [1, 2, 4, 8, 16, 30, 30]" by code_simp
  finally show ?thesis .
qed

end
