(* ===== verification/Settled.thy ===== *)
theory Settled
  imports Delivered ConsumerProps
begin

text \<open>
  The consumer over the whole service: what an acknowledgement means. A message is acknowledged when
  its dispatch returned nil, or failed permanently on web push only; in both cases every site send
  of it has succeeded, provided the database and Redis do not answer with the service's own
  permanent errors (\<open>plain\<close>), which no client library does.
\<close>

section \<open>Errors that are not the service's own\<close>

definition plain :: "goerr \<Rightarrow> bool" where
  "plain e \<longleftrightarrow> \<not> IsPermanentChannelOnly (Some e) ChannelWebPush"

definition plain_faults :: "pg_server \<Rightarrow> services \<Rightarrow> bool" where
  "plain_faults X w \<longleftrightarrow> (\<forall>e. Some e \<in> set (pg_faults (ws_pg w)) \<longrightarrow> plain e) \<and> others_do X (plain_outage plain) w"

definition plain_redis :: "(string \<Rightarrow> string \<Rightarrow> error) \<Rightarrow> bool" where
  "plain_redis R \<longleftrightarrow> (\<forall>c m e. R c m = Some e \<longrightarrow> plain e)"

lemma plain_simps [simp]: "plain (Wrapf f as e) = plain e" "plain (Errorf f as)" "plain (Sentinel t)"
  by (simp_all add: plain_def)

lemma plain_faults_kept: "kept X w w' \<Longrightarrow> plain_faults X w \<Longrightarrow> plain_faults X w'"
  unfolding plain_faults_def using kept_faults kept_others by blast

lemmas plain_faults_turn = plain_faults_kept [OF kept_turn]

lemma plain_run:
  assumes "plain_faults X w" and "pg_run stmt (ws_pg w) = (Inl e, s')" and "\<And>s e s'. stmt s = (Inl e, s') \<Longrightarrow> plain e"
  shows "plain e"
  using assms by (auto simp: plain_faults_def pg_run_def split: list.splits option.splits)

lemma plain_statements:
  "sql_get_preferences X r s = (Inl e, s') \<Longrightarrow> plain e"
  "sql_insert_delivery X i r s = (Inl e, s') \<Longrightarrow> plain e"
  "sql_upsert_notification X n s = (Inl e, s') \<Longrightarrow> plain e"
  by (auto simp: sql_get_preferences_def sql_insert_delivery_def sql_upsert_notification_def sql_error_def
      split: option.splits if_splits)

lemma plain_store:
  assumes "plain_faults X w"
  shows "fst (GetPreferences X r (ws_pg w)) = Inl e \<Longrightarrow> plain e"
    and "fst (InsertSiteDelivery X r (Some n) (ws_pg w)) = Inl e \<Longrightarrow> plain e"
    and "fst (fst (UpsertNotification X np (ws_pg w))) = Some e \<Longrightarrow> plain e"
    and "fst (ListTopicSubscribers X t (ws_pg w)) = Inl e \<Longrightarrow> plain e"
proof -
  show "fst (GetPreferences X r (ws_pg w)) = Inl e \<Longrightarrow> plain e"
    using plain_run [OF assms _ plain_statements(1)] by (auto simp: GetPreferences_def split: prod.splits sum.splits)
  show "fst (InsertSiteDelivery X r (Some n) (ws_pg w)) = Inl e \<Longrightarrow> plain e"
    using plain_run [OF assms _ plain_statements(2)] by (auto simp: InsertSiteDelivery_def split: prod.splits sum.splits)
  show "fst (fst (UpsertNotification X np (ws_pg w))) = Some e \<Longrightarrow> plain e"
    using plain_run [OF assms _ plain_statements(3)]
    by (auto simp: UpsertNotification_def split: option.splits prod.splits sum.splits)
  show "fst (ListTopicSubscribers X t (ws_pg w)) = Inl e \<Longrightarrow> plain e"
    using assms by (auto simp: ListTopicSubscribers_def plain_faults_def pg_run_def
        split: prod.splits sum.splits list.splits option.splits)
qed

lemma plain_site_Send:
  assumes "si_store p = pg_writer X" and "si_redis p = map_option recording_redis (Some R)"
    and "plain_faults X w" and "plain_redis R" and "fst (site_Send T p n r cfg w) = Some e"
  shows "plain e"
proof -
  have "plain e'" if "resolveTarget p n cfg = Inl e'" for e'
    using that by (auto simp: resolveTarget_def Let_def split: option.splits sum.splits if_splits)
  moreover have "plain e'" if "marshal_delivery T item = Inl e'" for item e'
    using that by (auto simp: marshal_delivery_def split: option.splits)
  ultimately show ?thesis
    using assms(4,5) plain_store(2) [OF plain_faults_turn [OF assms(3)], of r n]
    unfolding site_Send_pg [OF assms(1,2)]
    by (auto simp: Let_def plain_redis_def split: sum.splits option.splits)
qed

section \<open>The events of an acknowledged message\<close>

definition plain_event :: "event \<Rightarrow> bool" where
  "plain_event ev = (case ev of ResolveFailed r e \<Rightarrow> plain e
     | SendResult c r err \<Rightarrow> c = ChannelSite \<longrightarrow> (\<forall>e. err = Some e \<longrightarrow> plain e))"

lemma plain_event_simps [simp]:
  "plain_event (ResolveFailed r e) = plain e"
  "plain_event (SendResult c r err) \<longleftrightarrow> (c = ChannelSite \<longrightarrow> (\<forall>e. err = Some e \<longrightarrow> plain e))"
  by (simp_all add: plain_event_def)

lemma send_events_plain:
  assumes "providers_kept X (dp_providers d)"
    and "registry_Get (dp_providers d) ChannelSite = Some (site_provider T p)"
    and "si_store p = pg_writer X" "si_redis p = map_option recording_redis (Some R)" "plain_redis R"
  shows "plain_faults X w \<Longrightarrow> list_all plain_event (fst (send_events d n r ts w))"
proof (induction ts arbitrary: w)
  case (Cons t ts)
  show ?case
  proof (cases "registry_Get (dp_providers d) (rp_Channel t)")
    case (Some prov)
    obtain err w1 where send: "pv_Send prov n r (rp_Config t) w = (err, w1)" by fastforce
    have "kept X w w1" using providers_keptD [OF assms(1) Some, of w n r "rp_Config t"] send by simp
    then have "list_all plain_event (fst (send_events d n r ts w1))"
      by (rule Cons.IH [OF plain_faults_kept [OF _ Cons.prems]])
    moreover have "plain e" if "rp_Channel t = ChannelSite" "err = Some e" for e
      using plain_site_Send [OF assms(3,4) Cons.prems assms(5), of T n r "rp_Config t" e] that Some send assms(2)
      by (auto simp: site_provider_def)
    ultimately show ?thesis using Some send by (simp add: case_prod_beta Let_def)
  qed (simp add: Cons)
qed simp

lemma dispatch_events_plain:
  assumes kp: "providers_kept X (dp_providers d)" and st: "dp_store d = on_pg_store (pg_store X)"
    and site: "registry_Get (dp_providers d) ChannelSite = Some (site_provider T p)"
      "si_store p = pg_writer X" "si_redis p = map_option recording_redis (Some R)" "plain_redis R"
  shows "plain_faults X w \<Longrightarrow> list_all plain_event (fst (dispatch_events d n rs w))"
proof (induction rs arbitrary: w)
  case (Cons r rs)
  obtain x w1 where x: "resolveChannels d r n w = (x, w1)" by fastforce
  have w1: "plain_faults X w1"
    using plain_faults_kept [OF resolveChannels_kept [OF st] Cons.prems, of r n] x by simp
  show ?case
  proof (cases x)
    case (Inl e)
    have "plain e"
      using plain_store(1) [OF plain_faults_turn [OF Cons.prems], of r e] x Inl
      by (auto simp: resolveChannels_def st on_pg_store_def pg_store_def on_pg_eq split: prod.splits sum.splits)
    then show ?thesis using Cons.IH [OF w1] x Inl by (simp add: case_prod_beta Let_def)
  next
    case (Inr ts)
    have "plain_faults X (snd (send_events d n r ts w1))" by (rule plain_faults_kept [OF send_events_kept [OF kp] w1])
    from Cons.IH [OF this] send_events_plain [OF kp site w1, of n r ts] show ?thesis
      using x Inr by (simp add: case_prod_beta Let_def)
  qed
qed simp

lemma dispatch_spec_plain:
  assumes kp: "providers_kept X (dp_providers d)" and st: "dp_store d = on_pg_store (pg_store X)"
    and site: "registry_Get (dp_providers d) ChannelSite = Some (site_provider T p)"
      "si_store p = pg_writer X" "si_redis p = map_option recording_redis (Some R)" "plain_redis R"
    and pl: "plain_faults X w" and spec: "dispatch_spec uuid_ok d np w = (x, np', w')"
  shows "case x of Inl e \<Rightarrow> plain e | Inr evs \<Rightarrow> list_all plain_event evs"
proof (cases "acceptable_input uuid_ok np")
  case False
  then have "fst (ValidateNotification uuid_ok np) \<noteq> None"
    by (cases np) (auto simp: ValidateNotification_def validate_Normalize_iff acceptable_input_def)
  moreover have "plain e" if "fst (ValidateNotification uuid_ok np) = Some e" for e
    using that by (auto simp: ValidateNotification_def validate_fields_def split: option.splits if_splits)
  ultimately have "plain (the (fst (ValidateNotification uuid_ok np)))" by auto
  then show ?thesis using spec False by (auto simp: dispatch_spec_def)
next
  case True
  obtain y w1 where up: "sa_UpsertNotification (dp_store d) (map_option Normalize np) w = (y, w1)" by fastforce
  have w1: "plain_faults X w1"
    using plain_faults_kept [OF kept_upsert pl, of "map_option Normalize np"] up by (simp add: st on_pg_store_def pg_store_def)
  have e: "plain e" if "fst y = Some e" for e
    using plain_store(3) [OF plain_faults_turn [OF pl], of "map_option Normalize np" e] that up
    by (auto simp: st on_pg_store_def pg_store_def on_pg_eq)
  have rs: "case z of Inl e \<Rightarrow> plain e | Inr _ \<Rightarrow> plain_faults X w2" if "resolveRecipients d m w1 = (z, w2)" for m z w2
    using that w1 plain_store(4) [OF plain_faults_turn [OF w1], of "n_Topic m"] plain_faults_kept [OF kept_subscribers w1, of "n_Topic m"]
    by (auto simp: resolveRecipients_def st on_pg_store_def pg_store_def on_pg_eq split: if_splits prod.splits sum.splits)
  have ev: "list_all plain_event evs" if "dispatch_events d m r w2 = (evs, w3)" "plain_faults X w2" for m r w2 evs w3
    using dispatch_events_plain [OF kp st site that(2), of m r] that(1) by simp
  show ?thesis
    using spec True up e unfolding dispatch_spec_def
    by (auto split: option.splits prod.splits sum.splits dest!: rs dest: ev)
qed

section \<open>What an acknowledgement means\<close>

text \<open>The result of a dispatch for which the consumer acknowledges the message.\<close>

definition acknowledges :: "error \<Rightarrow> bool" where
  "acknowledges err \<longleftrightarrow> err = None \<or> IsPermanentChannelOnly err ChannelWebPush"

lemma acknowledged_events:
  assumes kp: "providers_kept X (dp_providers d)" and st: "dp_store d = on_pg_store (pg_store X)"
    and site: "registry_Get (dp_providers d) ChannelSite = Some (site_provider T p)"
      "si_store p = pg_writer X" "si_redis p = map_option recording_redis (Some R)" "plain_redis R"
    and pl: "plain_faults X (world s)" and ack: "acknowledges (fst (fst (Dispatch uuid_ok d np s)))"
  shows "\<exists>evs np' w. dispatch_spec uuid_ok d np (world s) = (Inr evs, np', w) \<and> list_all site_reached evs
     \<and> world (snd (Dispatch uuid_ok d np s)) = w"
proof -
  obtain x np' w where spec: "dispatch_spec uuid_ok d np (world s) = (x, np', w)" by (metis prod.exhaust)
  note plain = dispatch_spec_plain [OF kp st site pl spec]
  show ?thesis
  proof (cases x)
    case (Inl e)
    then show ?thesis using plain ack spec by (simp add: Dispatch_events acknowledges_def plain_def)
  next
    case (Inr evs)
    have "acknowledges (fold join_onto (failures evs) None)"
      using ack spec Inr by (simp add: Dispatch_events join_failures_def)
    then have "list_all (\<lambda>ev. event_ok ev \<or> event_permanent ChannelWebPush ev) evs"
      unfolding failures_permanent [symmetric] acknowledges_def fold_join_None_iff fold_join_permanent by (auto split: if_splits)
    with plain Inr have "list_all site_reached evs"
      by (auto simp: list_all_iff event_ok_def event_permanent_def plain_event_def site_reached_def plain_def
          split: event.splits) (metis not_Some_eq permanent_only_nil)+
    with spec Inr show ?thesis by (simp add: Dispatch_events after_events_simps)
  qed
qed

lemma Dispatch_kept:
  assumes "providers_kept X (dp_providers d)" and "dp_store d = on_pg_store (pg_store X)"
  shows "kept X (world s) (world (snd (Dispatch uuid_ok d np s)))"
proof -
  obtain x np' w where spec: "dispatch_spec uuid_ok d np (world s) = (x, np', w)" by (metis prod.exhaust)
  show ?thesis
    using dispatch_spec_kept [OF assms spec] spec by (cases x) (simp_all add: Dispatch_events after_events_simps)
qed

lemma dispatch_all_kept:
  assumes "providers_kept X (dp_providers d)" and "dp_store d = on_pg_store (pg_store X)"
  shows "kept X (world e) (world (snd (dispatch_all uuid_ok d ns e)))"
proof (induction ns arbitrary: e)
  case (Cons m ms)
  show ?case
    using kept_trans [OF Dispatch_kept [OF assms] Cons.IH] by (simp add: case_prod_beta)
qed (simp add: kept_refl)

text \<open>Every message of a batch is dispatched in some state between the first and the last.\<close>

lemma dispatch_all_nth:
  assumes "providers_kept X (dp_providers d)" and "dp_store d = on_pg_store (pg_store X)"
  shows "i < length ns \<Longrightarrow> \<exists>e1. fst (dispatch_all uuid_ok d ns e) ! i = fst (fst (Dispatch uuid_ok d (Some (ns ! i)) e1))
     \<and> kept X (world e) (world e1)
     \<and> kept X (world (snd (Dispatch uuid_ok d (Some (ns ! i)) e1))) (world (snd (dispatch_all uuid_ok d ns e)))"
proof (induction ns arbitrary: i e)
  case (Cons n ns)
  obtain err np e' where D: "Dispatch uuid_ok d (Some n) e = ((err, np), e')" by (metis prod.exhaust)
  note all = dispatch_all_kept [OF assms, of e' uuid_ok ns]
  show ?case
  proof (cases i)
    case 0
    then show ?thesis using D all by (intro exI [of _ e]) (simp add: case_prod_beta kept_refl)
  next
    case (Suc j)
    have e': "kept X (world e) (world e')" using Dispatch_kept [OF assms, of e uuid_ok "Some n"] D by simp
    from Cons.IH [of j e'] Cons.prems Suc obtain e1 where
      "fst (dispatch_all uuid_ok d ns e') ! j = fst (fst (Dispatch uuid_ok d (Some (ns ! j)) e1))" "kept X (world e') (world e1)"
      "kept X (world (snd (Dispatch uuid_ok d (Some (ns ! j)) e1))) (world (snd (dispatch_all uuid_ok d ns e')))" by auto
    then show ?thesis
      using D Suc kept_trans [OF e'] by (intro exI [of _ e1]) (auto simp: case_prod_beta)
  qed
qed simp

lemma process_batch_env:
  "cs_env (process_batch uuid_ok d m ds s) =
     snd (dispatch_all uuid_ok d (map (\<lambda>d. the (unmarshal_notification (dl_Body d))) (filter (decodable m) ds)) (cs_env s))"
  by (simp add: process_batch_def decodeBatch_spec Let_def calls_of_nacks dispatch_loop_spec)

lemma acknowledged_index:
  assumes "distinct (map dl_DeliveryTag ds)" and "dl \<in> set ds"
    and "cs_calls (process_batch uuid_ok d m ds s) = cs_calls s @ calls" and "Ack (dl_DeliveryTag dl) multi \<in> set calls"
  obtains i where "i < length (filter (decodable m) ds)" "filter (decodable m) ds ! i = dl"
    "acknowledges (fst (dispatch_all uuid_ok d (map (\<lambda>d. the (unmarshal_notification (dl_Body d))) (filter (decodable m) ds)) (cs_env s)) ! i)"
proof -
  let ?good = "filter (decodable m) ds"
  let ?errs = "fst (dispatch_all uuid_ok d (map (\<lambda>d. the (unmarshal_notification (dl_Body d))) ?good) (cs_env s))"
  have "calls = map dead_letter (filter (\<lambda>d. \<not> decodable m d) ds) @ map2 settlement ?errs ?good"
    using assms(3) unfolding process_batch_calls by simp
  with assms(4) obtain i where i: "i < length ?good" "Ack (dl_DeliveryTag dl) multi = settlement (?errs ! i) (?good ! i)"
    by (auto simp: dead_letter_def in_set_conv_nth)
  then have "acknowledges (?errs ! i)" "dl_DeliveryTag (?good ! i) = dl_DeliveryTag dl"
    by (auto simp: settlement_def acknowledges_def split: if_splits)
  moreover have "?good ! i \<in> set ds" using i(1) nth_mem by fastforce
  ultimately show thesis using that [OF i(1)] assms(1,2) distinct_map_key by metis
qed

lemma stored_identity:
  assumes "dp_store d = on_pg_store (pg_store X)" and "dispatch_spec uuid_ok d (Some n) w = (Inr evs, np', w')"
  shows "\<exists>k t. np' = Some ((Normalize n)\<lparr>n_ID := k, n_CreatedAt := t\<rparr>) \<and> (n_ID n \<noteq> [] \<longrightarrow> uuid_cast X (n_ID n) = Some k)"
proof -
  have id: "n_ID (Normalize n) = n_ID n" by (simp add: Normalize_def)
  obtain e np1 w1 where up: "UpsertNotification X (Some (Normalize n)) (ws_pg (turn w)) = ((e, np1), w1)" by (metis prod.exhaust)
  then have "e = None" and np': "np' = np1"
    using assms(2) unfolding dispatch_spec_def
    by (auto simp: assms(1) on_pg_store_def pg_store_def on_pg_def split: if_splits option.splits prod.splits sum.splits)
  obtain nid t where run: "pg_run (sql_upsert_notification X (Normalize n)) (ws_pg (turn w)) = (Inr (nid, t), w1)"
    and np1: "np1 = Some ((Normalize n)\<lparr>n_ID := nid, n_CreatedAt := t\<rparr>)"
    using up \<open>e = None\<close> by (auto simp: UpsertNotification_def split: prod.splits sum.splits)
  obtain fs where "sql_upsert_notification X (Normalize n) ((ws_pg (turn w))\<lparr>pg_faults := fs\<rparr>) = (Inr (nid, t), w1)"
    by (rule pg_run_Inr [OF run])
  then have "n_ID n \<noteq> [] \<longrightarrow> uuid_cast X (n_ID n) = Some nid"
    by (auto simp: sql_upsert_notification_def id split: option.splits if_splits)
  with np' np1 show ?thesis by blast
qed

text \<open>The message behind an acknowledgement, and what its dispatch has left.\<close>

lemma acknowledged_in_inbox:
  fixes s :: "services consumer_state"
  assumes "buildProviders D cfg = Inr reg" and "live_deps X R D" and "sc_Enabled (pc_Site (c_Providers cfg))"
    and "pg_inv (ws_pg (world (cs_env s)))" and "plain_faults X (world (cs_env s))" and "plain_redis R"
    and "distinct (map dl_DeliveryTag ds)" and "dl \<in> set ds"
    and "cs_calls (process_batch uuid_ok \<lparr>dp_store = on_pg_store (pg_store X), dp_providers = Some reg\<rparr> m ds s) = cs_calls s @ calls"
    and "Ack (dl_DeliveryTag dl) multi \<in> set calls" and "by_operations X (world (cs_env s))"
  shows "\<exists>n k t. unmarshal_notification (dl_Body dl) = Some n \<and> (n_ID n \<noteq> [] \<longrightarrow> uuid_cast X (n_ID n) = Some k)
     \<and> (\<forall>r \<in> set (uniqueStrings (n_Recipients n)).
          chosen (stored_preferences X r (world (cs_env s))) (Normalize n) ChannelSite \<and> preferences_rest X r (world (cs_env s)) \<longrightarrow>
          in_inbox X ((Normalize n)\<lparr>n_ID := k, n_CreatedAt := t\<rparr>) r
            (world (cs_env (process_batch uuid_ok \<lparr>dp_store = on_pg_store (pg_store X), dp_providers = Some reg\<rparr> m ds s))))"
proof -
  let ?d = "\<lparr>dp_store = on_pg_store (pg_store X), dp_providers = Some reg\<rparr>"
  let ?ns = "map (\<lambda>d. the (unmarshal_notification (dl_Body d))) (filter (decodable m) ds)"
  have kp: "providers_kept X (dp_providers ?d)" and st: "dp_store ?d = on_pg_store (pg_store X)"
    using built_providers(1) [OF assms(1,2)] by simp_all
  obtain p where p: "registry_Get (dp_providers ?d) ChannelSite = Some (site_provider (wd_time D) p)"
    "si_store p = pg_writer X" "si_redis p = map_option recording_redis (Some R)"
    using built_providers(2) [OF assms(1-3)] by auto
  obtain i where i: "i < length (filter (decodable m) ds)" "filter (decodable m) ds ! i = dl"
    and ack: "acknowledges (fst (dispatch_all uuid_ok ?d ?ns (cs_env s)) ! i)"
    by (rule acknowledged_index [OF assms(7-10)])
  then have "decodable m dl" using nth_mem by fastforce
  then obtain n where n: "unmarshal_notification (dl_Body dl) = Some n" by (auto simp: decodable_def)
  have ni: "?ns ! i = n" "i < length ?ns" using i n by simp_all
  obtain e1 where e1: "fst (dispatch_all uuid_ok ?d ?ns (cs_env s)) ! i = fst (fst (Dispatch uuid_ok ?d (Some n) e1))"
    and k1: "kept X (world (cs_env s)) (world e1)"
    and k2: "kept X (world (snd (Dispatch uuid_ok ?d (Some n) e1))) (world (snd (dispatch_all uuid_ok ?d ?ns (cs_env s))))"
    using dispatch_all_nth [OF kp st ni(2), of uuid_ok "cs_env s"] unfolding ni(1) by blast
  obtain evs np' w where spec: "dispatch_spec uuid_ok ?d (Some n) (world e1) = (Inr evs, np', w)"
    and ok: "list_all site_reached evs" "world (snd (Dispatch uuid_ok ?d (Some n) e1)) = w"
    using acknowledged_events [OF kp st p assms(6) plain_faults_kept [OF k1 assms(5)]] ack unfolding e1 by metis
  obtain k t where id: "np' = Some ((Normalize n)\<lparr>n_ID := k, n_CreatedAt := t\<rparr>)" "n_ID n \<noteq> [] \<longrightarrow> uuid_cast X (n_ID n) = Some k"
    using stored_identity [OF st spec] by blast
  have "in_inbox X ((Normalize n)\<lparr>n_ID := k, n_CreatedAt := t\<rparr>) r (world (cs_env (process_batch uuid_ok ?d m ds s)))"
    if "r \<in> set (uniqueStrings (n_Recipients n))"
      and "chosen (stored_preferences X r (world (cs_env s))) (Normalize n) ChannelSite"
      and rest: "preferences_rest X r (world (cs_env s))" for r
  proof -
    note c1 = kept_others [OF k1 assms(11)] and r1 = preferences_rest_kept [OF k1 rest]
    have "pg_inv (ws_pg (world e1))" by (rule kept_inv [OF k1 assms(11,4)])
    from dispatch_delivers [OF kp st p this spec ok(1) that(1) _ c1 r1] that(2)
    have "in_inbox X ((Normalize n)\<lparr>n_ID := k, n_CreatedAt := t\<rparr>) r w" using id(1) by (auto simp: stored_kept [OF k1 rest])
    moreover have "by_operations X w" using kept_others [OF Dispatch_kept [OF kp st] c1] ok(2) by metis
    ultimately show ?thesis unfolding process_batch_env using in_inbox_kept k2 ok(2) by simp
  qed
  with n id(2) show ?thesis by blast
qed

text \<open>
  C3: what an acknowledgement means, for a batch over the whole service. When the consumer acknowledges a
  delivery, its body is a notification, and that notification is, at the end of the batch, among the
  inbox rows of every recipient it names whose site channel is chosen by the preferences stored
  at the start, under its own id if it has one, whatever happened to its other channels and to the other messages of
  the batch, and whatever the other users of the database (API requests, other consumers, operators) did
  between any two statements of the batch, except to edit the preferences of that recipient.
  Database and Redis fail as they like, with errors of their own.
\<close>

theorem acknowledged_is_delivered:
  fixes s :: "services consumer_state"
  assumes "buildProviders D cfg = Inr reg" and "live_deps X R D" and "sc_Enabled (pc_Site (c_Providers cfg))"
    and "pg_inv (ws_pg (world (cs_env s)))" and "plain_faults X (world (cs_env s))" and "plain_redis R"
    and "distinct (map dl_DeliveryTag ds)" and "dl \<in> set ds"
    and "cs_calls (process_batch uuid_ok \<lparr>dp_store = on_pg_store (pg_store X), dp_providers = Some reg\<rparr> m ds s) = cs_calls s @ calls"
    and "Ack (dl_DeliveryTag dl) multi \<in> set calls" and "by_operations X (world (cs_env s))"
  shows "\<exists>n k t. unmarshal_notification (dl_Body dl) = Some n \<and> (n_ID n \<noteq> [] \<longrightarrow> uuid_cast X (n_ID n) = Some k)
     \<and> (\<forall>r \<in> set (uniqueStrings (n_Recipients n)).
          chosen (stored_preferences X r (world (cs_env s))) (Normalize n) ChannelSite \<and> preferences_rest X r (world (cs_env s)) \<longrightarrow>
          in_inbox X ((Normalize n)\<lparr>n_ID := k, n_CreatedAt := t\<rparr>) r
            (world (cs_env (process_batch uuid_ok \<lparr>dp_store = on_pg_store (pg_store X), dp_providers = Some reg\<rparr> m ds s))))"
  using assms by (rule acknowledged_in_inbox)

definition live_state :: "services consumer_state" where
  "live_state = \<lparr>cs_env = live_env, cs_calls = [], cs_errors = [], cs_seen = 0, cs_batches = []\<rparr>"

definition live_delivery :: amqp_delivery where
  "live_delivery = sample_delivery 7 (marshal_notification sample_message)"

lemma live_delivery: "unmarshal_notification (dl_Body live_delivery) = Some sample_message"
    "dl_DeliveryTag live_delivery = 7" "decodable 3 live_delivery"
  by (simp_all add: live_delivery_def sample_delivery_def sample_message_decodes decodable_def too_often_def deathCount_def)

text \<open>The sample service satisfies the conditions.\<close>

lemma live_facts:
  "live_deps sample_server (\<lambda>c p. None) sample_deps" "sc_Enabled (pc_Site (c_Providers live_config))"
  "pg_inv (ws_pg (world live_env))" "plain_faults sample_server (world live_env)" "plain_redis (\<lambda>c p. None)"
proof -
  show "live_deps sample_server (\<lambda>c p. None) sample_deps" by (simp add: live_deps_def sample_deps_def)
  show "sc_Enabled (pc_Site (c_Providers live_config))" by (simp add: live_config_def)
  have "pg_faults sample_pg = []" by (simp add: sample_pg_eq empty_pg_def)
  then show "pg_inv (ws_pg (world live_env))" "plain_faults sample_server (world live_env)"
    using sample_inbox(1) live_others
    by (simp_all add: plain_faults_def, simp_all add: live_env_def sample_others_def plain_outage_def)
  show "plain_redis (\<lambda>c p. None)" by (simp add: plain_redis_def)
qed

theorem acknowledged_is_delivered_witness:
  "cs_calls (process_batch (\<lambda>_. True) \<lparr>dp_store = on_pg_store (pg_store sample_server), dp_providers = Some live_registry\<rparr>
      3 [live_delivery] live_state) = [Ack 7 False]
   \<and> find_delivery ''a1'' ''r2'' (ws_pg (world (cs_env (process_batch (\<lambda>_. True)
      \<lparr>dp_store = on_pg_store (pg_store sample_server), dp_providers = Some live_registry\<rparr> 3 [live_delivery] live_state)))) \<noteq> None"
proof -
  let ?d = "\<lparr>dp_store = on_pg_store (pg_store sample_server), dp_providers = Some live_registry\<rparr>"
  have env: "cs_env live_state = live_env" "cs_calls live_state = []" by (simp_all add: live_state_def)
  obtain np e where "Dispatch (\<lambda>_. True) ?d (Some sample_message) live_env = ((None, np), e)"
    using live_dispatch_nil by (metis prod.collapse)
  then have calls: "cs_calls (process_batch (\<lambda>_. True) ?d 3 [live_delivery] live_state) = cs_calls live_state @ [Ack 7 False]"
    by (simp add: process_batch_calls live_delivery env settlement_def)
  obtain n k t where n: "unmarshal_notification (dl_Body live_delivery) = Some n"
      "n_ID n \<noteq> [] \<longrightarrow> uuid_cast sample_server (n_ID n) = Some k"
    and all: "\<forall>r \<in> set (uniqueStrings (n_Recipients n)).
        chosen (stored_preferences sample_server r (world (cs_env live_state))) (Normalize n) ChannelSite
          \<and> preferences_rest sample_server r (world (cs_env live_state)) \<longrightarrow>
        in_inbox sample_server ((Normalize n)\<lparr>n_ID := k, n_CreatedAt := t\<rparr>) r
          (world (cs_env (process_batch (\<lambda>_. True) ?d 3 [live_delivery] live_state)))"
    using acknowledged_is_delivered [OF live_registry live_facts [folded env(1)] _ _ calls _ live_by_operations [folded env(1)], of live_delivery False]
    by (auto simp: live_delivery)
  have id: "n_ID sample_message = ''a1''" "uuid_cast sample_server ''a1'' = Some ''a1''" by code_simp+
  have "n = sample_message" using n(1) live_delivery(1) by simp
  with n(2) id have m: "n = sample_message" "k = ''a1''" by simp_all
  have "''r2'' \<in> set (uniqueStrings (n_Recipients sample_message))"
    "chosen (stored_preferences sample_server ''r2'' (world live_env)) (Normalize sample_message) ChannelSite"
    "uuid_cast sample_server ''a1'' = Some ''a1''" "uuid_cast sample_server ''r2'' = Some ''r2''"
    by code_simp+
  with all live_rest show ?thesis unfolding m env(1) in_inbox_def using calls env(2) by fastforce
qed

end
