(* ===== verification/Redelivered.thy ===== *)
theory Redelivered
  imports Settled
begin

text \<open>
  What a message that comes a second time does: RabbitMQ redelivers what was not acknowledged, and the
  dispatcher runs again for all its recipients. Insertions of deliveries that are there
  add no row, so whatever the second dispatch returns, nobody's inbox changes.
\<close>

section \<open>Insertions of what is there\<close>

lemma insert_present:
  assumes "\<And>k u. uuid_cast X i = Some k \<Longrightarrow> uuid_cast X r = Some u \<Longrightarrow> find_delivery k u s \<noteq> None"
  shows "notification_deliveries (snd (pg_run (sql_insert_delivery X i r) s)) = notification_deliveries s"
proof (cases rule: pg_run_cases [of s "sql_insert_delivery X i r"])
  case (fault e fs)
  then show ?thesis by simp
next
  case (run fs)
  have "notification_deliveries (snd (sql_insert_delivery X i r (s\<lparr>pg_faults := fs\<rparr>))) = notification_deliveries s"
    using assms by (fastforce simp: sql_insert_delivery_def insert_delivery_rows split: option.split)
  with run(1) show ?thesis by simp
qed

lemma other_statements_rows:
  "notification_deliveries (snd (sql_get_preferences X r s)) = notification_deliveries s"
  "notification_deliveries (snd (sql_list_push X r s)) = notification_deliveries s"
  "notification_deliveries (snd (sql_delete_push X r ep s)) = notification_deliveries s"
  "notification_deliveries (snd (sql_upsert_notification X n s)) = notification_deliveries s"
  by (simp_all add: sql_delete_push_def sql_upsert_notification_def split: option.split)

lemma run_rows:
  assumes "\<And>s. notification_deliveries (snd (stmt s)) = notification_deliveries s"
  shows "notification_deliveries (snd (pg_run stmt s)) = notification_deliveries s"
  by (cases rule: pg_run_cases [of s stmt]) (simp_all add: assms)

text \<open>Without an insertion no item comes or goes.\<close>

definition inserts :: "pg_op \<Rightarrow> bool" where
  "inserts op = (case op of InsertDelivery _ _ \<Rightarrow> True | _ \<Rightarrow> False)"

definition item_keys :: "pg \<Rightarrow> (string \<times> string) list" where
  "item_keys s = map delivery_key (notification_deliveries s)"

lemma item_keys_found: "find_delivery k u s \<noteq> None \<longleftrightarrow> (k, u) \<in> set (item_keys s)"
  by (auto simp: find_delivery_def find_None_iff item_keys_def delivery_key_def)

lemma item_keys_run:
  "(\<And>s. item_keys (snd (stmt s)) = item_keys s) \<Longrightarrow> item_keys (snd (pg_run stmt s)) = item_keys s"
  by (cases rule: pg_run_cases [of s stmt]) (simp_all add: item_keys_def)

lemma item_keys_update:
  "(\<And>s d. delivery_key (upd s d) = delivery_key d) \<Longrightarrow> item_keys (snd (sql_update_deliveries X upd r i s)) = item_keys s"
  by (auto simp: sql_update_deliveries_def item_keys_def Let_def split: option.split)

lemma item_keys_statements:
  "item_keys (snd (sql_upsert_preference X v ch en cfg ts s)) = item_keys s"
  "item_keys (snd (sql_upsert_push X v ep p a ua s)) = item_keys s"
  "item_keys (snd (sql_get_preferences X r s)) = item_keys s" "item_keys (snd (sql_list_push X r s)) = item_keys s"
  "item_keys (snd (sql_delete_push X r ep s)) = item_keys s" "item_keys (snd (sql_upsert_notification X n s)) = item_keys s"
  "item_keys (s\<lparr>pg_faults := fs\<rparr>) = item_keys s" "item_keys (s\<lparr>pg_now := now\<rparr>) = item_keys s"
  "item_keys (s\<lparr>topic_subscriptions := tps\<rparr>) = item_keys s"
  by (simp_all add: item_keys_def other_statements_rows sql_upsert_preference_def sql_upsert_push_def split: option.split)

lemma item_keys_op: "\<not> inserts op \<Longrightarrow> item_keys (pg_effect X op s) = item_keys s"
  by (cases op) (auto simp: inserts_def item_keys_statements delivery_key_update
      intro!: item_keys_run item_keys_update split: option.split)

lemma dispatching_present:
  assumes "does X (\<lambda>op. dispatching n P op \<or> \<not> inserts op) s t"
    and "\<And>r k u. P r \<Longrightarrow> uuid_cast X (n_ID n) = Some k \<Longrightarrow> uuid_cast X r = Some u \<Longrightarrow> find_delivery k u s \<noteq> None"
  shows "item_keys t = item_keys s"
proof (rule does_keeps [OF assms(1), where I = "\<lambda>t. item_keys t = item_keys s"])
  fix op t assume op: "dispatching n P op \<or> \<not> inserts op" and t: "item_keys t = item_keys s"
  have "item_keys (pg_effect X op t) = item_keys t"
  proof (cases "inserts op")
    case True
    then obtain r where r: "op = InsertDelivery r (Some n)" "P r"
      using op by (auto simp: inserts_def dispatching_def split: pg_op.splits)
    have "notification_deliveries (snd (pg_run (sql_insert_delivery X (n_ID n) r) t)) = notification_deliveries t"
      by (rule insert_present) (use assms(2) [OF r(2)] t item_keys_found in metis)
    then show ?thesis by (simp add: r(1) item_keys_def)
  qed (rule item_keys_op)
  with t show "item_keys (pg_effect X op t) = item_keys s" by simp
qed simp

text \<open>What neither reads nor dismisses an item leaves it as it is.\<close>

lemma kept_untouched:
  assumes "kept X w w'" and "others_do X (\<lambda>op. \<not> reads_item X u k op \<and> \<not> dismisses_item X u k op) w"
    and "find_delivery k u (ws_pg w) = Some e"
  shows "find_delivery k u (ws_pg w') = Some e"
proof (rule does_keeps [OF kept_does [OF assms(1,2)], where I = "\<lambda>s. find_delivery k u s = Some e"])
  fix op s assume op: "delivering op \<or> \<not> reads_item X u k op \<and> \<not> dismisses_item X u k op" and s: "find_delivery k u s = Some e"
  have "\<not> reads_item X u k op \<and> \<not> dismisses_item X u k op"
    using op by (cases op) (auto simp: delivering_def reads_item_def dismisses_item_def)
  with s show "find_delivery k u (pg_effect X op s) = Some e" by (simp add: untouched_op)
qed (rule assms(3))

text \<open>The topic subscriptions are edited by the operators only.\<close>

definition edits_topics :: "pg_op \<Rightarrow> bool" where
  "edits_topics op = (case op of EditTopics _ \<Rightarrow> True | _ \<Rightarrow> False)"

lemma topics_run:
  "(\<And>s. topic_subscriptions (snd (stmt s)) = topic_subscriptions s) \<Longrightarrow> topic_subscriptions (snd (pg_run stmt s)) = topic_subscriptions s"
  by (cases rule: pg_run_cases [of s stmt]) simp_all

lemma topics_statements:
  "topic_subscriptions (snd (sql_upsert_notification X n s)) = topic_subscriptions s"
  "topic_subscriptions (snd (sql_insert_delivery X i r s)) = topic_subscriptions s"
  "topic_subscriptions (snd (sql_upsert_preference X v ch en cfg ts s)) = topic_subscriptions s"
  "topic_subscriptions (snd (sql_update_deliveries X upd r i s)) = topic_subscriptions s"
  "topic_subscriptions (snd (sql_upsert_push X v ep p a ua s)) = topic_subscriptions s"
  "topic_subscriptions (snd (sql_delete_push X r ep s)) = topic_subscriptions s"
  by (simp_all add: sql_upsert_notification_def sql_insert_delivery_def sql_upsert_preference_def sql_update_deliveries_def
      sql_upsert_push_def sql_delete_push_def Let_def split: option.split)

lemma topics_op: "\<not> edits_topics op \<Longrightarrow> topic_subscriptions (pg_effect X op s) = topic_subscriptions s"
  by (cases op) (auto simp: edits_topics_def topics_statements intro!: topics_run split: option.split)

lemma kept_topics:
  assumes "kept X w w'" and "others_do X (\<lambda>op. \<not> edits_topics op) w"
  shows "topic_subscriptions (ws_pg w') = topic_subscriptions (ws_pg w)"
proof (rule does_keeps [OF kept_does [OF assms], where I = "\<lambda>s. topic_subscriptions s = topic_subscriptions (ws_pg w)"])
  fix op and s :: pg assume "delivering op \<or> \<not> edits_topics op" and s: "topic_subscriptions s = topic_subscriptions (ws_pg w)"
  then have "\<not> edits_topics op" by (cases op) (auto simp: delivering_def edits_topics_def)
  with s show "topic_subscriptions (pg_effect X op s) = topic_subscriptions (ws_pg w)" by (simp add: topics_op)
qed simp

section \<open>A second dispatch\<close>

text \<open>Whom a message is for: the recipients it names, or the subscribers of its topic.\<close>

definition addressed :: "notification \<Rightarrow> services \<Rightarrow> string list" where
  "addressed n w =
     (if uniqueStrings (n_Recipients n) \<noteq> [] then uniqueStrings (n_Recipients n)
      else map ts_subject (filter (\<lambda>q. ts_topic q = n_Topic (Normalize n)) (topic_subscriptions (ws_pg w))))"

lemma subscribers_listed:
  assumes "ListTopicSubscribers X topic s = (Inr rs, s')"
  shows "set rs = ts_subject ` {q \<in> set (topic_subscriptions s). ts_topic q = topic}"
  using assms by (auto simp: ListTopicSubscribers_def pg_run_def split: prod.splits sum.splits list.splits option.splits)

text \<open>What a dispatch does before its first send: it inserts no item.\<close>

definition preparing :: "pg_op \<Rightarrow> bool" where
  "preparing op \<longleftrightarrow> delivering op \<and> \<not> inserts op"

lemma preparing_kept: "runs X preparing w w' \<Longrightarrow> kept X w w'"
  unfolding kept_def by (erule runs_mono) (simp add: preparing_def)

lemma preparing_store:
  "runs X preparing w (snd (on_pg (UpsertNotification X np) w))" "runs X preparing w (snd (on_pg (ListTopicSubscribers X t) w))"
proof -
  show "runs X preparing w (snd (on_pg (UpsertNotification X np) w))"
    by (rule runs_mono [OF kept_store(1)]) (simp add: preparing_def delivering_def inserts_def)
  have "dispatching n (\<lambda>_. False) op \<Longrightarrow> preparing op" for n op
    by (cases op) (simp_all add: dispatching_def preparing_def delivering_def inserts_def)
  then show "runs X preparing w (snd (on_pg (ListTopicSubscribers X t) w))"
    using runs_mono [OF kept_store(5)] by blast
qed

text \<open>The recipients a dispatch of the service goes through are the ones the message is for.\<close>

lemma dispatch_spec_addressed:
  assumes st: "dp_store d = on_pg_store (pg_store X)" and spec: "dispatch_spec uuid_ok d (Some n) w = (x, np', w')"
    and topics: "others_do X (\<lambda>op. \<not> edits_topics op) w"
  obtains (stopped) "runs X preparing w w'"
  | (sent) m rs w1 where "set rs = set (addressed n w)" "w' = snd (dispatch_events d m rs w1)" "runs X preparing w w1"
      "\<exists>k t. m = (Normalize n)\<lparr>n_ID := k, n_CreatedAt := t\<rparr> \<and> (n_ID n \<noteq> [] \<longrightarrow> uuid_cast X (n_ID n) = Some k)"
proof -
  let ?n = "Normalize n"
  obtain e np1 w1 where up: "on_pg (UpsertNotification X (Some ?n)) w = ((e, np1), w1)" by (metis prod.exhaust)
  have r1: "runs X preparing w w1" using preparing_store(1) [of X w "Some ?n"] up by simp
  have up': "sa_UpsertNotification (dp_store d) (Some ?n) w = ((e, np1), w1)"
    using up by (simp add: st on_pg_store_def pg_store_def)
  have id: "n_ID ?n = n_ID n" by (simp add: Normalize_def)
  show thesis
  proof (cases "acceptable_input uuid_ok (Some n) \<and> e = None")
    case False
    then have "w' = w \<or> w' = w1"
      using spec up' by (cases e) (auto simp: dispatch_spec_def split: if_splits)
    then show thesis using stopped r1 runs_refl by blast
  next
    case True
    then obtain k t s1 where m: "np1 = Some (?n\<lparr>n_ID := k, n_CreatedAt := t\<rparr>)"
      and run: "pg_run (sql_upsert_notification X ?n) (ws_pg (turn w)) = (Inr (k, t), s1)"
      using up by (auto simp: on_pg_eq UpsertNotification_def split: prod.splits sum.splits)
    obtain fs where "sql_upsert_notification X ?n ((ws_pg (turn w))\<lparr>pg_faults := fs\<rparr>) = (Inr (k, t), s1)"
      by (rule pg_run_Inr [OF run])
    then have kid: "n_ID n \<noteq> [] \<longrightarrow> uuid_cast X (n_ID n) = Some k"
      by (auto simp: sql_upsert_notification_def id split: option.splits if_splits)
    let ?m = "?n\<lparr>n_ID := k, n_CreatedAt := t\<rparr>"
    obtain y w2 where res: "resolveRecipients d ?m w1 = (y, w2)" by fastforce
    have r2: "runs X preparing w1 w2"
      using res preparing_store(2) [of X w1 "n_Topic ?m"]
      by (auto simp: resolveRecipients_def st on_pg_store_def pg_store_def runs_refl split: if_splits prod.splits sum.splits)
    note r = runs_trans [OF r1 r2]
    show thesis
    proof (cases y)
      case (Inl err)
      then have "w' = w2" using spec True up' m res by (simp add: dispatch_spec_def)
      then show thesis using stopped r by simp
    next
      case (Inr rs)
      have "topic_subscriptions (ws_pg (turn w1)) = topic_subscriptions (ws_pg w)"
        by (rule kept_topics [OF kept_trans [OF preparing_kept [OF r1] kept_turn] topics])
      then have "set rs = set (addressed n w)"
        using res Inr
        by (auto simp: resolveRecipients_def addressed_def st on_pg_store_def pg_store_def on_pg_eq Normalize_def
            split: if_splits prod.splits sum.splits dest: subscribers_listed)
      moreover have "w' = snd (dispatch_events d ?m rs w2)"
        using spec True up' m res Inr by (auto simp: dispatch_spec_def split: prod.splits)
      ultimately show thesis using sent [of rs ?m w2] r kid by auto
    qed
  qed
qed

text \<open>
  C5: a message that comes again adds nothing: when every recipient it is for and whose site channel is
  chosen has the item already, a dispatch of a message with that id, whatever its text has become,
  whatever it returns and whatever fails on the way, adds no item for anyone; and while the users
  read and dismiss between its statements, an item nobody asks to change meanwhile stays exactly as it
  is: nothing read or dismissed comes back. (A message without an id gets a
  new one at every dispatch and has no such protection.)
\<close>

theorem redelivery_adds_nothing:
  assumes "buildProviders D cfg = Inr reg" and "live_deps X R D" and "pg_inv (ws_pg (world s))"
    and "n_ID n \<noteq> []" and "uuid_cast X (n_ID n) = Some k" and "uuid_cast X k = Some k"
    and "\<forall>r \<in> set (addressed n (world s)). preferences_rest X r (world s)
          \<and> (chosen (stored_preferences X r (world s)) (Normalize n) ChannelSite \<longrightarrow>
             (\<exists>u. uuid_cast X r = Some u \<and> find_delivery k u (ws_pg (world s)) \<noteq> None))"
    and "others_do X (\<lambda>op. \<not> edits_topics op) (world s)" and "others_do X (\<lambda>op. \<not> inserts op) (world s)"
    and "Dispatch uuid_ok \<lparr>dp_store = on_pg_store (pg_store X), dp_providers = Some reg\<rparr> (Some n) s = (y, s')"
  shows "item_keys (ws_pg (world s')) = item_keys (ws_pg (world s))
     \<and> (\<forall>i u. others_do X (\<lambda>op. \<not> reads_item X u i op \<and> \<not> dismisses_item X u i op) (world s) \<longrightarrow>
          find_delivery i u (ws_pg (world s')) = find_delivery i u (ws_pg (world s)))"
proof -
  let ?d = "\<lparr>dp_store = on_pg_store (pg_store X), dp_providers = Some reg\<rparr>"
  have kp: "providers_kept X (dp_providers ?d)" and st: "dp_store ?d = on_pg_store (pg_store X)"
    using built_providers(1) [OF assms(1,2)] by simp_all
  obtain x np' w' where spec: "dispatch_spec uuid_ok ?d (Some n) (world s) = (x, np', w')" by (metis prod.exhaust)
  then have w': "world s' = w'"
    using assms(10) by (cases x) (auto simp: Dispatch_events after_events_simps)
  have prepared: "item_keys (ws_pg v) = item_keys (ws_pg (world s))" if "runs X preparing (world s) v" for v
  proof -
    have "does X (\<lambda>op. preparing op \<or> \<not> inserts op) (ws_pg (world s)) (ws_pg v)"
      using that assms(9) by (simp add: runs_def)
    then have "does X (\<lambda>op. dispatching n (\<lambda>_. False) op \<or> \<not> inserts op) (ws_pg (world s)) (ws_pg v)"
      by (rule does_mono) (auto simp: preparing_def)
    then show ?thesis by (rule dispatching_present) simp
  qed
  have keys: "item_keys (ws_pg w') = item_keys (ws_pg (world s))"
  proof (cases rule: dispatch_spec_addressed [OF st spec assms(8)])
    case 1
    then show ?thesis by (rule prepared)
  next
    case (2 m rs w1)
    note sent = this and k1 = preparing_kept [OF 2(3)]
    then obtain t where m: "m = (Normalize n)\<lparr>n_ID := k, n_CreatedAt := t\<rparr>" using assms(4,5) by auto
    let ?P = "\<lambda>r. r \<in> set rs \<and> chosen (stored_preferences X r (world s)) (Normalize n) ChannelSite"
    have "runs X (dispatching m ?P) w1 w'"
      unfolding sent(2)
    proof (rule dispatch_events_runs [OF kp st])
      fix r v1 ts v2
      assume r: "r \<in> set rs" and v1: "kept X w1 v1" and res: "resolveChannels ?d r m v1 = (Inr ts, v2)"
        and site: "ChannelSite \<in> rp_Channel ` set ts"
      have kept: "kept X (world s) v1" by (rule kept_trans [OF k1 v1])
      have ops: "by_operations X (world s)" by (rule others_do_mono [OF assms(8)]) simp
      have rest: "preferences_rest X r (world s)" using assms(7) r sent(1) by simp
      have dist: "distinct (n_Channels m)" by (simp add: m Normalize_def uniqueChannels_eq distinct_uniqueStrings)
      from live_dispatch.targets_spec [OF st undisturbed_inv [OF kept_others [OF kept ops] kept_inv [OF kept ops assms(3)]] dist res]
      obtain prefs where "fst (GetPreferences X r (ws_pg (turn v1))) = Inr prefs"
        and "\<forall>t. t \<in> set ts \<longleftrightarrow> chosen prefs m (rp_Channel t) \<and> rp_Config t = config_for prefs (rp_Channel t)"
        by (auto simp: on_pg_store_def pg_store_def)
      then have "chosen (stored_preferences X r (turn v1)) m ChannelSite" using site GetPreferences_stored by auto
      then show "?P r" using r by (simp add: stored_kept [OF kept_trans [OF kept kept_turn] rest] m chosen_identified)
    qed
    then have "does X (\<lambda>op. dispatching m ?P op \<or> \<not> inserts op) (ws_pg w1) (ws_pg w')"
      using kept_others [OF k1 assms(9)] by (simp add: runs_def)
    then have "item_keys (ws_pg w') = item_keys (ws_pg w1)"
    proof (rule dispatching_present)
      fix r k' u assume r: "?P r" and cast: "uuid_cast X (n_ID m) = Some k'" "uuid_cast X r = Some u"
      then have "k' = k" using assms(6) by (simp add: m)
      moreover have "find_delivery k u (ws_pg (world s)) \<noteq> None" using assms(7) r cast(2) sent(1) by auto
      ultimately show "find_delivery k' u (ws_pg w1) \<noteq> None" using prepared [OF sent(3)] item_keys_found by metis
    qed
    with prepared [OF sent(3)] show ?thesis by simp
  qed
  have kept: "kept X (world s) w'" by (rule dispatch_spec_kept [OF kp st spec])
  have "find_delivery i u (ws_pg w') = find_delivery i u (ws_pg (world s))"
    if "others_do X (\<lambda>op. \<not> reads_item X u i op \<and> \<not> dismisses_item X u i op) (world s)" for i u
    using kept_untouched [OF kept that] keys item_keys_found by (cases "find_delivery i u (ws_pg (world s))") metis+
  with keys show ?thesis unfolding w' by blast
qed

definition live_again :: "services env" where
  "live_again = snd (Dispatch (\<lambda>_. True) \<lparr>dp_store = on_pg_store (pg_store sample_server), dp_providers = Some live_registry\<rparr>
     (Some sample_message) live_env)"

lemma live_again:
  "list_all (\<lambda>r. find_delivery ''a1'' r (ws_pg (world live_again)) \<noteq> None \<and> uuid_cast sample_server r = Some r)
     (addressed sample_message (world live_again))"
  "addressed sample_message (world live_again) \<noteq> []"
  by code_simp+

lemma live_kept: "kept sample_server (world live_env) (world live_again)"
  unfolding live_again_def by (rule Dispatch_kept) (simp_all add: built_providers(1) [OF live_registry live_facts(1)])

text \<open>The message comes again while user R2 dismisses the item.\<close>

definition dismissed_meanwhile :: "services env" where
  "dismissed_meanwhile = live_again\<lparr>world := (world live_again)\<lparr>ws_others := [pg_effect sample_server (DismissItem ''R2'' ''A1'')]\<rparr>\<rparr>"

lemma dismissed_meanwhile:
  "C (DismissItem ''R2'' ''A1'') \<Longrightarrow> others_do sample_server C (world dismissed_meanwhile)"
  "ws_pg (world dismissed_meanwhile) = ws_pg (world live_again)"
  by (rule others_do_effects [of _ _ "[DismissItem ''R2'' ''A1'']"]) (auto simp: dismissed_meanwhile_def)

theorem redelivery_adds_nothing_witness:
  "item_keys (ws_pg (world (snd (Dispatch (\<lambda>_. True)
      \<lparr>dp_store = on_pg_store (pg_store sample_server), dp_providers = Some live_registry\<rparr> (Some sample_message) dismissed_meanwhile))))
    = item_keys (ws_pg (world live_again))
   \<and> find_delivery ''a1'' ''r1'' (ws_pg (world (snd (Dispatch (\<lambda>_. True)
      \<lparr>dp_store = on_pg_store (pg_store sample_server), dp_providers = Some live_registry\<rparr> (Some sample_message) dismissed_meanwhile))))
    = find_delivery ''a1'' ''r1'' (ws_pg (world live_again))
   \<and> addressed sample_message (world live_again) \<noteq> []"
proof -
  let ?d = "\<lparr>dp_store = on_pg_store (pg_store sample_server), dp_providers = Some live_registry\<rparr>"
  note again = dismissed_meanwhile(2)
  have pg: "pg_inv (ws_pg (world dismissed_meanwhile))"
    unfolding again by (rule kept_inv [OF live_kept live_by_operations live_facts(3)])
  have id: "n_ID sample_message \<noteq> []" "uuid_cast sample_server (n_ID sample_message) = Some ''a1''" "uuid_cast sample_server ''a1'' = Some ''a1''"
    "uuid_cast sample_server ''R2'' \<noteq> Some ''r1''"
    by code_simp+
  have same: "addressed sample_message (world dismissed_meanwhile) = addressed sample_message (world live_again)"
    by (simp add: addressed_def again)
  have rest: "preferences_rest sample_server r (world dismissed_meanwhile)" for r
    unfolding preferences_rest_def by (auto intro!: dismissed_meanwhile(1) simp: sets_preference_def)
  have "\<forall>r \<in> set (addressed sample_message (world dismissed_meanwhile)). preferences_rest sample_server r (world dismissed_meanwhile)
      \<and> (chosen (stored_preferences sample_server r (world dismissed_meanwhile)) (Normalize sample_message) ChannelSite \<longrightarrow>
      (\<exists>u. uuid_cast sample_server r = Some u \<and> find_delivery ''a1'' u (ws_pg (world dismissed_meanwhile)) \<noteq> None))"
    using live_again(1) rest unfolding same again by (auto simp: list_all_iff)
  note adds = redelivery_adds_nothing [OF live_registry live_facts(1) pg id(1-3) this dismissed_meanwhile(1) dismissed_meanwhile(1)
      prod.collapse [symmetric], of "\<lambda>_. True"]
  have "others_do sample_server (\<lambda>op. \<not> reads_item sample_server ''r1'' ''a1'' op \<and> \<not> dismisses_item sample_server ''r1'' ''a1'' op)
      (world dismissed_meanwhile)"
    by (rule dismissed_meanwhile(1)) (use id(4) in \<open>simp add: reads_item_def dismisses_item_def\<close>)
  with adds live_again(2) show ?thesis
    unfolding again by (simp add: edits_topics_def inserts_def)
qed

end
