(* ===== verification/Handlers.thy ===== *)
theory Handlers
  imports Http StoreQueries
begin

text \<open>
  The handlers of the users' API: \<open>internal/inbox/handler.go\<close>, \<open>internal/preferences/handler.go\<close>,
  \<open>internal/pushsubscription/handler.go\<close> and \<open>internal/vapid/handler.go\<close>. Each package's store interface
  is a record of operations on a state \<open>'s\<close>; the service gives them the operations of \<open>Store\<close>.
\<close>

section \<open>The inbox\<close>

record 's inbox_ops =
  io_ListInbox :: "string \<Rightarrow> int \<Rightarrow> int \<Rightarrow> 's \<Rightarrow> (goerr + delivery list) \<times> 's"
  io_CountUnread :: "string \<Rightarrow> 's \<Rightarrow> (goerr + nat) \<times> 's"
  io_MarkRead :: "string \<Rightarrow> string \<Rightarrow> 's \<Rightarrow> error \<times> 's"
  io_Dismiss :: "string \<Rightarrow> string \<Rightarrow> 's \<Rightarrow> error \<times> 's"

definition page_limit :: "string \<Rightarrow> goerr + int" where
  "page_limit raw =
     (if raw = [] then Inr 50
      else (case atoi raw of
              None \<Rightarrow> Inl (CsarError Validation ''limit must be between 1 and 100'' [])
            | Some v \<Rightarrow> if v < 1 \<or> v > 100 then Inl (CsarError Validation ''limit must be between 1 and 100'' [])
                        else Inr v))"

definition page_offset :: "string \<Rightarrow> goerr + int" where
  "page_offset raw =
     (if raw = [] then Inr 0
      else (case atoi raw of
              None \<Rightarrow> Inl (CsarError Validation ''offset must be >= 0'' [])
            | Some v \<Rightarrow> if v < 0 then Inl (CsarError Validation ''offset must be >= 0'' []) else Inr v))"

definition pageParams :: "request \<Rightarrow> goerr + int \<times> int" where
  "pageParams r =
     (case page_limit (hr_query r ''limit'') of
        Inl e \<Rightarrow> Inl e
      | Inr limit \<Rightarrow>
          (case page_offset (hr_query r ''offset'') of Inl e \<Rightarrow> Inl e | Inr offset \<Rightarrow> Inr (limit, offset)))"

definition inbox_list :: "(string \<Rightarrow> bool) \<Rightarrow> 's inbox_ops \<Rightarrow> request \<Rightarrow> 's \<Rightarrow> response \<times> 's" where
  "inbox_list uuid_ok ops r =
     with_subject uuid_ok r (\<lambda>subject s.
       case pageParams r of
         Inl err \<Rightarrow> (WriteError err, s)
       | Inr (limit, offset) \<Rightarrow>
           (case io_ListInbox ops subject limit offset s of
              (Inl err, s') \<Rightarrow> (WriteError err, s')
            | (Inr items, s') \<Rightarrow>
                (WriteJSON StatusOK [(''items'', BDeliveries items), (''limit'', BInt limit), (''offset'', BInt offset)], s')))"

definition inbox_count :: "(string \<Rightarrow> bool) \<Rightarrow> 's inbox_ops \<Rightarrow> request \<Rightarrow> 's \<Rightarrow> response \<times> 's" where
  "inbox_count uuid_ok ops r =
     with_subject uuid_ok r (\<lambda>subject s.
       case io_CountUnread ops subject s of
         (Inl err, s') \<Rightarrow> (WriteError err, s')
       | (Inr k, s') \<Rightarrow> (WriteJSON StatusOK [(''unread'', BInt (int k))], s'))"

definition updateState ::
  "(string \<Rightarrow> bool) \<Rightarrow> (string \<Rightarrow> string \<Rightarrow> 's \<Rightarrow> error \<times> 's) \<Rightarrow> request \<Rightarrow> 's \<Rightarrow> response \<times> 's" where
  "updateState uuid_ok fn r =
     with_subject uuid_ok r (\<lambda>subject s.
       if \<not> uuid_ok (hr_id r) then
         (WriteError (CsarError Validation ''notification id must be a valid UUID'' []), s)
       else
         (case fn subject (hr_id r) s of
            (Some err, s') \<Rightarrow>
              (if err = ErrNoRows then (WriteError (CsarError NotFound ''notification not found'' []), s')
               else (WriteError err, s'))
          | (None, s') \<Rightarrow> (WriteJSON StatusOK [(''status'', BStr ''ok'')], s')))"

definition inbox_markRead :: "(string \<Rightarrow> bool) \<Rightarrow> 's inbox_ops \<Rightarrow> request \<Rightarrow> 's \<Rightarrow> response \<times> 's" where
  "inbox_markRead uuid_ok ops r = updateState uuid_ok (io_MarkRead ops) r"

definition inbox_dismiss :: "(string \<Rightarrow> bool) \<Rightarrow> 's inbox_ops \<Rightarrow> request \<Rightarrow> 's \<Rightarrow> response \<times> 's" where
  "inbox_dismiss uuid_ok ops r = updateState uuid_ok (io_Dismiss ops) r"

definition pg_inbox_ops :: "pg_server \<Rightarrow> pg inbox_ops" where
  "pg_inbox_ops X = \<lparr>io_ListInbox = ListInbox X, io_CountUnread = CountUnread X,
     io_MarkRead = MarkRead X, io_Dismiss = Dismiss X\<rparr>"

section \<open>Preferences\<close>

record 's preference_ops =
  po_GetPreferences :: "string \<Rightarrow> 's \<Rightarrow> (goerr + preference list) \<times> 's"
  po_UpsertPreference :: "string \<Rightarrow> preference option \<Rightarrow> 's \<Rightarrow> error \<times> 's"

fun topics_loop :: "string list \<Rightarrow> string list \<Rightarrow> string list" where
  "topics_loop seen [] = []"
| "topics_loop seen (topic # rest) =
     (let topic = trim_space topic in
      if topic = [] then topics_loop seen rest
      else if topic \<in> set seen then topics_loop seen rest
      else topic # topics_loop (topic # seen) rest)"

definition normalizeTopics :: "string list \<Rightarrow> string list" where
  "normalizeTopics ts = (if length ts = 0 then [] else topics_loop [] ts)"

definition list_preferences :: "'s preference_ops \<Rightarrow> string \<Rightarrow> 's \<Rightarrow> response \<times> 's" where
  "list_preferences ops subject s =
     (case po_GetPreferences ops subject s of
        (Inl err, s') \<Rightarrow> (WriteError err, s')
      | (Inr prefs, s') \<Rightarrow> (WriteJSON StatusOK [(''items'', BPreferences (MergeDefaults subject prefs))], s'))"

definition preferences_list :: "(string \<Rightarrow> bool) \<Rightarrow> 's preference_ops \<Rightarrow> request \<Rightarrow> 's \<Rightarrow> response \<times> 's" where
  "preferences_list uuid_ok ops r = with_subject uuid_ok r (list_preferences ops)"

definition preference_to_store :: "preference \<Rightarrow> preference" where
  "preference_to_store pref =
     pref\<lparr>p_Channel := trim_space (p_Channel pref), p_Topics := normalizeTopics (p_Topics pref),
          p_Config := (if length (p_Config pref) = 0 then ''{}'' else p_Config pref)\<rparr>"

definition preferences_put ::
  "(string \<Rightarrow> bool) \<Rightarrow> 's preference_ops \<Rightarrow> goerr + preference \<Rightarrow> request \<Rightarrow> 's \<Rightarrow> response \<times> 's" where
  "preferences_put uuid_ok ops body r =
     with_subject uuid_ok r (\<lambda>subject s.
       case body of
         Inl err \<Rightarrow> (WriteError err, s)
       | Inr pref \<Rightarrow>
           if \<not> channel_Valid (trim_space (p_Channel pref)) then
             (WriteError (CsarError Validation ''channel is invalid'' []), s)
           else
             (case po_UpsertPreference ops subject (Some (preference_to_store pref)) s of
                (Some err, s') \<Rightarrow> (WriteError err, s')
              | (None, s') \<Rightarrow> list_preferences ops subject s'))"

definition pg_preference_ops :: "pg_server \<Rightarrow> pg preference_ops" where
  "pg_preference_ops X = \<lparr>po_GetPreferences = GetPreferences X, po_UpsertPreference = UpsertPreference X\<rparr>"

section \<open>Push subscriptions\<close>

record 's push_ops =
  so_Upsert :: "string \<Rightarrow> string \<Rightarrow> string \<Rightarrow> string \<Rightarrow> string \<Rightarrow> 's \<Rightarrow> error \<times> 's"
  so_Delete :: "string \<Rightarrow> string \<Rightarrow> 's \<Rightarrow> error \<times> 's"

record subscribeRequest = sr_Subscription :: string  sr_UserAgent :: string

record browser_subscription =
  bs_Endpoint :: string
  bs_P256dh :: string
  bs_Auth :: string

definition key_fields :: "browser_subscription field list" where
  "key_fields =
     [(''p256dh'', \<lambda>v b. map_option (\<lambda>x. b\<lparr>bs_P256dh := x\<rparr>) (dec_string v (bs_P256dh b))),
      (''auth'', \<lambda>v b. map_option (\<lambda>x. b\<lparr>bs_Auth := x\<rparr>) (dec_string v (bs_Auth b)))]"

definition subscription_fields :: "browser_subscription field list" where
  "subscription_fields =
     [(''endpoint'', \<lambda>v b. map_option (\<lambda>x. b\<lparr>bs_Endpoint := x\<rparr>) (dec_string v (bs_Endpoint b))),
      (''keys'', \<lambda>v b. dec_struct key_fields v b)]"

definition push_post ::
  "(string \<Rightarrow> bool) \<Rightarrow> 's push_ops \<Rightarrow> goerr + subscribeRequest \<Rightarrow> request \<Rightarrow> 's \<Rightarrow> response \<times> 's" where
  "push_post uuid_ok ops body r =
     with_subject uuid_ok r (\<lambda>subject s.
       case body of
         Inl err \<Rightarrow> (WriteError err, s)
       | Inr req \<Rightarrow>
           (case unmarshal_struct subscription_fields (sr_Subscription req)
                   \<lparr>bs_Endpoint = [], bs_P256dh = [], bs_Auth = []\<rparr> of
              None \<Rightarrow> (WriteError (CsarError Validation ''invalid subscription JSON'' []), s)
            | Some sub \<Rightarrow>
                (let ep = trim_space (bs_Endpoint sub); p256dh = trim_space (bs_P256dh sub); auth = trim_space (bs_Auth sub)
                 in if ep = [] \<or> p256dh = [] \<or> auth = [] then
                      (WriteError (CsarError Validation ''subscription.endpoint and keys are required'' []), s)
                    else
                      (case so_Upsert ops subject ep p256dh auth (trim_space (sr_UserAgent req)) s of
                         (Some err, s') \<Rightarrow> (WriteError err, s')
                       | (None, s') \<Rightarrow> (WriteHeader StatusNoContent, s')))))"

definition push_delete ::
  "(string \<Rightarrow> bool) \<Rightarrow> 's push_ops \<Rightarrow> goerr + string \<Rightarrow> request \<Rightarrow> 's \<Rightarrow> response \<times> 's" where
  "push_delete uuid_ok ops body r =
     with_subject uuid_ok r (\<lambda>subject s.
       case body of
         Inl err \<Rightarrow> (WriteError err, s)
       | Inr endpoint \<Rightarrow>
           (let ep = trim_space endpoint
            in if ep = [] then (WriteError (CsarError Validation ''endpoint is required'' []), s)
               else (case so_Delete ops subject ep s of
                       (Some err, s') \<Rightarrow> (WriteError err, s')
                     | (None, s') \<Rightarrow> (WriteHeader StatusNoContent, s'))))"

definition pg_push_ops :: "pg_server \<Rightarrow> pg push_ops" where
  "pg_push_ops X = \<lparr>so_Upsert = UpsertPushSubscription X, so_Delete = DeletePushSubscription X\<rparr>"

section \<open>The VAPID key\<close>

definition vapid_get :: "string option \<Rightarrow> response" where
  "vapid_get h = WriteJSON StatusOK [(''public_key'', BStr (case h of None \<Rightarrow> [] | Some key \<Rightarrow> key))]"

end
