(* ===== verification/HandlerProps.thy ===== *)
theory HandlerProps
  imports Handlers
begin

text \<open>
  What the handlers of the users' API answer on each branch, over the PostgreSQL store.
\<close>

section \<open>Identity\<close>

lemma with_subject_rejected:
  "SubjectFromRequest uuid_ok r = Inl e \<Longrightarrow> with_subject uuid_ok r body s = (WriteError e, s)"
  by (simp add: with_subject_def)

lemma with_subject_accepted:
  "SubjectFromRequest uuid_ok r = Inr u \<Longrightarrow> with_subject uuid_ok r body s = body u s"
  by (simp add: with_subject_def)

section \<open>The answers\<close>

definition request_of :: "string \<Rightarrow> request" where
  "request_of subject = \<lparr>hr_identity = Some subject, hr_id = ''A1'', hr_query = (\<lambda>_. [])\<rparr>"

lemma ErrNoRows_not_wrapped [simp]: "Wrapf f as e \<noteq> ErrNoRows" "ErrNoRows \<noteq> Wrapf f as e"
  by (simp_all add: ErrNoRows_def)

text \<open>
  Marking an item read, the database answering: 200 exactly when the caller is identified, the id is
  a UUID and the caller has the item; 404 exactly when he is, it is and he has not; and after 200
  the item is read.
\<close>

theorem mark_read_answers:
  assumes "pg_faults s = []" and "inbox_markRead uuid_ok (pg_inbox_ops X) req s = (resp, s')"
  shows "(resp = WriteJSON StatusOK [(''status'', BStr ''ok'')] \<longleftrightarrow>
       (\<exists>v u n. SubjectFromRequest uuid_ok req = Inr v \<and> uuid_ok (hr_id req) \<and> uuid_cast X v = Some u
          \<and> uuid_cast X (hr_id req) = Some n \<and> find_delivery n u s \<noteq> None \<and> (\<exists>d. find_delivery n u s' = Some d \<and> dr_read d)))
     \<and> (resp = WriteError (CsarError NotFound ''notification not found'' []) \<longleftrightarrow>
       (\<exists>v u n. SubjectFromRequest uuid_ok req = Inr v \<and> uuid_ok (hr_id req) \<and> uuid_cast X v = Some u
          \<and> uuid_cast X (hr_id req) = Some n \<and> find_delivery n u s = None))"
proof (cases rule: subject_cases [of uuid_ok req])
  case (rejected e)
  then have "resp = WriteError e"
    using assms(2) by (simp add: inbox_markRead_def updateState_def with_subject_rejected)
  then show ?thesis using rejected by (auto simp: unauthorized_def)
next
  case (accepted v)
  note sub = accepted(1)
  show ?thesis
  proof (cases "uuid_ok (hr_id req)")
    case False
    then have "resp = WriteError (CsarError Validation ''notification id must be a valid UUID'' [])"
      using assms(2) sub by (simp add: inbox_markRead_def updateState_def with_subject_accepted)
    then show ?thesis using False by simp
  next
    case ok: True
    have run: "(resp, s') = (case MarkRead X v (hr_id req) s of
        (Some err, t) \<Rightarrow> (if err = ErrNoRows then (WriteError (CsarError NotFound ''notification not found'' []), t)
           else (WriteError err, t)) | (None, t) \<Rightarrow> (WriteJSON StatusOK [(''status'', BStr ''ok'')], t))"
      using assms(2) ok sub by (simp add: inbox_markRead_def updateState_def with_subject_accepted pg_inbox_ops_def)
    show ?thesis
    proof (cases "uuid_cast X v = None \<or> uuid_cast X (hr_id req) = None")
      case True
      then have "MarkRead X v (hr_id req) s
          = (Some (Wrapf ''mark read: %w'' [] (sql_error ''invalid input syntax for type uuid'')), s)"
        by (auto simp: MarkRead_def pg_run_no_faults [OF assms(1)] sql_update_deliveries_def split: option.split)
      then show ?thesis using run sub True by auto
    next
      case False
      then obtain u n where un: "uuid_cast X v = Some u" "uuid_cast X (hr_id req) = Some n" by auto
      show ?thesis
      proof (cases "find_delivery n u s")
        case None
        then show ?thesis using run sub ok un MarkRead_missing [OF assms(1) un None] by auto
      next
        case (Some d)
        have "fst (MarkRead X v (hr_id req) s) = None"
          using MarkRead_rows [OF assms(1) un] Some by simp
        then have "resp = WriteJSON StatusOK [(''status'', BStr ''ok'')]" "s' = snd (MarkRead X v (hr_id req) s)"
          using run by (auto simp del: snd_store_op split: prod.splits)
        moreover have "find_delivery n u (snd (MarkRead X v (hr_id req) s)) = Some (set_read s d)"
          using MarkRead_found(1) [OF assms(1) un Some, of n u] by (simp only: simp_thms if_True)
        ultimately show ?thesis using sub ok un Some by (auto simp: set_read_def)
      qed
    qed
  qed
qed

theorem mark_read_answers_witness:
  "fst (inbox_markRead (\<lambda>_. True) (pg_inbox_ops sample_server) (request_of ''R1'') sample_pg)
     = WriteJSON StatusOK [(''status'', BStr ''ok'')]"
proof -
  obtain resp s' where run: "inbox_markRead (\<lambda>_. True) (pg_inbox_ops sample_server) (request_of ''R1'') sample_pg = (resp, s')"
    by fastforce
  have "resp \<noteq> WriteError (CsarError NotFound ''notification not found'' [])"
    using mark_read_answers [OF sample_visible(1) run]
    by (simp add: SubjectFromRequest_def request_of_def sample_inbox)
       (simp add: sample_pg_eq empty_pg_def find_delivery_def new_delivery_def)
  moreover have "fst (MarkRead sample_server ''R1'' ''A1'' sample_pg) = None" by (rule sample_inbox(4))
  then have "resp = WriteJSON StatusOK [(''status'', BStr ''ok'')]"
    using run by (auto simp: inbox_markRead_def updateState_def with_subject_def SubjectFromRequest_def request_of_def
        pg_inbox_ops_def split: prod.splits option.splits)
  ultimately show ?thesis using run by simp
qed

lemma page_limit_show: "1 \<le> l \<Longrightarrow> l \<le> 100 \<Longrightarrow> page_limit (show_nat l) = Inr (int l)"
  using show_nat_digits [of l] by (simp add: page_limit_def atoi_show_nat)

lemma page_offset_show: "int k < 2 ^ 63 \<Longrightarrow> page_offset (show_nat k) = Inr (int k)"
  using show_nat_digits [of k] by (simp add: page_offset_def atoi_show_nat)

text \<open>
  A page of the inbox through the API: for a limit between 1 and 100 and an offset, written in decimal
  in the query, an identified user gets exactly that slice of his visible items, newest first, with
  the limit and offset he asked for.
\<close>

theorem inbox_page_answer:
  assumes "pg_faults s = []" and "SubjectFromRequest uuid_ok req = Inr v" and "uuid_cast X v = Some u"
    and "hr_query req ''limit'' = show_nat l" and "1 \<le> l" and "l \<le> 100"
    and "hr_query req ''offset'' = show_nat k" and "int k < 2 ^ 63"
  shows "inbox_list uuid_ok (pg_inbox_ops X) req s =
    (WriteJSON StatusOK [(''items'', BDeliveries (scan_rows (take l (drop k (ordered_inbox u s))))),
        (''limit'', BInt (int l)), (''offset'', BInt (int k))], s)"
proof -
  have "pageParams req = Inr (int l, int k)"
    using assms(4-8) by (simp add: pageParams_def page_limit_show page_offset_show)
  then show ?thesis
    using assms(5,6) by (simp add: inbox_list_def with_subject_accepted [OF assms(2)] pg_inbox_ops_def
        ListInbox_rows [OF assms(1,3)])
qed

theorem inbox_page_answer_witness:
  "fst (inbox_list (\<lambda>_. True) (pg_inbox_ops sample_server)
      \<lparr>hr_identity = Some ''R1'', hr_id = [], hr_query = (\<lambda>k. if k = ''limit'' then show_nat 10 else show_nat 0)\<rparr> sample_pg)
     = WriteJSON StatusOK [(''items'', BDeliveries (scan_rows (take 10 (drop 0 (ordered_inbox ''r1'' sample_pg))))),
        (''limit'', BInt 10), (''offset'', BInt 0)]"
proof -
  let ?req = "\<lparr>hr_identity = Some ''R1'', hr_id = [], hr_query = (\<lambda>k. if k = ''limit'' then show_nat 10 else show_nat 0)\<rparr>"
  have "SubjectFromRequest (\<lambda>_. True) ?req = Inr ''R1''" by (simp add: SubjectFromRequest_def)
  from inbox_page_answer [OF sample_visible(1) this sample_inbox(2), of 10 0] show ?thesis by simp
qed

section \<open>Preferences through the API\<close>

lemma topics_loop_unique: "topics_loop seen ts = unique_loop seen ts"
  by (induction seen ts rule: topics_loop.induct) (simp_all add: Let_def)

lemma normalizeTopics_eq: "normalizeTopics ts = uniqueStrings ts"
  by (simp add: normalizeTopics_def uniqueStrings_def topics_loop_unique)

lemma merge_find:
  "find (\<lambda>q. p_Channel q = c) (MergeDefaults subject prefs)
      = (case find (\<lambda>q. p_Channel q = c) (rev prefs) of
           Some q \<Rightarrow> Some q | None \<Rightarrow> find (\<lambda>q. p_Channel q = c) (DefaultPreferences subject))"
proof -
  have "indexes (DefaultPreferences subject) [ChannelSite \<mapsto> 0, ChannelWebPush \<mapsto> 1]"
    by (auto simp: indexes_def DefaultPreferences_def channel_defs less_Suc_eq nth_Cons split: nat.splits)
  from merge_loop_spec [OF this, of prefs c] show ?thesis by (simp add: MergeDefaults_def)
qed

lemma find_rev_distinct:
  assumes "distinct (map f xs)"
  shows "find (\<lambda>x. f x = c) (rev xs) = find (\<lambda>x. f x = c) xs"
proof -
  have d: "distinct (map f (rev xs))" using assms by (simp add: rev_map [symmetric])
  show ?thesis
    using find_key_iff [OF assms, of c] find_key_iff [OF d, of c] by (cases "find (\<lambda>x. f x = c) xs")
      (metis (no_types, lifting) not_None_eq set_rev)+
qed

text \<open>
  A user who stores a preference for a valid channel sees it at once: the answer is 200 and lists for
  that channel the flag he sent, his topics trimmed and without repetitions, and the configuration
  as the database stores it, \<open>{}\<close> when he sent none.
\<close>

theorem put_preference_shown:
  assumes "pg_inv s" and "pg_faults s = []" and "SubjectFromRequest uuid_ok req = Inr v" and "uuid_cast X v = Some u"
    and "channel_Valid (trim_space (p_Channel pref))"
    and "jsonb X (rawJSON (p_Config (preference_to_store pref))) = Some cfg"
  shows "\<exists>items s'. preferences_put uuid_ok (pg_preference_ops X) (Inr pref) req s
        = (WriteJSON StatusOK [(''items'', BPreferences items)], s')
     \<and> find (\<lambda>q. p_Channel q = trim_space (p_Channel pref)) items
        = Some \<lparr>p_Subject = v, p_Channel = trim_space (p_Channel pref), p_Enabled = p_Enabled pref, p_Config = cfg,
                p_Topics = uniqueStrings (p_Topics pref), p_UpdatedAt = pg_now s\<rparr>"
proof -
  let ?p = "preference_to_store pref"
  obtain s1 where s1: "UpsertPreference X v (Some ?p) s = (None, s1)" "pg_faults s1 = []"
    "\<And>u' c. stored_preference u' c s1 = (if u' = u \<and> c = p_Channel ?p
        then Some (preference_row_of u c (p_Enabled ?p) cfg (p_Topics ?p) (pg_now s)) else stored_preference u' c s)"
    using stored_preference_upsert [OF assms(2,4,6)] by blast
  have "pg_inv s1" using pg_inv_operations(5) [OF assms(1), of X v "Some ?p"] s1(1) by simp
  then obtain prefs where prefs: "GetPreferences X v s1 = (Inr prefs, s1)" "distinct (map p_Channel prefs)"
    "\<And>c. find (\<lambda>q. p_Channel q = c) prefs = map_option (scan_preference v) (stored_preference u c s1)"
    using GetPreferences_find [OF _ s1(2) assms(4)] by blast
  have run: "preferences_put uuid_ok (pg_preference_ops X) (Inr pref) req s
      = (WriteJSON StatusOK [(''items'', BPreferences (MergeDefaults v prefs))], s1)"
    using assms(5) s1(1) prefs(1)
    by (simp add: preferences_put_def with_subject_accepted [OF assms(3)] pg_preference_ops_def list_preferences_def)
  have "find (\<lambda>q. p_Channel q = p_Channel ?p) (MergeDefaults v prefs)
      = Some (scan_preference v (preference_row_of u (p_Channel ?p) (p_Enabled ?p) cfg (p_Topics ?p) (pg_now s)))"
    unfolding merge_find find_rev_distinct [OF prefs(2)] prefs(3) s1(3) by simp
  then show ?thesis
    using run by (simp add: scan_preference_def preference_row_of_def preference_to_store_def normalizeTopics_eq)
qed

theorem put_preference_shown_witness:
  "\<exists>items s'. preferences_put (\<lambda>_. True) (pg_preference_ops sample_server)
        (Inr \<lparr>p_Subject = [], p_Channel = '' email'', p_Enabled = True, p_Config = [], p_Topics = [''a'', '' a''], p_UpdatedAt = 0\<rparr>)
        (request_of ''R1'') sample_pg = (WriteJSON StatusOK [(''items'', BPreferences items)], s')
     \<and> find (\<lambda>q. p_Channel q = ''email'') items \<noteq> None"
proof -
  let ?pref = "\<lparr>p_Subject = [], p_Channel = '' email'', p_Enabled = True, p_Config = [], p_Topics = [''a'', '' a''], p_UpdatedAt = 0\<rparr>"
  have tr: "trim_space '' email'' = ''email''" by code_simp
  have "SubjectFromRequest (\<lambda>_. True) (request_of ''R1'') = Inr ''R1''" by (simp add: SubjectFromRequest_def request_of_def)
  moreover have "channel_Valid (trim_space (p_Channel ?pref))" by (simp add: tr channel_Valid_def ChannelEmail_def)
  moreover have "jsonb sample_server (rawJSON (p_Config (preference_to_store ?pref))) = Some ''{}''"
    by (simp add: sample_server_def rawJSON_def preference_to_store_def)
  ultimately show ?thesis
    using put_preference_shown [OF sample_inbox(1) sample_visible(1) _ sample_inbox(2), of "\<lambda>_. True" "request_of ''R1''" ?pref]
    by (fastforce simp: tr)
qed

end
