(* ===== verification/Api.thy ===== *)
theory Api
  imports HandlerProps Ingest WiringProps
begin

text \<open>
  The HTTP interface of the service as one operation: the mux that \<open>run\<close> builds in
  \<open>cmd/csar-notify/main.go\<close> with the handlers registered on it, over the database, the intake buffer and
  the hub. A request reaches the mux through the third-party middleware: it has an
  identity or none, and its body has been read for the struct of the handler that reads it. The
  buffer is open as long as requests are served (\<open>submit_open\<close>).
\<close>

record api_request =
  ap_verb :: string
  ap_path :: "string list"
  ap_identity :: "string option"
  ap_query :: "string \<Rightarrow> string"
  ap_flusher :: bool
  ap_notifications :: "goerr + notification option list"
  ap_preference :: "goerr + preference"
  ap_subscription :: "goerr + subscribeRequest"
  ap_endpoint :: "goerr + string"

record service =
  sv_pg :: pg
  sv_intake :: "buffer intake"
  sv_hub :: hub_sys

text \<open>What the client sees: the response of a handler, an error text of \<open>net/http\<close>, or an open stream.\<close>

datatype reply = Answer response | HttpError string int | Streaming string string

section \<open>The handlers on the service's state\<close>

definition PathValue_id :: "string list \<Rightarrow> string" where
  "PathValue_id path = (case path of [_, i, _] \<Rightarrow> i | _ \<Rightarrow> [])"

definition handler_request :: "api_request \<Rightarrow> request" where
  "handler_request r = \<lparr>hr_identity = ap_identity r, hr_id = PathValue_id (ap_path r), hr_query = ap_query r\<rparr>"

definition stream_request :: "api_request \<Rightarrow> sse_request" where
  "stream_request r = \<lparr>sq_flusher = ap_flusher r, sq_identity = ap_identity r, sq_target = ap_query r ''target''\<rparr>"

definition on_database :: "(pg \<Rightarrow> response \<times> pg) \<Rightarrow> service \<Rightarrow> reply \<times> service" where
  "on_database f s = (case f (sv_pg s) of (resp, p) \<Rightarrow> (Answer resp, s\<lparr>sv_pg := p\<rparr>))"

definition stream_reply :: "(string \<times> int) + (string \<times> string) \<Rightarrow> reply" where
  "stream_reply a = (case a of Inl (msg, code) \<Rightarrow> HttpError msg code | Inr (target, subject) \<Rightarrow> Streaming target subject)"

fun handle :: "(string \<Rightarrow> bool) \<Rightarrow> pg_server \<Rightarrow> config \<Rightarrow> endpoint \<Rightarrow> api_request \<Rightarrow> service \<Rightarrow> reply \<times> service" where
  "handle uuid_ok X cfg IngestPost r s =
     (case ingest_ServeHTTP uuid_ok submit_open (ap_notifications r) (sv_intake s) of
        (resp, b) \<Rightarrow> (Answer resp, s\<lparr>sv_intake := b\<rparr>))"
| "handle uuid_ok X cfg InboxGet r s = on_database (inbox_list uuid_ok (pg_inbox_ops X) (handler_request r)) s"
| "handle uuid_ok X cfg CountGet r s = on_database (inbox_count uuid_ok (pg_inbox_ops X) (handler_request r)) s"
| "handle uuid_ok X cfg ReadPatch r s = on_database (inbox_markRead uuid_ok (pg_inbox_ops X) (handler_request r)) s"
| "handle uuid_ok X cfg DismissPatch r s = on_database (inbox_dismiss uuid_ok (pg_inbox_ops X) (handler_request r)) s"
| "handle uuid_ok X cfg PreferencesGet r s = on_database (preferences_list uuid_ok (pg_preference_ops X) (handler_request r)) s"
| "handle uuid_ok X cfg PreferencesPut r s =
     on_database (preferences_put uuid_ok (pg_preference_ops X) (ap_preference r) (handler_request r)) s"
| "handle uuid_ok X cfg VapidKeyGet r s =
     (Answer (vapid_get (Some (wp_VAPIDPublicKey (pc_WebPush (c_Providers cfg))))), s)"
| "handle uuid_ok X cfg SubscriptionsPost r s =
     on_database (push_post uuid_ok (pg_push_ops X) (ap_subscription r) (handler_request r)) s"
| "handle uuid_ok X cfg SubscriptionsDelete r s =
     on_database (push_delete uuid_ok (pg_push_ops X) (ap_endpoint r) (handler_request r)) s"
| "handle uuid_ok X cfg StreamGet r s =
     (stream_reply (sse_admit uuid_ok (hs_hub (sv_hub s)) (stream_request r)),
      s\<lparr>sv_hub := sse_connect uuid_ok (stream_request r) (sv_hub s)\<rparr>)"

section \<open>The mux\<close>

definition endpoint_of :: "api_request \<Rightarrow> endpoint option" where
  "endpoint_of r = (case matching (ap_verb r) (ap_path r) of [] \<Rightarrow> None | (_, _, e) # _ \<Rightarrow> Some e)"

text \<open>A path that other methods are registered for is answered with 405, any other with 404.\<close>

definition unrouted :: "api_request \<Rightarrow> reply" where
  "unrouted r =
     (if list_ex (\<lambda>(_, ps, _). segments_match ps (ap_path r)) service_mux
      then HttpError ''Method Not Allowed'' 405 else HttpError ''404 page not found'' 404)"

definition serve :: "(string \<Rightarrow> bool) \<Rightarrow> pg_server \<Rightarrow> config \<Rightarrow> api_request \<Rightarrow> service \<Rightarrow> reply \<times> service" where
  "serve uuid_ok X cfg r s =
     (case endpoint_of r of None \<Rightarrow> (unrouted r, s) | Some e \<Rightarrow> handle uuid_ok X cfg e r s)"

text \<open>A request with the time at which it is served.\<close>

definition serve_at :: "(string \<Rightarrow> bool) \<Rightarrow> pg_server \<Rightarrow> config \<Rightarrow> gotime \<times> api_request \<Rightarrow> service \<Rightarrow> reply \<times> service" where
  "serve_at uuid_ok X cfg x s = serve uuid_ok X cfg (snd x) (s\<lparr>sv_pg := (sv_pg s)\<lparr>pg_now := fst x\<rparr>\<rparr>)"

end
