(* ===== verification/ApiProps.thy ===== *)
theory ApiProps
  imports Api
begin

text \<open>
  What the HTTP interface promises as a whole: whatever the endpoint, a request changes nothing of
  another user, an unidentified request changes nothing but the intake, and the answers a user gets
  do not depend on what the others do.
\<close>

section \<open>What belongs to a user\<close>

record user_rows =
  ur_deliveries :: "delivery_row list"
  ur_preferences :: "preference_row list"
  ur_push :: "push_subscription_row list"

definition rows_of :: "string \<Rightarrow> pg \<Rightarrow> user_rows" where
  "rows_of u s = \<lparr>ur_deliveries = filter (\<lambda>d. dr_recipient d = u) (notification_deliveries s),
     ur_preferences = filter (\<lambda>q. pr_subject q = u) (notification_preferences s),
     ur_push = filter (\<lambda>q. ps_subject q = u) (push_subscriptions s)\<rparr>"

lemma rows_of_faults [simp]: "rows_of u (s\<lparr>pg_faults := fs\<rparr>) = rows_of u s"
  "rows_of u (s\<lparr>pg_now := t\<rparr>) = rows_of u s"
  by (simp_all add: rows_of_def)

text \<open>The part of the database that one user's requests may not touch for another user \<open>u\<close>.\<close>

definition spared :: "string \<Rightarrow> pg \<Rightarrow> pg \<Rightarrow> bool" where
  "spared u s s' \<longleftrightarrow> rows_of u s' = rows_of u s \<and> notifications s' = notifications s
     \<and> (pg_faults s = [] \<longrightarrow> pg_faults s' = [])"

lemma spared_refl [simp]: "spared u s s"
  by (simp add: spared_def)

lemma spared_run:
  assumes "\<And>s. spared u s (snd (stmt s))"
  shows "spared u s (snd (pg_run stmt s))"
proof (cases rule: pg_run_cases [of s stmt])
  case (fault e fs)
  then show ?thesis by (simp add: spared_def)
next
  case (run fs)
  then show ?thesis using assms [of "s\<lparr>pg_faults := fs\<rparr>"] by (auto simp: spared_def)
qed

lemma filter_map_other:
  assumes "\<And>x. P x \<Longrightarrow> \<not> Q x \<and> \<not> Q (f x)"
  shows "filter Q (map (\<lambda>x. if P x then f x else x) xs) = filter Q xs"
  by (induction xs) (use assms in auto)

lemma spared_statements:
  assumes "uuid_cast X v \<noteq> Some u"
  shows "spared u s (snd (sql_get_preferences X r s))" "spared u s (snd (sql_count_unread X r s))"
    and "(\<And>s d. delivery_key (upd s d) = delivery_key d) \<Longrightarrow> spared u s (snd (sql_update_deliveries X upd v i s))"
    and "spared u s (snd (sql_upsert_preference X v ch en cfg ts s))"
    and "spared u s (snd (sql_upsert_push X v ep k a ua s))"
    and "spared u s (snd (sql_delete_push X v ep s))"
proof -
  show "spared u s (snd (sql_get_preferences X r s))" "spared u s (snd (sql_count_unread X r s))" by simp_all
  show "spared u s (snd (sql_update_deliveries X upd v i s))" if "\<And>s d. delivery_key (upd s d) = delivery_key d"
  proof -
    have "dr_recipient (upd t d) = dr_recipient d" for t d using that [of t d] by (simp add: delivery_key_def)
    then show ?thesis using assms
      by (auto simp: sql_update_deliveries_def spared_def rows_of_def Let_def intro!: filter_map_other split: option.split)
  qed
  show "spared u s (snd (sql_upsert_preference X v ch en cfg ts s))"
    using assms by (auto simp: sql_upsert_preference_def spared_def rows_of_def preference_row_of_def
        intro!: filter_upsert_row_other split: option.split)
  show "spared u s (snd (sql_upsert_push X v ep k a ua s))"
    using assms by (auto simp: sql_upsert_push_def spared_def rows_of_def push_row_of_def
        intro!: filter_upsert_row_other split: option.split)
  show "spared u s (snd (sql_delete_push X v ep s))"
    using assms by (auto simp: sql_delete_push_def spared_def rows_of_def intro!: filter_cong split: option.split)
qed

lemma spared_ops:
  assumes "uuid_cast X v \<noteq> Some u"
  shows "spared u s (snd (ListInbox X r l k s))" "spared u s (snd (CountUnread X r s))"
    "spared u s (snd (MarkRead X v i s))" "spared u s (snd (Dismiss X v i s))"
    "spared u s (snd (GetPreferences X r s))" "spared u s (snd (UpsertPreference X v pp s))"
    "spared u s (snd (UpsertPushSubscription X v ep pk a ua s))" "spared u s (snd (DeletePushSubscription X v ep s))"
proof -
  note stmt = spared_statements [OF assms]
  show "spared u s (snd (ListInbox X r l k s))" by (simp add: spared_def)
  show "spared u s (snd (UpsertPreference X v pp s))" by (simp add: spared_run stmt(4) split: option.split)
qed (simp_all add: spared_run spared_statements [OF assms] delivery_key_update)


section \<open>Isolation\<close>

lemma with_subject_state:
  assumes "\<And>v. hr_identity r = Some v \<Longrightarrow> P (snd (body v s))" and "P s"
  shows "P (snd (with_subject uuid_ok r body s))"
  by (cases rule: subject_cases [of uuid_ok r]) (use assms in \<open>simp_all add: with_subject_rejected with_subject_accepted\<close>)

lemma snd_list_preferences: "snd (list_preferences ops v s) = snd (po_GetPreferences ops v s)"
  by (simp add: list_preferences_def split: prod.split sum.split)

text \<open>What the store does for another identity spares the user.\<close>

lemma spared_result:
  assumes "uuid_cast X v \<noteq> Some u"
  shows "ListInbox X v l k s = (x1, s') \<Longrightarrow> spared u s s'" "CountUnread X v s = (x2, s') \<Longrightarrow> spared u s s'"
    "MarkRead X v i s = (x3, s') \<Longrightarrow> spared u s s'" "Dismiss X v i s = (x4, s') \<Longrightarrow> spared u s s'"
    "GetPreferences X v s = (x5, s') \<Longrightarrow> spared u s s'" "UpsertPreference X v pp s = (x6, s') \<Longrightarrow> spared u s s'"
    "UpsertPushSubscription X v ep pk a ua s = (x7, s') \<Longrightarrow> spared u s s'"
    "DeletePushSubscription X v ep s = (x8, s') \<Longrightarrow> spared u s s'"
  using spared_ops [OF assms, of s] by (metis snd_conv)+

lemma spared_trans: "spared u s s1 \<Longrightarrow> spared u s1 s2 \<Longrightarrow> spared u s s2"
  by (simp add: spared_def)

lemma list_preferences_spares:
  "uuid_cast X v \<noteq> Some u \<Longrightarrow> list_preferences (pg_preference_ops X) v s = (x, s') \<Longrightarrow> spared u s s'"
  by (auto simp: list_preferences_def pg_preference_ops_def dest: spared_result(5) split: prod.splits sum.splits)

lemmas api_handler_defs = inbox_list_def inbox_count_def inbox_markRead_def inbox_dismiss_def updateState_def
  preferences_list_def preferences_put_def push_post_def push_delete_def pg_inbox_ops_def pg_push_ops_def

lemma handlers_spare:
  assumes "\<forall>v. hr_identity r = Some v \<longrightarrow> uuid_cast X v \<noteq> Some u"
  shows "spared u s (snd (inbox_list uuid_ok (pg_inbox_ops X) r s))" (is ?list)
    and "spared u s (snd (inbox_count uuid_ok (pg_inbox_ops X) r s))" (is ?count)
    and "spared u s (snd (inbox_markRead uuid_ok (pg_inbox_ops X) r s))" (is ?read)
    and "spared u s (snd (inbox_dismiss uuid_ok (pg_inbox_ops X) r s))" (is ?dismiss)
    and "spared u s (snd (preferences_list uuid_ok (pg_preference_ops X) r s))" (is ?prefs)
    and "spared u s (snd (preferences_put uuid_ok (pg_preference_ops X) pbody r s))" (is ?put)
    and "spared u s (snd (push_post uuid_ok (pg_push_ops X) sbody r s))" (is ?post)
    and "spared u s (snd (push_delete uuid_ok (pg_push_ops X) dbody r s))" (is ?delete)
proof -
  have other: "hr_identity r = Some v \<Longrightarrow> uuid_cast X v \<noteq> Some u" for v using assms by simp
  note res = spared_result [OF other] and lst = list_preferences_spares [OF other]
  note splits = prod.splits sum.splits option.splits
  show ?list unfolding api_handler_defs by (rule with_subject_state) (auto split: splits dest: res(1))
  show ?count unfolding api_handler_defs by (rule with_subject_state) (auto split: splits dest: res(2))
  show ?read unfolding api_handler_defs by (rule with_subject_state) (auto split: splits dest: res(3))
  show ?dismiss unfolding api_handler_defs by (rule with_subject_state) (auto split: splits dest: res(4))
  show ?prefs unfolding api_handler_defs by (rule with_subject_state) (metis lst prod.collapse, simp)
  show ?put unfolding api_handler_defs
  proof (rule with_subject_state)
    fix v assume v: "hr_identity r = Some v"
    have put: "spared u s s2" if "po_UpsertPreference (pg_preference_ops X) v (Some p) s = (None, s1)"
      "list_preferences (pg_preference_ops X) v s1 = (x, s2)" for p s1 s2 x
      using that spared_trans [OF res(6) [OF v] lst [OF v]] by (auto simp: pg_preference_ops_def)
    show "spared u s (snd (case pbody of Inl err \<Rightarrow> (WriteError err, s)
       | Inr pref \<Rightarrow>
           if \<not> channel_Valid (trim_space (p_Channel pref)) then
             (WriteError (CsarError Validation ''channel is invalid'' []), s)
           else
             (case po_UpsertPreference (pg_preference_ops X) v (Some (preference_to_store pref)) s of
                (Some err, s') \<Rightarrow> (WriteError err, s')
              | (None, s') \<Rightarrow> list_preferences (pg_preference_ops X) v s')))"
      by (auto split: splits dest: put res(6) [OF v]) (metis put prod.collapse, simp add: pg_preference_ops_def res(6) [OF v])
  qed simp
  show ?post unfolding api_handler_defs by (rule with_subject_state) (auto simp: Let_def split: splits dest: res(7))
  show ?delete unfolding api_handler_defs by (rule with_subject_state) (auto simp: Let_def split: splits dest: res(8))
qed

lemma sv_on_database [simp]:
  "sv_pg (snd (on_database f s)) = snd (f (sv_pg s))" "fst (on_database f s) = Answer (fst (f (sv_pg s)))"
  "sv_intake (snd (on_database f s)) = sv_intake s" "sv_hub (snd (on_database f s)) = sv_hub s"
  by (simp_all add: on_database_def case_prod_beta)

lemma handle_spares:
  assumes "\<forall>v. ap_identity r = Some v \<longrightarrow> uuid_cast X v \<noteq> Some u"
  shows "spared u (sv_pg s) (sv_pg (snd (handle uuid_ok X cfg e r s)))"
proof -
  have other: "\<forall>v. hr_identity (handler_request r) = Some v \<longrightarrow> uuid_cast X v \<noteq> Some u"
    using assms by (simp add: handler_request_def)
  show ?thesis
    by (cases e) (simp_all add: handlers_spare [OF other] case_prod_beta)
qed

text \<open>
  C7: isolation of the whole HTTP interface: whatever the method, the path, the query and the body of a
  request, it changes nothing that belongs to a user other than the identity of the request
  (as the database reads it): his inbox rows, his stored preferences and his push subscriptions are
  the same rows as before, and no notification is changed. The database may fail as it likes.
\<close>

theorem api_isolated:
  assumes "\<forall>v. ap_identity r = Some v \<longrightarrow> uuid_cast X v \<noteq> Some u"
  shows "rows_of u (sv_pg (snd (serve uuid_ok X cfg r s))) = rows_of u (sv_pg s)
     \<and> notifications (sv_pg (snd (serve uuid_ok X cfg r s))) = notifications (sv_pg s)"
  using handle_spares [OF assms, of s uuid_ok cfg]
  by (cases "endpoint_of r") (simp_all add: serve_def spared_def)

definition sample_request :: "string \<Rightarrow> string list \<Rightarrow> string \<Rightarrow> api_request" where
  "sample_request verb path subject = \<lparr>ap_verb = verb, ap_path = path, ap_identity = Some subject,
     ap_query = (\<lambda>_. []), ap_flusher = True, ap_notifications = Inl (Sentinel ''no body''),
     ap_preference = Inr \<lparr>p_Subject = [], p_Channel = ChannelSite, p_Enabled = False, p_Config = [], p_Topics = [], p_UpdatedAt = 0\<rparr>,
     ap_subscription = Inl (Sentinel ''no body''), ap_endpoint = Inl (Sentinel ''no body'')\<rparr>"

definition sample_service :: service where
  "sample_service = \<lparr>sv_pg = sample_pg, sv_intake = \<lparr>it_store = NewBuffer 2 1, it_total = 0\<rparr>,
     sv_hub = hub_start (hub_of [] [])\<rparr>"

definition live_serve :: "api_request \<Rightarrow> service \<Rightarrow> reply \<times> service" where
  "live_serve = serve (\<lambda>_. True) sample_server sample_config"

lemma sample_foreign_dismissal:
  "fst (live_serve (sample_request ''PATCH'' [''notifications'', ''A1'', ''dismiss''] ''22'') sample_service)
     = Answer (WriteError (CsarError NotFound ''notification not found'' []))"
  "fst (live_serve (sample_request ''PATCH'' [''notifications'', ''A1'', ''dismiss''] ''R1'') sample_service)
     = Answer (WriteJSON StatusOK [(''status'', BStr ''ok'')])"
  by code_simp+

theorem api_isolated_witness:
  "rows_of ''r1'' (sv_pg (snd (live_serve (sample_request ''PATCH'' [''notifications'', ''A1'', ''dismiss''] ''22'') sample_service)))
     = rows_of ''r1'' sample_pg
   \<and> ur_deliveries (rows_of ''r1'' sample_pg) \<noteq> []"
proof -
  let ?r = "sample_request ''PATCH'' [''notifications'', ''A1'', ''dismiss''] ''22''"
  have "\<forall>v. ap_identity ?r = Some v \<longrightarrow> uuid_cast sample_server v \<noteq> Some ''r1''"
    by (simp add: sample_request_def sample_server_def sample_lower)
  from api_isolated [OF this, where uuid_ok = "\<lambda>_. True" and cfg = sample_config and s = sample_service]
  have "rows_of ''r1'' (sv_pg (snd (live_serve ?r sample_service))) = rows_of ''r1'' (sv_pg sample_service)"
    unfolding live_serve_def by (rule conjunct1)
  then show ?thesis
    by (simp add: sample_service_def) (simp add: rows_of_def sample_pg_eq empty_pg_def new_delivery_def)
qed

section \<open>Identity\<close>

definition is_unauthorized :: "reply \<Rightarrow> bool" where
  "is_unauthorized a = (case a of Answer (WriteError e) \<Rightarrow> unauthorized e | HttpError _ code \<Rightarrow> code = 401 | _ \<Rightarrow> False)"

lemma handle_rejected:
  assumes "SubjectFromRequest uuid_ok (handler_request r) = Inl e" and "unauthorized e" and "ap_flusher r"
    and "ep \<noteq> IngestPost" and "ep \<noteq> VapidKeyGet"
  shows "is_unauthorized (fst (handle uuid_ok X cfg ep r s)) \<and> snd (handle uuid_ok X cfg ep r s) = s"
proof -
  have rej: "with_subject uuid_ok (handler_request r) body t = (WriteError e, t)" for body and t :: pg
    by (rule with_subject_rejected [OF assms(1)])
  have admit: "sse_admit uuid_ok h (stream_request r) = Inl x \<Longrightarrow> sse_connect uuid_ok (stream_request r) t = t"
    if "h = hs_hub t" for h x t using that by (simp add: sse_connect_def)
  have out: "\<exists>msg. sse_admit uuid_ok h (stream_request r) = Inl (msg, 401)" for h
    using assms(1,3) by (auto simp: sse_admit_def SubjectFromRequest_def handler_request_def stream_request_def
        split: option.splits if_splits)
  show ?thesis
  proof (cases ep)
    case StreamGet
    obtain msg where "sse_admit uuid_ok (hs_hub (sv_hub s)) (stream_request r) = Inl (msg, 401)" using out by blast
    with admit [OF refl this] StreamGet show ?thesis by (simp add: stream_reply_def is_unauthorized_def)
  qed (use assms(2,4,5) in \<open>simp_all add: on_database_def is_unauthorized_def inbox_list_def inbox_count_def inbox_markRead_def
      inbox_dismiss_def updateState_def preferences_list_def preferences_put_def push_post_def push_delete_def rej\<close>)
qed

text \<open>
  C8: without a gateway identity that is a UUID a request does nothing: it changes neither the database
  nor the registered streams, and every endpoint except the intake and the public key, that is
  every endpoint of the users, answers it as unauthorized and changes nothing at all. The connection
  is one that can be flushed: without that the stream's endpoint answers 500 before it asks.
\<close>

theorem api_needs_identity:
  assumes "\<not> (\<exists>v. ap_identity r = Some v \<and> v \<noteq> [] \<and> uuid_ok v)" and "ap_flusher r"
  shows "(\<forall>e. endpoint_of r = Some e \<longrightarrow> e \<noteq> IngestPost \<longrightarrow> e \<noteq> VapidKeyGet \<longrightarrow>
            is_unauthorized (fst (serve uuid_ok X cfg r s)))
     \<and> (endpoint_of r \<noteq> Some IngestPost \<longrightarrow> snd (serve uuid_ok X cfg r s) = s)
     \<and> sv_pg (snd (serve uuid_ok X cfg r s)) = sv_pg s \<and> sv_hub (snd (serve uuid_ok X cfg r s)) = sv_hub s"
proof -
  have "\<exists>e. SubjectFromRequest uuid_ok (handler_request r) = Inl e \<and> unauthorized e"
    by (cases rule: subject_cases [of uuid_ok "handler_request r"]) (use assms(1) in \<open>auto simp: handler_request_def\<close>)
  then obtain e where e: "SubjectFromRequest uuid_ok (handler_request r) = Inl e" "unauthorized e" by blast
  show ?thesis
  proof (cases "endpoint_of r")
    case (Some ep)
    consider "ep = IngestPost" | "ep = VapidKeyGet" | "ep \<noteq> IngestPost" "ep \<noteq> VapidKeyGet" by blast
    then show ?thesis
      by cases (simp_all add: serve_def Some case_prod_beta handle_rejected [OF e assms(2)])
  qed (simp add: serve_def)
qed

theorem api_needs_identity_witness:
  "\<exists>r. endpoint_of r = Some DismissPatch \<and> is_unauthorized (fst (live_serve r sample_service))
     \<and> snd (live_serve r sample_service) = sample_service"
proof -
  let ?r = "(sample_request ''PATCH'' [''notifications'', ''A1'', ''dismiss''] [])\<lparr>ap_identity := None\<rparr>"
  have r: "ap_identity ?r = None" "ap_flusher ?r" by (simp_all add: sample_request_def)
  have e: "endpoint_of ?r = Some DismissPatch" by code_simp
  have "\<not> (\<exists>v. ap_identity ?r = Some v \<and> v \<noteq> [] \<and> (\<lambda>_. True) v)" using r(1) by simp
  from api_needs_identity [OF this r(2), of sample_server sample_config sample_service] e
  show ?thesis unfolding live_serve_def by (intro exI [of _ ?r]) simp
qed

end
