(* ===== verification/ApiAnswers.thy ===== *)
theory ApiAnswers
  imports ApiProps
begin

text \<open>
  Non-interference at the HTTP interface, by unwinding: the answers a user gets are a function of
  his own requests. \<open>pview u\<close> is what the answers to user \<open>u\<close> can depend on; his own requests depend on and
  change nothing else, and the requests of the others leave it alone.
\<close>

section \<open>What a user sees of the database\<close>

text \<open>The ids of push subscription rows are never shown; everything else of his rows is.\<close>

definition unnumbered :: "push_subscription_row \<Rightarrow> push_subscription_row" where
  "unnumbered q = q\<lparr>ps_id := []\<rparr>"

definition pview :: "string \<Rightarrow> pg \<Rightarrow>
    notification_row list \<times> delivery_row list \<times> preference_row list \<times> push_subscription_row list \<times> gotime \<times> goerr option list" where
  "pview u s = (notifications s, ur_deliveries (rows_of u s), ur_preferences (rows_of u s),
     map unnumbered (ur_push (rows_of u s)), pg_now s, pg_faults s)"

lemma pview_eq:
  "pview u s = pview u t \<longleftrightarrow> notifications s = notifications t
     \<and> filter (\<lambda>d. dr_recipient d = u) (notification_deliveries s) = filter (\<lambda>d. dr_recipient d = u) (notification_deliveries t)
     \<and> filter (\<lambda>q. pr_subject q = u) (notification_preferences s) = filter (\<lambda>q. pr_subject q = u) (notification_preferences t)
     \<and> map unnumbered (filter (\<lambda>q. ps_subject q = u) (push_subscriptions s))
         = map unnumbered (filter (\<lambda>q. ps_subject q = u) (push_subscriptions t))
     \<and> pg_now s = pg_now t \<and> pg_faults s = pg_faults t"
  by (simp add: pview_def rows_of_def)

text \<open>\<open>f\<close> answers from the view of \<open>u\<close> and changes it by the view alone.\<close>

definition confined :: "string \<Rightarrow> (pg \<Rightarrow> 'a \<times> pg) \<Rightarrow> bool" where
  "confined u f \<longleftrightarrow> (\<forall>s t. pview u s = pview u t \<longrightarrow> fst (f s) = fst (f t) \<and> pview u (snd (f s)) = pview u (snd (f t)))"

lemma confinedI:
  "(\<And>s t. pview u s = pview u t \<Longrightarrow> fst (f s) = fst (f t) \<and> pview u (snd (f s)) = pview u (snd (f t))) \<Longrightarrow> confined u f"
  unfolding confined_def by blast

lemma confinedD: "confined u f \<Longrightarrow> pview u s = pview u t \<Longrightarrow> fst (f s) = fst (f t) \<and> pview u (snd (f s)) = pview u (snd (f t))"
  unfolding confined_def by blast

lemma confined_return: "confined u (\<lambda>s. (x, s))"
  by (simp add: confined_def)

text \<open>The composition of two operations, as the handlers compose them.\<close>

lemma confined_bind:
  assumes "confined u f" and "\<And>x. confined u (g x)"
  shows "confined u (\<lambda>s. case f s of (x, s') \<Rightarrow> g x s')"
proof (rule confinedI)
  fix s t assume eq: "pview u s = pview u t"
  obtain x s1 y t1 where run: "f s = (x, s1)" "f t = (y, t1)" by fastforce
  then have "x = y" and eq1: "pview u s1 = pview u t1" using confinedD [OF assms(1) eq] by simp_all
  then show "fst (case f s of (x, s') \<Rightarrow> g x s') = fst (case f t of (x, s') \<Rightarrow> g x s')
      \<and> pview u (snd (case f s of (x, s') \<Rightarrow> g x s')) = pview u (snd (case f t of (x, s') \<Rightarrow> g x s'))"
    using confinedD [OF assms(2) eq1, of y] run by simp
qed

lemma confined_run:
  assumes "confined u stmt"
  shows "confined u (pg_run stmt)"
proof (rule confinedI)
  fix s t assume eq: "pview u s = pview u t"
  have fs: "pg_faults t = pg_faults s" using eq by (simp add: pview_eq)
  have rest: "pview u (s\<lparr>pg_faults := fs\<rparr>) = pview u (t\<lparr>pg_faults := fs\<rparr>)" for fs
    using eq by (simp add: pview_eq)
  show "fst (pg_run stmt s) = fst (pg_run stmt t) \<and> pview u (snd (pg_run stmt s)) = pview u (snd (pg_run stmt t))"
  proof (cases rule: pg_run_cases [of s stmt])
    case (fault e fs')
    then show ?thesis using fs rest [of fs'] by (simp add: pg_run_def)
  next
    case (run fs')
    then have "pg_run stmt t = stmt (t\<lparr>pg_faults := fs'\<rparr>)" using fs by (auto simp: pg_run_def pg_faults_Nil_id)
    then show ?thesis using run(1) confinedD [OF assms rest [of fs']] by simp
  qed
qed

section \<open>The statements\<close>

lemma filter_upsert_row_within:
  assumes "Q new" and "\<And>r. p r \<Longrightarrow> Q r \<and> Q (upd r)"
  shows "filter Q (upsert_row p new upd rs) = upsert_row p new upd (filter Q rs)"
  by (induction rs) (use assms in auto)

lemma map_upsert_row:
  assumes "\<And>r. p (f r) = p r" and "\<And>r. f (upd r) = upd (f r)"
  shows "map f (upsert_row p new upd rs) = upsert_row p (f new) upd (map f rs)"
  by (induction rs) (use assms in auto)

lemma filter_map_within:
  assumes "\<And>x. P x \<Longrightarrow> Q x" and "\<And>x. P x \<Longrightarrow> Q (f x)"
  shows "filter Q (map (\<lambda>x. if P x then f x else x) xs) = map (\<lambda>x. if P x then f x else x) (filter Q xs)"
  by (induction xs) (use assms in auto)

lemma inbox_rows_view:
  "inbox_rows u s = [(n, d). d \<leftarrow> filter (\<lambda>d. dr_recipient d = u) (notification_deliveries s), \<not> dr_dismissed d,
     n \<leftarrow> notifications s, nr_id n = dr_notification_id d]"
proof -
  have "concat (map (\<lambda>d. if dr_recipient d = u \<and> \<not> dr_dismissed d then g d else []) ds)
      = concat (map (\<lambda>d. if \<not> dr_dismissed d then g d else []) (filter (\<lambda>d. dr_recipient d = u) ds))" for g ds
    by (induction ds) auto
  then show ?thesis by (simp add: inbox_rows_def)
qed

lemma inbox_rows_cong:
  assumes "pview u s = pview u t"
  shows "inbox_rows u s = inbox_rows u t"
proof -
  have "notifications s = notifications t"
    and "filter (\<lambda>d. dr_recipient d = u) (notification_deliveries s) = filter (\<lambda>d. dr_recipient d = u) (notification_deliveries t)"
    using assms by (simp_all add: pview_eq)
  then show ?thesis by (simp only: inbox_rows_view)
qed

lemma confined_list_inbox: "uuid_cast X v = Some u \<Longrightarrow> confined u (sql_list_inbox X v l k)"
  proof (rule confinedI)
  fix s t assume v: "uuid_cast X v = Some u" and eq: "pview u s = pview u t"
  from eq v inbox_rows_cong [OF eq] show "fst (sql_list_inbox X v l k s) = fst (sql_list_inbox X v l k t)
      \<and> pview u (snd (sql_list_inbox X v l k s)) = pview u (snd (sql_list_inbox X v l k t))"
    by (simp add: sql_list_inbox_def ordered_inbox_def)
qed

text \<open>A selection among a user's deliveries.\<close>

lemma own_deliveries_cong:
  assumes "pview u s = pview u t"
  shows "filter (\<lambda>d. dr_recipient d = u \<and> P d) (notification_deliveries s)
       = filter (\<lambda>d. dr_recipient d = u \<and> P d) (notification_deliveries t)"
proof -
  have "filter (\<lambda>d. dr_recipient d = u \<and> P d) ds = filter P (filter (\<lambda>d. dr_recipient d = u) ds)" for ds
    by (induction ds) auto
  moreover have "filter (\<lambda>d. dr_recipient d = u) (notification_deliveries s) = filter (\<lambda>d. dr_recipient d = u) (notification_deliveries t)"
    using assms by (simp add: pview_eq)
  ultimately show ?thesis by (simp only:)
qed

lemma confined_count_unread: "uuid_cast X v = Some u \<Longrightarrow> confined u (sql_count_unread X v)"
proof (rule confinedI)
  fix s t assume v: "uuid_cast X v = Some u" and eq: "pview u s = pview u t"
  from eq v own_deliveries_cong [OF eq] show "fst (sql_count_unread X v s) = fst (sql_count_unread X v t)
      \<and> pview u (snd (sql_count_unread X v s)) = pview u (snd (sql_count_unread X v t))"
    by (simp add: sql_count_unread_def)
qed

lemma confined_get_preferences: "uuid_cast X v = Some u \<Longrightarrow> confined u (sql_get_preferences X v)"
  by (rule confinedI) (simp add: sql_get_preferences_def pview_eq)

lemma confined_update_deliveries:
  assumes "uuid_cast X v = Some u" and key: "\<And>s d. delivery_key (upd s d) = delivery_key d"
    and now: "\<And>s t d. pg_now s = pg_now t \<Longrightarrow> upd s d = upd t d"
  shows "confined u (sql_update_deliveries X upd v i)"
proof (cases "uuid_cast X i")
  case (Some n)
  show ?thesis
  proof (rule confinedI)
    fix s t assume eq: "pview u s = pview u t"
    let ?hit = "\<lambda>d. dr_recipient d = u \<and> dr_notification_id d = n" and ?mine = "\<lambda>d. dr_recipient d = u"
    let ?rows = "\<lambda>s. map (\<lambda>d. if ?hit d then upd s d else d) (notification_deliveries s)"
    have u: "upd s = upd t" using now eq by (auto simp: pview_eq)
    have r: "dr_recipient (upd s d) = dr_recipient d" for s d using key [of s d] by (simp add: delivery_key_def)
    have "filter ?mine (?rows s) = map (\<lambda>d. if ?hit d then upd s d else d) (filter ?mine (notification_deliveries s))" for s
      by (rule filter_map_within) (simp_all add: r)
    moreover have "filter ?hit (notification_deliveries s) = filter ?hit (notification_deliveries t)"
      by (rule own_deliveries_cong [OF eq])
    ultimately show "fst (sql_update_deliveries X upd v i s) = fst (sql_update_deliveries X upd v i t)
        \<and> pview u (snd (sql_update_deliveries X upd v i s)) = pview u (snd (sql_update_deliveries X upd v i t))"
      using eq u by (simp add: sql_update_deliveries_def assms(1) Some Let_def pview_eq del: filter_filter)
  qed
qed (simp add: sql_update_deliveries_def [abs_def] assms(1) confined_return)

lemma confined_upsert_preference:
  assumes "uuid_cast X v = Some u"
  shows "confined u (sql_upsert_preference X v ch en raw ts)"
proof (cases "jsonb X raw")
  case (Some cfg)
  have "filter (\<lambda>q. pr_subject q = u) (upsert_row (\<lambda>r. pr_subject r = u \<and> pr_channel r = ch)
        (preference_row_of u ch en cfg ts now) (\<lambda>r. r\<lparr>pr_enabled := en, pr_config := cfg, pr_topics := ts, pr_updated_at := now\<rparr>) qs)
      = upsert_row (\<lambda>r. pr_subject r = u \<and> pr_channel r = ch) (preference_row_of u ch en cfg ts now)
        (\<lambda>r. r\<lparr>pr_enabled := en, pr_config := cfg, pr_topics := ts, pr_updated_at := now\<rparr>) (filter (\<lambda>q. pr_subject q = u) qs)" for now qs
    by (rule filter_upsert_row_within) (auto simp: preference_row_of_def)
  then show ?thesis
    by (intro confinedI) (simp add: sql_upsert_preference_def assms Some pview_eq)
qed (simp add: sql_upsert_preference_def [abs_def] assms confined_return)

lemma unnumbered_simps [simp]:
  "ps_subject (unnumbered q) = ps_subject q" "ps_endpoint (unnumbered q) = ps_endpoint q"
  "unnumbered (push_row_of i u ep p a ua now) = push_row_of [] u ep p a ua now"
  by (simp_all add: unnumbered_def push_row_of_def)

lemma confined_upsert_push:
  assumes "uuid_cast X v = Some u"
  shows "confined u (sql_upsert_push X v ep p a ua)"
proof (rule confinedI)
  fix s t assume eq: "pview u s = pview u t"
  let ?p = "\<lambda>r. ps_subject r = u \<and> ps_endpoint r = ep" and ?mine = "\<lambda>q. ps_subject q = u"
  let ?upd = "\<lambda>now r. r\<lparr>ps_p256dh_key := p, ps_auth_key := a, ps_user_agent := nullif_empty ua, ps_updated_at := now\<rparr>"
  let ?new = "\<lambda>i now. push_row_of i u ep p a (nullif_empty ua) now"
  have "map unnumbered (filter ?mine (upsert_row ?p (?new i now) (?upd now) qs))
      = upsert_row ?p (?new [] now) (?upd now) (map unnumbered (filter ?mine qs))" for i now qs
  proof -
    have "filter ?mine (upsert_row ?p (?new i now) (?upd now) qs) = upsert_row ?p (?new i now) (?upd now) (filter ?mine qs)"
      by (rule filter_upsert_row_within) (auto simp: push_row_of_def)
    also have "map unnumbered \<dots> = upsert_row ?p (unnumbered (?new i now)) (?upd now) (map unnumbered (filter ?mine qs))"
      by (rule map_upsert_row) (simp_all add: unnumbered_def)
    finally show ?thesis by simp
  qed
  then show "fst (sql_upsert_push X v ep p a ua s) = fst (sql_upsert_push X v ep p a ua t)
      \<and> pview u (snd (sql_upsert_push X v ep p a ua s)) = pview u (snd (sql_upsert_push X v ep p a ua t))"
    using eq by (simp add: sql_upsert_push_def assms pview_eq)
qed

lemma confined_delete_push:
  assumes "uuid_cast X v = Some u"
  shows "confined u (sql_delete_push X v ep)"
proof (rule confinedI)
  fix s t assume eq: "pview u s = pview u t"
  let ?gone = "\<lambda>r. ps_subject r = u \<and> ps_endpoint r = ep" and ?mine = "\<lambda>q. ps_subject q = u"
  have "map unnumbered (filter ?mine (filter (\<lambda>r. \<not> ?gone r) qs))
      = filter (\<lambda>r. ps_endpoint r \<noteq> ep) (map unnumbered (filter ?mine qs))" for qs
    by (induction qs) auto
  then show "fst (sql_delete_push X v ep s) = fst (sql_delete_push X v ep t)
      \<and> pview u (snd (sql_delete_push X v ep s)) = pview u (snd (sql_delete_push X v ep t))"
    using eq by (simp add: sql_delete_push_def assms pview_eq del: filter_filter)
qed

section \<open>The operations and the handlers\<close>

text \<open>How the code puts operations together: by the rules of this collection.\<close>

lemma confined_cases:
  "(\<And>a. confined u (f a)) \<Longrightarrow> (\<And>b. confined u (g b)) \<Longrightarrow> confined u (\<lambda>s. case x of Inl a \<Rightarrow> f a s | Inr b \<Rightarrow> g b s)"
  "confined u f' \<Longrightarrow> (\<And>a. confined u (g' a)) \<Longrightarrow> confined u (\<lambda>s. case y of None \<Rightarrow> f' s | Some a \<Rightarrow> g' a s)"
  "(\<And>a b. confined u (h a b)) \<Longrightarrow> confined u (\<lambda>s. case z of (a, b) \<Rightarrow> h a b s)"
  "confined u k \<Longrightarrow> confined u l \<Longrightarrow> confined u (\<lambda>s. if c then k s else l s)"
  by (cases x; cases y; cases z; cases c; simp)+

lemmas confined_rules = confined_return confined_cases confined_bind

lemma confined_statements:
  assumes "uuid_cast X v = Some u"
  shows "confined u (pg_run (sql_list_inbox X v l k))" "confined u (pg_run (sql_count_unread X v))"
    "confined u (pg_run (sql_update_deliveries X set_read v i))" "confined u (pg_run (sql_update_deliveries X set_dismissed v i))"
    "confined u (pg_run (sql_get_preferences X v))" "confined u (pg_run (sql_upsert_preference X v ch en raw ts))"
    "confined u (pg_run (sql_upsert_push X v ep p a ua))" "confined u (pg_run (sql_delete_push X v ep))"
proof -
  show "confined u (pg_run (sql_update_deliveries X set_read v i))"
    by (rule confined_run, rule confined_update_deliveries [OF assms])
      (simp_all only: delivery_key_update, simp_all add: set_read_def split: option.split)
  show "confined u (pg_run (sql_update_deliveries X set_dismissed v i))"
    by (rule confined_run, rule confined_update_deliveries [OF assms])
      (simp_all only: delivery_key_update, simp_all add: set_dismissed_def)
qed (rule confined_run, rule assms [THEN confined_list_inbox] assms [THEN confined_count_unread]
    assms [THEN confined_get_preferences] assms [THEN confined_upsert_preference] assms [THEN confined_upsert_push]
    assms [THEN confined_delete_push])+

lemmas store_op_defs = ListInbox_def [abs_def] CountUnread_def [abs_def] MarkRead_def [abs_def] Dismiss_def [abs_def]
  GetPreferences_def [abs_def] UpsertPreference_def [abs_def] UpsertPushSubscription_def [abs_def]
  DeletePushSubscription_def [abs_def]

lemma confined_ops:
  assumes "uuid_cast X v = Some u"
  shows "confined u (ListInbox X v l k)" "confined u (CountUnread X v)" "confined u (MarkRead X v i)"
    "confined u (Dismiss X v i)" "confined u (GetPreferences X v)" "confined u (UpsertPreference X v pp)"
    "confined u (UpsertPushSubscription X v ep p a ua)" "confined u (DeletePushSubscription X v ep)"
  unfolding store_op_defs Let_def by (rule confined_rules confined_statements [OF assms])+

lemma confined_with_subject:
  assumes "\<And>v. hr_identity r = Some v \<Longrightarrow> confined u (body v)"
  shows "confined u (with_subject uuid_ok r body)"
proof (cases rule: subject_cases [of uuid_ok r])
  case (rejected e)
  then have "with_subject uuid_ok r body = (\<lambda>s. (WriteError e, s))" by (simp add: fun_eq_iff with_subject_rejected)
  then show ?thesis by (simp add: confined_return)
next
  case (accepted v)
  then have "with_subject uuid_ok r body = body v" by (simp add: fun_eq_iff with_subject_accepted)
  then show ?thesis using assms accepted(2) by simp
qed

lemma confined_list_preferences: "uuid_cast X v = Some u \<Longrightarrow> confined u (list_preferences (pg_preference_ops X) v)"
  unfolding list_preferences_def [abs_def] pg_preference_ops_def preference_ops.simps
  by (rule confined_rules confined_ops | assumption)+

lemma handlers_confined:
  assumes "hr_identity r = Some v" and "uuid_cast X v = Some u"
  shows "confined u (inbox_list uuid_ok (pg_inbox_ops X) r)"
    and "confined u (inbox_count uuid_ok (pg_inbox_ops X) r)"
    and "confined u (inbox_markRead uuid_ok (pg_inbox_ops X) r)"
    and "confined u (inbox_dismiss uuid_ok (pg_inbox_ops X) r)"
    and "confined u (preferences_list uuid_ok (pg_preference_ops X) r)"
    and "confined u (preferences_put uuid_ok (pg_preference_ops X) pbody r)"
    and "confined u (push_post uuid_ok (pg_push_ops X) sbody r)"
    and "confined u (push_delete uuid_ok (pg_push_ops X) dbody r)"
proof -
  have cast: "hr_identity r = Some w \<Longrightarrow> uuid_cast X w = Some u" for w using assms by simp
  have ops: "io_ListInbox (pg_inbox_ops X) = ListInbox X" "io_CountUnread (pg_inbox_ops X) = CountUnread X"
    "io_MarkRead (pg_inbox_ops X) = MarkRead X" "io_Dismiss (pg_inbox_ops X) = Dismiss X"
    "po_UpsertPreference (pg_preference_ops X) = UpsertPreference X"
    "so_Upsert (pg_push_ops X) = UpsertPushSubscription X" "so_Delete (pg_push_ops X) = DeletePushSubscription X"
    by (simp_all add: pg_inbox_ops_def pg_preference_ops_def pg_push_ops_def)
  show "confined u (inbox_list uuid_ok (pg_inbox_ops X) r)"
    unfolding inbox_list_def [abs_def] ops
    by (rule confined_with_subject, drule cast) (rule confined_rules confined_ops | assumption)+
  show "confined u (inbox_count uuid_ok (pg_inbox_ops X) r)"
    unfolding inbox_count_def [abs_def] ops
    by (rule confined_with_subject, drule cast) (rule confined_rules confined_ops | assumption)+
  show "confined u (inbox_markRead uuid_ok (pg_inbox_ops X) r)" "confined u (inbox_dismiss uuid_ok (pg_inbox_ops X) r)"
    unfolding inbox_markRead_def [abs_def] inbox_dismiss_def [abs_def] updateState_def [abs_def] ops
    by (rule confined_with_subject, drule cast, (rule confined_rules confined_ops | assumption)+)+
  show "confined u (preferences_list uuid_ok (pg_preference_ops X) r)"
    unfolding preferences_list_def [abs_def] by (rule confined_with_subject, drule cast) (rule confined_list_preferences)
  show "confined u (preferences_put uuid_ok (pg_preference_ops X) pbody r)"
    unfolding preferences_put_def [abs_def] ops
    by (rule confined_with_subject, drule cast) (rule confined_rules confined_ops confined_list_preferences | assumption)+
  show "confined u (push_post uuid_ok (pg_push_ops X) sbody r)" "confined u (push_delete uuid_ok (pg_push_ops X) dbody r)"
    unfolding push_post_def [abs_def] push_delete_def [abs_def] Let_def ops
    by (rule confined_with_subject, drule cast, (rule confined_rules confined_ops | assumption)+)+
qed

section \<open>The service\<close>

text \<open>The targets of the hub never change: what a stream request is answered depends on nothing else.\<close>

definition sview :: "string \<Rightarrow> service \<Rightarrow> _" where
  "sview u s = (pview u (sv_pg s), hb_targetPrefixes (hs_hub (sv_hub s)), hb_defaultTarget (hs_hub (sv_hub s)))"

lemma sse_connect_targets [simp]:
  "hb_targetPrefixes (hs_hub (sse_connect uuid_ok q h)) = hb_targetPrefixes (hs_hub h)"
  "hb_defaultTarget (hs_hub (sse_connect uuid_ok q h)) = hb_defaultTarget (hs_hub h)"
  by (simp_all add: sse_connect_def register_def Let_def split: sum.split prod.split)

lemma sse_admit_cong:
  "hb_targetPrefixes h = hb_targetPrefixes h' \<Longrightarrow> hb_defaultTarget h = hb_defaultTarget h' \<Longrightarrow>
     sse_admit uuid_ok h q = sse_admit uuid_ok h' q"
  by (simp only: sse_admit_def)

lemma own_database_step:
  assumes "confined u f" and "sview u s = sview u t"
  shows "fst (on_database f s) = fst (on_database f t) \<and> sview u (snd (on_database f s)) = sview u (snd (on_database f t))"
  using confinedD [OF assms(1), of "sv_pg s" "sv_pg t"] assms(2) by (simp add: sview_def)

lemma own_step:
  assumes "ap_identity r = Some v" and "uuid_cast X v = Some u" and "e \<noteq> IngestPost" and "sview u s = sview u t"
  shows "fst (handle uuid_ok X cfg e r s) = fst (handle uuid_ok X cfg e r t)
     \<and> sview u (snd (handle uuid_ok X cfg e r s)) = sview u (snd (handle uuid_ok X cfg e r t))"
proof -
  have "hr_identity (handler_request r) = Some v" using assms(1) by (simp add: handler_request_def)
  note conf = handlers_confined [OF this assms(2)]
  show ?thesis
  proof (cases e)
    case StreamGet
    then show ?thesis
      using assms(4) sse_admit_cong [of "hs_hub (sv_hub s)" "hs_hub (sv_hub t)" uuid_ok "stream_request r"]
      by (simp add: sview_def)
  qed (use assms(3,4) own_database_step [OF _ assms(4)] conf in simp_all)
qed

text \<open>A request is \<open>u\<close>'s own when he is its identity and it is not for the intake, which knows no users.\<close>

definition own :: "pg_server \<Rightarrow> string \<Rightarrow> gotime \<times> api_request \<Rightarrow> bool" where
  "own X u x \<longleftrightarrow> endpoint_of (snd x) \<noteq> Some IngestPost
     \<and> (case ap_identity (snd x) of None \<Rightarrow> False | Some v \<Rightarrow> uuid_cast X v = Some u)"

text \<open>The answers to the requests that \<open>P\<close> selects, of a sequence of requests, and the state after them.\<close>

fun answers ::
  "(gotime \<times> api_request \<Rightarrow> service \<Rightarrow> reply \<times> service) \<Rightarrow> (gotime \<times> api_request \<Rightarrow> bool)
     \<Rightarrow> (gotime \<times> api_request) list \<Rightarrow> service \<Rightarrow> reply list \<times> service" where
  "answers step P [] s = ([], s)"
| "answers step P (x # xs) s =
     (case step x s of (a, s1) \<Rightarrow> case answers step P xs s1 of (as, s2) \<Rightarrow> (if P x then a # as else as, s2))"

text \<open>What a request sets before it is served is the time alone.\<close>

definition at_time :: "gotime \<Rightarrow> service \<Rightarrow> service" where
  "at_time now s = s\<lparr>sv_pg := (sv_pg s)\<lparr>pg_now := now\<rparr>\<rparr>"

definition calm :: "string \<Rightarrow> service \<Rightarrow> service \<Rightarrow> bool" where
  "calm u s t \<longleftrightarrow> sview u (at_time 0 s) = sview u (at_time 0 t) \<and> pg_faults (sv_pg s) = []"

lemma calm_at_time: "calm u s t \<Longrightarrow> sview u (at_time now s) = sview u (at_time now t)"
  by (simp add: calm_def sview_def pview_eq at_time_def)

lemma pg_faults_handle:
  assumes "pg_faults (sv_pg s) = []"
  shows "pg_faults (sv_pg (snd (handle uuid_ok X cfg e r s))) = []"
proof -
  have "CHR ''x'' # u \<noteq> u" for u :: string by simp
  then have "\<forall>v. ap_identity r = Some v \<longrightarrow> uuid_cast X v \<noteq> Some (CHR ''x'' # the (uuid_cast X (the (ap_identity r))))"
    by (metis option.sel)
  from handle_spares [OF this, of s uuid_ok cfg e] assms show ?thesis by (simp add: spared_def)
qed

lemma hub_targets_handle:
  "hb_targetPrefixes (hs_hub (sv_hub (snd (handle uuid_ok X cfg e r s)))) = hb_targetPrefixes (hs_hub (sv_hub s))"
  "hb_defaultTarget (hs_hub (sv_hub (snd (handle uuid_ok X cfg e r s)))) = hb_defaultTarget (hs_hub (sv_hub s))"
  by (cases e; simp add: case_prod_beta)+

lemma serve_at_routed:
  "serve_at uuid_ok X cfg x s = (case endpoint_of (snd x) of None \<Rightarrow> (unrouted (snd x), at_time (fst x) s)
     | Some e \<Rightarrow> handle uuid_ok X cfg e (snd x) (at_time (fst x) s))"
  unfolding serve_at_def serve_def at_time_def ..

lemma calm_own:
  assumes "own X u x" and "calm u s t"
  shows "fst (serve_at uuid_ok X cfg x s) = fst (serve_at uuid_ok X cfg x t)"
    and "calm u (snd (serve_at uuid_ok X cfg x s)) (snd (serve_at uuid_ok X cfg x t))"
proof -
  let ?s = "at_time (fst x) s" and ?t = "at_time (fst x) t"
  have eq: "sview u ?s = sview u ?t" and quiet: "pg_faults (sv_pg ?s) = []"
    using calm_at_time [OF assms(2)] assms(2) by (simp_all add: calm_def at_time_def)
  have weaken: "calm u s' t'" if "sview u s' = sview u t'" "pg_faults (sv_pg s') = []" for s' t'
    using that by (simp add: calm_def sview_def pview_eq at_time_def)
  obtain v where v: "ap_identity (snd x) = Some v" "uuid_cast X v = Some u"
    using assms(1) by (auto simp: own_def split: option.splits)
  show "fst (serve_at uuid_ok X cfg x s) = fst (serve_at uuid_ok X cfg x t)"
    and "calm u (snd (serve_at uuid_ok X cfg x s)) (snd (serve_at uuid_ok X cfg x t))"
    using own_step [OF v _ eq, of _ uuid_ok cfg] pg_faults_handle [OF quiet, of uuid_ok X cfg _ "snd x"] weaken eq quiet assms(1)
    by (auto simp: serve_at_routed own_def split: option.split)
qed

lemma calm_other:
  assumes "\<not> own X u x" and "calm u s t"
  shows "calm u (snd (serve_at uuid_ok X cfg x s)) t"
proof -
  let ?s = "at_time (fst x) s"
  have s: "calm u ?s t" using assms(2) by (simp add: calm_def at_time_def)
  show ?thesis
  proof (cases "endpoint_of (snd x)")
    case (Some e)
    show ?thesis
    proof (cases "e = IngestPost")
      case True
      then show ?thesis using Some s by (simp add: serve_at_routed case_prod_beta calm_def sview_def at_time_def)
    next
      case False
      then have "\<forall>v. ap_identity (snd x) = Some v \<longrightarrow> uuid_cast X v \<noteq> Some u"
        using assms(1) Some by (auto simp: own_def)
      from handle_spares [OF this, of ?s uuid_ok cfg e] show ?thesis
        using s Some by (auto simp: serve_at_routed calm_def sview_def at_time_def pview_def spared_def hub_targets_handle)
    qed
  qed (use s in \<open>simp add: serve_at_routed\<close>)
qed

lemma answers_purged:
  "calm u s t \<Longrightarrow> fst (answers (serve_at uuid_ok X cfg) (own X u) xs s)
       = fst (answers (serve_at uuid_ok X cfg) (own X u) (filter (own X u) xs) t)
     \<and> calm u (snd (answers (serve_at uuid_ok X cfg) (own X u) xs s))
         (snd (answers (serve_at uuid_ok X cfg) (own X u) (filter (own X u) xs) t))"
proof (induction xs arbitrary: s t)
  case (Cons x xs)
  show ?case
  proof (cases "own X u x")
    case True
    from Cons.IH [OF calm_own(2) [OF this Cons.prems, of uuid_ok cfg]] calm_own(1) [OF True Cons.prems, of uuid_ok cfg]
    show ?thesis using True by (simp add: case_prod_beta)
  next
    case False
    from Cons.IH [OF calm_other [OF this Cons.prems, of uuid_ok cfg]] show ?thesis using False by (simp add: case_prod_beta)
  qed
qed simp

text \<open>
  C6: non-interference: the answers a user gets, and his rows at the end, are the ones he would have got
  had nobody else used the interface. From any state, for any sequence of timed requests of any
  users to any endpoints, intake included, deleting all requests but his own changes neither the
  list of answers to his own requests nor what the database holds of him (the row ids of his push
  subscriptions, which are never shown, apart). The database answers.
\<close>

theorem api_noninterference:
  assumes "pg_faults (sv_pg s) = []"
  shows "fst (answers (serve_at uuid_ok X cfg) (own X u) xs s)
       = fst (answers (serve_at uuid_ok X cfg) (own X u) (filter (own X u) xs) s)
     \<and> (let p = sv_pg (snd (answers (serve_at uuid_ok X cfg) (own X u) xs s));
            q = sv_pg (snd (answers (serve_at uuid_ok X cfg) (own X u) (filter (own X u) xs) s))
        in ur_deliveries (rows_of u p) = ur_deliveries (rows_of u q)
           \<and> ur_preferences (rows_of u p) = ur_preferences (rows_of u q)
           \<and> map unnumbered (ur_push (rows_of u p)) = map unnumbered (ur_push (rows_of u q)))"
  using answers_purged [of u s s uuid_ok X cfg xs] assms
  by (auto simp: calm_def sview_def pview_def at_time_def Let_def)

definition sample_traffic :: "(gotime \<times> api_request) list" where
  "sample_traffic = [(6, sample_request ''PATCH'' [''notifications'', ''A1'', ''read''] ''22''),
     (7, sample_request ''GET'' [''notifications'', ''count''] ''R1''),
     (8, sample_request ''PUT'' [''notifications'', ''preferences''] ''22''),
     (9, sample_request ''GET'' [''notifications'', ''count''] ''R1'')]"

lemma sample_traffic_own:
  "filter (own sample_server ''r1'') sample_traffic = [(7, sample_request ''GET'' [''notifications'', ''count''] ''R1''),
     (9, sample_request ''GET'' [''notifications'', ''count''] ''R1'')]"
proof -
  have "own sample_server ''r1'' (7, sample_request ''GET'' [''notifications'', ''count''] ''R1'')"
    "own sample_server ''r1'' (9, sample_request ''GET'' [''notifications'', ''count''] ''R1'')"
    "\<not> own sample_server ''r1'' (6, sample_request ''PATCH'' [''notifications'', ''A1'', ''read''] ''22'')"
    "\<not> own sample_server ''r1'' (8, sample_request ''PUT'' [''notifications'', ''preferences''] ''22'')"
    by code_simp+
  then show ?thesis by (simp add: sample_traffic_def)
qed

lemma sample_traffic_answers:
  "fst (answers (serve_at (\<lambda>_. True) sample_server sample_config) (own sample_server ''r1'')
      [(7, sample_request ''GET'' [''notifications'', ''count''] ''R1''),
       (9, sample_request ''GET'' [''notifications'', ''count''] ''R1'')] sample_service)
     = [Answer (WriteJSON StatusOK [(''unread'', BInt 1)]), Answer (WriteJSON StatusOK [(''unread'', BInt 1)])]"
  by code_simp

theorem api_noninterference_witness:
  "fst (answers (serve_at (\<lambda>_. True) sample_server sample_config) (own sample_server ''r1'') sample_traffic sample_service)
     = [Answer (WriteJSON StatusOK [(''unread'', BInt 1)]), Answer (WriteJSON StatusOK [(''unread'', BInt 1)])]"
proof -
  have "pg_faults (sv_pg sample_service) = []" by (simp add: sample_service_def sample_visible(1))
  from api_noninterference [OF this, where uuid_ok = "\<lambda>_. True" and X = sample_server and cfg = sample_config
      and u = "''r1''" and xs = sample_traffic]
  show ?thesis unfolding sample_traffic_own by (elim conjE) (simp only: sample_traffic_answers)
qed

end
