(* ===== verification/Listed.thy ===== *)
theory Listed
  imports Redelivered ApiAnswers
begin

text \<open>
  The consumer and the users' API over one database: which operations a request can cause, and the way
  of a message from the queue to the list a user sees.
\<close>

section \<open>The operations of a request\<close>

text \<open>
  What a request may ask of the store: its endpoint's operation, for its own identity, and for the
  item its path names.
\<close>

definition requested :: "api_request \<Rightarrow> pg_op \<Rightarrow> bool" where
  "requested r op =
     (case op of
        ReadInbox v _ _ \<Rightarrow> endpoint_of r = Some InboxGet \<and> ap_identity r = Some v
      | ReadCount v \<Rightarrow> endpoint_of r = Some CountGet \<and> ap_identity r = Some v
      | ReadItem v i \<Rightarrow> endpoint_of r = Some ReadPatch \<and> ap_identity r = Some v \<and> PathValue_id (ap_path r) = i
      | DismissItem v i \<Rightarrow> endpoint_of r = Some DismissPatch \<and> ap_identity r = Some v \<and> PathValue_id (ap_path r) = i
      | ReadPreferences v \<Rightarrow> endpoint_of r \<in> {Some PreferencesGet, Some PreferencesPut} \<and> ap_identity r = Some v
      | PutPreference v _ \<Rightarrow> endpoint_of r = Some PreferencesPut \<and> ap_identity r = Some v
      | PutPush v _ _ _ _ \<Rightarrow> endpoint_of r = Some SubscriptionsPost \<and> ap_identity r = Some v
      | DropPush v _ \<Rightarrow> endpoint_of r = Some SubscriptionsDelete \<and> ap_identity r = Some v
      | _ \<Rightarrow> False)"

lemma does_results:
  "ListInbox X v l k s = (x1, s') \<Longrightarrow> P (ReadInbox v l k) \<Longrightarrow> does X P s s'"
  "CountUnread X v s = (x2, s') \<Longrightarrow> P (ReadCount v) \<Longrightarrow> does X P s s'"
  "MarkRead X v i s = (x3, s') \<Longrightarrow> P (ReadItem v i) \<Longrightarrow> does X P s s'"
  "Dismiss X v i s = (x4, s') \<Longrightarrow> P (DismissItem v i) \<Longrightarrow> does X P s s'"
  "GetPreferences X v s = (x5, s') \<Longrightarrow> P (ReadPreferences v) \<Longrightarrow> does X P s s'"
  "UpsertPreference X v pp s = (x6, s') \<Longrightarrow> P (PutPreference v pp) \<Longrightarrow> does X P s s'"
  "UpsertPushSubscription X v ep pk a ua s = (x7, s') \<Longrightarrow> P (PutPush v ep pk a ua) \<Longrightarrow> does X P s s'"
  "DeletePushSubscription X v ep s = (x8, s') \<Longrightarrow> P (DropPush v ep) \<Longrightarrow> does X P s s'"
  using does_op [of s' X "ReadInbox v l k" s P] does_op [of s' X "ReadCount v" s P] does_op [of s' X "ReadItem v i" s P]
    does_op [of s' X "DismissItem v i" s P] does_op [of s' X "ReadPreferences v" s P] does_op [of s' X "PutPreference v pp" s P]
    does_op [of s' X "PutPush v ep pk a ua" s P] does_op [of s' X "DropPush v ep" s P]
  by (metis pg_effect.simps op_enabled.simps snd_conv)+

lemma does_list_preferences:
  "list_preferences (pg_preference_ops X) v s = (x, s') \<Longrightarrow> P (ReadPreferences v) \<Longrightarrow> does X P s s'"
  by (auto simp: list_preferences_def pg_preference_ops_def dest: does_results(5) split: prod.splits sum.splits)

lemma inbox_list_does:
  assumes "\<And>v l k. hr_identity r = Some v \<Longrightarrow> P (ReadInbox v l k)"
  shows "does X P s (snd (inbox_list uuid_ok (pg_inbox_ops X) r s))"
  unfolding api_handler_defs
  by (rule with_subject_state) (auto simp: does_refl assms Let_def split: prod.splits sum.splits option.splits dest!: does_results(1) [where P = P])

lemma inbox_count_does:
  assumes "\<And>v. hr_identity r = Some v \<Longrightarrow> P (ReadCount v)"
  shows "does X P s (snd (inbox_count uuid_ok (pg_inbox_ops X) r s))"
  unfolding api_handler_defs
  by (rule with_subject_state) (auto simp: does_refl assms Let_def split: prod.splits sum.splits option.splits dest!: does_results(2) [where P = P])

lemma inbox_markRead_does:
  assumes "\<And>v. hr_identity r = Some v \<Longrightarrow> P (ReadItem v (hr_id r))"
  shows "does X P s (snd (inbox_markRead uuid_ok (pg_inbox_ops X) r s))"
  unfolding api_handler_defs
  by (rule with_subject_state) (auto simp: does_refl assms Let_def split: prod.splits sum.splits option.splits dest!: does_results(3) [where P = P])

lemma inbox_dismiss_does:
  assumes "\<And>v. hr_identity r = Some v \<Longrightarrow> P (DismissItem v (hr_id r))"
  shows "does X P s (snd (inbox_dismiss uuid_ok (pg_inbox_ops X) r s))"
  unfolding api_handler_defs
  by (rule with_subject_state) (auto simp: does_refl assms Let_def split: prod.splits sum.splits option.splits dest!: does_results(4) [where P = P])

lemma preferences_list_does:
  assumes "\<And>v. hr_identity r = Some v \<Longrightarrow> P (ReadPreferences v)"
  shows "does X P s (snd (preferences_list uuid_ok (pg_preference_ops X) r s))"
  unfolding api_handler_defs
  by (rule with_subject_state) (metis assms does_list_preferences prod.collapse, rule does_refl)

lemma push_post_does:
  assumes "\<And>v ep p a ua. hr_identity r = Some v \<Longrightarrow> P (PutPush v ep p a ua)"
  shows "does X P s (snd (push_post uuid_ok (pg_push_ops X) body r s))"
  unfolding api_handler_defs
  by (rule with_subject_state) (auto simp: does_refl assms Let_def split: prod.splits sum.splits option.splits dest!: does_results(7) [where P = P])

lemma push_delete_does:
  assumes "\<And>v ep. hr_identity r = Some v \<Longrightarrow> P (DropPush v ep)"
  shows "does X P s (snd (push_delete uuid_ok (pg_push_ops X) body r s))"
  unfolding api_handler_defs
  by (rule with_subject_state) (auto simp: does_refl assms Let_def split: prod.splits sum.splits option.splits dest!: does_results(8) [where P = P])

lemma preferences_put_does:
  assumes "\<And>v pp. hr_identity r = Some v \<Longrightarrow> P (ReadPreferences v) \<and> P (PutPreference v pp)"
  shows "does X P s (snd (preferences_put uuid_ok (pg_preference_ops X) body r s))"
  unfolding preferences_put_def
proof (rule with_subject_state)
  fix v assume v: "hr_identity r = Some v"
  have put: "does X P s s1" if "po_UpsertPreference (pg_preference_ops X) v pp s = (x, s1)" for pp x s1
    using does_results(6) [of X v pp s x s1 P] that assms [OF v] by (simp add: pg_preference_ops_def)
  have lst: "does X P s1 (snd (list_preferences (pg_preference_ops X) v s1))" for s1
    using does_list_preferences [of X v s1] assms [OF v] by (metis prod.collapse)
  show "does X P s (snd (case body of Inl err \<Rightarrow> (WriteError err, s)
     | Inr pref \<Rightarrow>
         if \<not> channel_Valid (trim_space (p_Channel pref)) then
           (WriteError (CsarError Validation ''channel is invalid'' []), s)
         else
           (case po_UpsertPreference (pg_preference_ops X) v (Some (preference_to_store pref)) s of
              (Some err, s') \<Rightarrow> (WriteError err, s')
            | (None, s') \<Rightarrow> list_preferences (pg_preference_ops X) v s')))"
    using does_trans [OF put lst] by (auto simp: does_refl split: prod.splits sum.splits option.splits dest: put)
qed (rule does_refl)

lemmas handlers_do = inbox_list_does inbox_count_does inbox_markRead_does inbox_dismiss_does preferences_list_does
  preferences_put_does push_post_does push_delete_does

lemma serve_does: "does X (requested r) (sv_pg s) (sv_pg (snd (serve uuid_ok X cfg r s)))"
proof (cases "endpoint_of r")
  case (Some e)
  then show ?thesis
    by (cases e) (auto simp: serve_def does_refl case_prod_beta requested_def handler_request_def intro!: handlers_do)
qed (simp add: serve_def does_refl)

section \<open>The service over time\<close>

text \<open>
  What happens to the database while the service runs: a request of the users' API on its own, a batch of the
  consumer, and what the service does not do itself (time passes, the database fails or
  recovers, topic subscriptions are edited). While a batch is processed, requests, other consumers and the
  outside act between its statements; a batch event names the requests that were served meanwhile. The
  intake, the hub, the counters and the record of the calls to RabbitMQ can be in any state
  when an event happens.
\<close>

datatype service_event =
    Requested api_request
  | Consumed "amqp_delivery list" "api_request list"
  | Outside pg_op

definition outside :: "pg_op \<Rightarrow> bool" where
  "outside op = (case op of Clock _ \<Rightarrow> True | Outages _ \<Rightarrow> True | EditTopics _ \<Rightarrow> True | _ \<Rightarrow> False)"

definition meanwhile :: "api_request list \<Rightarrow> pg_op \<Rightarrow> bool" where
  "meanwhile rs op \<longleftrightarrow> outside op \<or> delivering op \<or> list_ex (\<lambda>r. requested r op) rs"

record machine =
  mc_uuid_ok :: "string \<Rightarrow> bool"
  mc_server :: pg_server
  mc_config :: config
  mc_dispatcher :: "services dispatcher"

inductive service_trace :: "machine \<Rightarrow> pg \<Rightarrow> service_event list \<Rightarrow> pg \<Rightarrow> bool" for M p where
  start: "service_trace M p [] p"
| request: "service_trace M p evs (sv_pg s) \<Longrightarrow>
    service_trace M p (evs @ [Requested r]) (sv_pg (snd (serve (mc_uuid_ok M) (mc_server M) (mc_config M) r s)))"
| batch: "service_trace M p evs (ws_pg (world (cs_env c))) \<Longrightarrow> others_do (mc_server M) (meanwhile rs) (world (cs_env c)) \<Longrightarrow>
    service_trace M p (evs @ [Consumed ds rs])
      (ws_pg (world (cs_env (process_batch (mc_uuid_ok M) (mc_dispatcher M) m ds c))))"
| outside: "service_trace M p evs q \<Longrightarrow> outside op \<Longrightarrow> op_enabled op q \<Longrightarrow>
    service_trace M p (evs @ [Outside op]) (pg_effect (mc_server M) op q)"

text \<open>A request of user \<open>u\<close> to dismiss item \<open>k\<close>, alone or during a batch; a request of user \<open>u\<close> to set a preference.\<close>

definition from_user :: "pg_server \<Rightarrow> string \<Rightarrow> api_request \<Rightarrow> bool" where
  "from_user X u r = (case ap_identity r of None \<Rightarrow> False | Some v \<Rightarrow> uuid_cast X v = Some u)"

definition asks_dismissal :: "pg_server \<Rightarrow> string \<Rightarrow> string \<Rightarrow> api_request \<Rightarrow> bool" where
  "asks_dismissal X u k r \<longleftrightarrow>
     endpoint_of r = Some DismissPatch \<and> uuid_cast X (PathValue_id (ap_path r)) = Some k \<and> from_user X u r"

definition dismissal :: "pg_server \<Rightarrow> string \<Rightarrow> string \<Rightarrow> service_event \<Rightarrow> bool" where
  "dismissal X u k ev = (case ev of
       Requested r \<Rightarrow> asks_dismissal X u k r | Consumed ds rs \<Rightarrow> list_ex (asks_dismissal X u k) rs | Outside op \<Rightarrow> False)"

definition asks_preference :: "pg_server \<Rightarrow> string \<Rightarrow> api_request \<Rightarrow> bool" where
  "asks_preference X u r \<longleftrightarrow> endpoint_of r = Some PreferencesPut \<and> from_user X u r"

lemma requested_dismissal: "requested r op \<Longrightarrow> dismisses_item X u k op \<Longrightarrow> asks_dismissal X u k r"
  by (cases op) (auto simp: requested_def dismisses_item_def asks_dismissal_def from_user_def)

lemma requested_preference: "requested r op \<Longrightarrow> sets_preference X u op \<Longrightarrow> asks_preference X u r"
  by (cases op) (auto simp: requested_def sets_preference_def asks_preference_def from_user_def)

lemma not_requested:
  "outside op \<or> delivering op \<Longrightarrow> \<not> dismisses_item X u k op" "outside op \<or> delivering op \<Longrightarrow> \<not> sets_preference X u op"
  by (cases op; auto simp: outside_def delivering_def dismisses_item_def sets_preference_def)+

lemma meanwhile_dismissal: "meanwhile rs op \<Longrightarrow> dismisses_item X u k op \<Longrightarrow> list_ex (asks_dismissal X u k) rs"
  unfolding meanwhile_def using not_requested(1) requested_dismissal by (fastforce simp: list_ex_iff)

lemma meanwhile_preference: "meanwhile rs op \<Longrightarrow> sets_preference X u op \<Longrightarrow> list_ex (asks_preference X u) rs"
  unfolding meanwhile_def using not_requested(2) requested_preference by (fastforce simp: list_ex_iff)

lemma process_batch_kept:
  assumes "providers_kept X (dp_providers d)" and "dp_store d = on_pg_store (pg_store X)"
  shows "kept X (world (cs_env c)) (world (cs_env (process_batch uuid_ok d m ds c)))"
  unfolding process_batch_env by (rule dispatch_all_kept [OF assms])

lemma trace_does:
  assumes "providers_kept (mc_server M) (dp_providers (mc_dispatcher M))"
    and "dp_store (mc_dispatcher M) = on_pg_store (pg_store (mc_server M))" and "service_trace M p evs q"
  shows "does (mc_server M) (\<lambda>op. dismisses_item (mc_server M) u k op \<longrightarrow> list_ex (dismissal (mc_server M) u k) evs) p q"
    (is "does ?X (?P evs) p q")
  using assms(3)
proof (induction rule: service_trace.induct)
  case start
  show ?case by (rule does_refl)
next
  case (request evs s r)
  have "?P (evs @ [Requested r]) op" if "requested r op" for op
    using requested_dismissal [OF that] by (auto simp: dismissal_def)
  then have "does ?X (?P (evs @ [Requested r])) (sv_pg s) (sv_pg (snd (serve (mc_uuid_ok M) ?X (mc_config M) r s)))"
    by (rule does_mono [OF serve_does])
  from does_trans [OF does_mono [OF request.IH] this] show ?case by auto
next
  case (batch evs c rs ds m)
  have "?P (evs @ [Consumed ds rs]) op" if "delivering op \<or> meanwhile rs op" for op
    using that not_requested(1) meanwhile_dismissal by (auto simp: dismissal_def)
  then have "does ?X (?P (evs @ [Consumed ds rs])) (ws_pg (world (cs_env c)))
      (ws_pg (world (cs_env (process_batch (mc_uuid_ok M) (mc_dispatcher M) m ds c))))"
    by (rule does_mono [OF kept_does [OF process_batch_kept [OF assms(1,2)] batch.hyps(2)]])
  from does_trans [OF does_mono [OF batch.IH] this] show ?case by auto
next
  case (outside evs q op)
  have "?P (evs @ [Outside op]) op" using outside(2) by (cases op) (auto simp: outside_def dismisses_item_def)
  then have "does ?X (?P (evs @ [Outside op])) q (pg_effect ?X op q)" by (intro does_op [OF refl outside(3)])
  from does_trans [OF does_mono [OF outside.IH] this] show ?case by auto
qed

section \<open>What the list shows\<close>

definition page_request :: "string \<Rightarrow> nat \<Rightarrow> nat \<Rightarrow> api_request" where
  "page_request v l k = \<lparr>ap_verb = ''GET'', ap_path = [''notifications''], ap_identity = Some v,
     ap_query = (\<lambda>q. if q = ''limit'' then show_nat l else if q = ''offset'' then show_nat k else []),
     ap_flusher = True, ap_notifications = Inl (Sentinel ''no body''), ap_preference = Inl (Sentinel ''no body''),
     ap_subscription = Inl (Sentinel ''no body''), ap_endpoint = Inl (Sentinel ''no body'')\<rparr>"

text \<open>The ids of the items an answer lists.\<close>

definition listed_ids :: "reply \<Rightarrow> string list" where
  "listed_ids a = (case a of
       Answer (WriteJSON code flds) \<Rightarrow>
         (case map_of flds ''items'' of Some (BDeliveries ds) \<Rightarrow> map d_NotificationID ds | _ \<Rightarrow> [])
     | _ \<Rightarrow> [])"

lemma page_request_endpoint: "endpoint_of (page_request v l k) = Some InboxGet"
  by (simp add: endpoint_of_def page_request_def matching_def service_mux_def inbox_Register_def preferences_Register_def
      vapid_Register_def push_Register_def route_at_def)

lemma page_listed:
  assumes "pg_faults (sv_pg s) = []" and "uuid_ok v" and "v \<noteq> []" and "uuid_cast X v = Some u"
    and "1 \<le> l" and "l \<le> 100" and "int k < 2 ^ 63"
  shows "listed_ids (fst (serve uuid_ok X cfg (page_request v l k) s))
       = map (\<lambda>r. nr_id (fst r)) (take l (drop k (ordered_inbox u (sv_pg s))))"
proof -
  let ?r = "handler_request (page_request v l k)"
  have "SubjectFromRequest uuid_ok ?r = Inr v"
    using assms(2,3) by (simp add: SubjectFromRequest_def handler_request_def page_request_def)
  moreover have "hr_query ?r ''limit'' = show_nat l" "hr_query ?r ''offset'' = show_nat k"
    by (simp_all add: handler_request_def page_request_def)
  ultimately have "inbox_list uuid_ok (pg_inbox_ops X) ?r (sv_pg s) =
    (WriteJSON StatusOK [(''items'', BDeliveries (scan_rows (take l (drop k (ordered_inbox u (sv_pg s)))))),
        (''limit'', BInt (int l)), (''offset'', BInt (int k))], sv_pg s)"
    using inbox_page_answer [OF assms(1), of uuid_ok ?r v X u l k] assms(4-7) by simp
  then show ?thesis
    by (simp add: serve_def page_request_endpoint listed_ids_def scan_rows_def scanDelivery_def case_prod_beta)
qed

lemma inbox_ids: 
  assumes "pg_inv s"
  shows "distinct (map (\<lambda>r. nr_id (fst r)) (ordered_inbox u s))"
    and "length (ordered_inbox u s) \<le> length (notification_deliveries s)"
proof -
  have m: "mset (map (\<lambda>r. nr_id (fst r)) (ordered_inbox u s)) = mset (map (\<lambda>r. nr_id (fst r)) (inbox_rows u s))"
    by (simp add: ordered_inbox_def)
  then show "distinct (map (\<lambda>r. nr_id (fst r)) (ordered_inbox u s))"
    using distinct_inbox_ids [OF assms] mset_eq_imp_distinct_iff by blast
  have "length (ordered_inbox u s) = length (inbox_rows u s)" by (simp add: ordered_inbox_def)
  also have "\<dots> = length (map (\<lambda>r. nr_id (fst r)) (inbox_rows u s))" by simp
  also have "\<dots> \<le> length (notification_deliveries s)" unfolding inbox_row_ids [OF assms] by (simp add: length_filter_le)
  finally show "length (ordered_inbox u s) \<le> length (notification_deliveries s)" .
qed

text \<open>In a list without repetitions an element is on exactly one page.\<close>

lemma one_page:
  assumes "distinct (map f xs)" and "0 < l" and "x \<in> set xs"
  shows "\<exists>!i. f x \<in> f ` set (take l (drop (i * l) xs))" and "f x \<in> f ` set (take l (drop (i * l) xs)) \<Longrightarrow> i * l < length xs"
proof -
  obtain j where j: "j < length xs" "xs ! j = x" using assms(3) by (auto simp: in_set_conv_nth)
  have page: "f x \<in> f ` set (take l (drop (i * l) xs)) \<longleftrightarrow> i * l \<le> j \<and> j < i * l + l" for i
  proof
    assume "f x \<in> f ` set (take l (drop (i * l) xs))"
    then obtain h where h: "h < length (take l (drop (i * l) xs))" "f (take l (drop (i * l) xs) ! h) = f x"
      by (auto simp: in_set_conv_nth)
    have le: "i * l + h < length xs" using h(1) by (simp add: less_diff_conv add.commute)
    then have "drop (i * l) xs ! h = xs ! (i * l + h)" by simp
    then have "map f xs ! (i * l + h) = map f xs ! j" using j h le by simp
    then have "i * l + h = j" using nth_eq_iff_index_eq [OF assms(1)] le j(1) by simp
    then show "i * l \<le> j \<and> j < i * l + l" using h(1) by simp
  next
    assume i: "i * l \<le> j \<and> j < i * l + l"
    then have "take l (drop (i * l) xs) ! (j - i * l) = x" "j - i * l < length (take l (drop (i * l) xs))"
      using j by auto
    then show "f x \<in> f ` set (take l (drop (i * l) xs))" by (metis image_eqI nth_mem)
  qed
  have "i * l \<le> j \<and> j < i * l + l \<longleftrightarrow> i = j div l" for i
    using assms(2) by (metis add.commute div_nat_eqI dividend_less_times_div mult.commute mult_Suc times_div_less_eq_dividend)
  with page show "\<exists>!i. f x \<in> f ` set (take l (drop (i * l) xs))" by auto
  show "f x \<in> f ` set (take l (drop (i * l) xs)) \<Longrightarrow> i * l < length xs" using page [of i] j(1) by simp
qed

text \<open>A text of a \<open>uuid\<close> that the database printed is read as the same \<open>uuid\<close>.\<close>

definition canonical :: "pg_server \<Rightarrow> bool" where
  "canonical X \<longleftrightarrow> (\<forall>t k. uuid_cast X t = Some k \<longrightarrow> uuid_cast X k = Some k)"

text \<open>An undismissed item that stays undismissed is on exactly one page of its owner's list.\<close>

lemma item_listed:
  assumes M: "providers_kept X (dp_providers d)" "dp_store d = on_pg_store (pg_store X)"
    and trace: "service_trace \<lparr>mc_uuid_ok = uuid_ok, mc_server = X, mc_config = cfg, mc_dispatcher = d\<rparr> p evs (sv_pg sv)"
    and p: "pg_inv p" "find_delivery k u p = Some dl" "\<not> dr_dismissed dl" and undismissed: "\<not> list_ex (dismissal X u k) evs"
    and sv: "pg_faults (sv_pg sv) = []" "length (notification_deliveries (sv_pg sv)) < 2 ^ 63"
    and v: "uuid_ok v" "v \<noteq> []" "uuid_cast X v = Some u" and l: "1 \<le> l" "l \<le> 100"
  shows "\<exists>!i. int (i * l) < 2 ^ 63 \<and> k \<in> set (listed_ids (fst (serve uuid_ok X cfg (page_request v l (i * l)) sv)))"
proof -
  let ?q = "sv_pg sv" and ?inbox = "ordered_inbox u (sv_pg sv)"
  obtain ops where ops: "pg_steps X p ops ?q" "\<not> list_ex (dismisses_item X u k) ops"
    using trace_does [OF _ _ trace, of u k] M undismissed by (auto simp: does_def list_all_iff list_ex_iff)
  have q: "pg_inv ?q" by (rule pg_steps_inv [OF ops(1) p(1)])
  from p(1,2) obtain nr where "find_notification k p = Some nr"
    using find_delivery_iff [OF p(1)] find_notification_iff_row [OF p(1)] by (auto simp: pg_inv_def)
  from item_after_ops [OF ops(1) p(2), of "nr_created_at nr"] this obtain nr' dl' where
    "find_notification k ?q = Some nr'" "find_delivery k u ?q = Some dl'" "\<not> dr_dismissed dl'"
    using ops(2) p(3) by (auto simp: created_def aged_def)
  then have mem: "(nr', dl') \<in> set ?inbox" and id: "nr_id nr' = k"
    using find_delivery_iff [OF q] find_notification_iff_row [OF q] by (auto simp: set_ordered_inbox visible_def)
  have l0: "0 < l" using l(1) by simp
  note page = one_page [OF inbox_ids(1) [OF q, of u] l0 mem, unfolded fst_conv id]
  have one: "\<exists>!i. k \<in> (\<lambda>r. nr_id (fst r)) ` set (take l (drop (i * l) ?inbox))" by (rule page(1))
  have small: "int (i * l) < 2 ^ 63" if "k \<in> (\<lambda>r. nr_id (fst r)) ` set (take l (drop (i * l) ?inbox))" for i
  proof -
    have "i * l < 2 ^ 63"
      using page(2) [OF that] inbox_ids(2) [OF q, of u] sv(2) by (meson less_le_trans order.strict_trans)
    then have "int (i * l) < int (2 ^ 63)" by (simp only: of_nat_less_iff)
    then show ?thesis by (simp only: of_nat_power of_nat_numeral)
  qed
  have "set (listed_ids (fst (serve uuid_ok X cfg (page_request v l (i * l)) sv)))
      = (\<lambda>r. nr_id (fst r)) ` set (take l (drop (i * l) ?inbox))" if "int (i * l) < 2 ^ 63" for i
    using page_listed [of sv uuid_ok v X u l "i * l" cfg, OF sv(1) v l that] by simp
  with one small show ?thesis by metis
qed

text \<open>An item nobody asks to dismiss is not dismissed when it comes.\<close>

lemma undismissed_op:
  assumes "\<not> dismisses_item X u k op" and "\<forall>e. find_delivery k u s = Some e \<longrightarrow> \<not> dr_dismissed e"
  shows "\<forall>e. find_delivery k u (pg_effect X op s) = Some e \<longrightarrow> \<not> dr_dismissed e"
proof (cases "find_delivery k u s")
  case (Some d)
  then show ?thesis using delivery_after_op [OF Some, of X op] assms by (auto simp: aged_def)
next
  case None
  show ?thesis
  proof (cases "inserts op")
    case True
    then obtain r np where op: "op = InsertDelivery r np" by (auto simp: inserts_def split: pg_op.splits)
    have "\<forall>e. find_delivery k u (snd (pg_run (sql_insert_delivery X i r) s)) = Some e \<longrightarrow> \<not> dr_dismissed e" for i
      by (cases rule: pg_run_cases [of s "sql_insert_delivery X i r"])
         (use None in \<open>auto simp: sql_insert_delivery_def insert_delivery_rows new_delivery_def find_delivery_def find_append
            split: option.splits if_splits\<close>)
    then show ?thesis using None by (simp add: op split: option.split)
  next
    case False
    then show ?thesis using None item_keys_op [OF False, of X s] item_keys_found by (metis option.distinct(1))
  qed
qed

lemma batch_undismissed:
  assumes "kept X w w'" and "others_do X (meanwhile rs) w" and "\<not> list_ex (asks_dismissal X u k) rs"
    and "\<not> (\<exists>e. find_delivery k u (ws_pg w) = Some e \<and> dr_dismissed e)" and "find_delivery k u (ws_pg w') = Some e"
  shows "\<not> dr_dismissed e"
proof -
  have "\<forall>e. find_delivery k u (ws_pg w') = Some e \<longrightarrow> \<not> dr_dismissed e"
    by (rule does_keeps [OF kept_does [OF assms(1,2)], where I = "\<lambda>s. \<forall>e. find_delivery k u s = Some e \<longrightarrow> \<not> dr_dismissed e"])
       (use assms(3,4) not_requested(1) meanwhile_dismissal undismissed_op in blast)+
  with assms(5) show ?thesis by simp
qed

text \<open>
  C1: from the queue to the user's list: when the consumer has acknowledged a message, and the service has gone
  on for any time (requests of any users, also between the statements of a batch, further batches,
  redeliveries of the same message, failures of the database), then every recipient the message names whose
  site channel was chosen and who has not dismissed the item, before, meanwhile or since, finds it in his list:
  walking through \<open>GET /notifications\<close> with any page size, exactly one page shows the item of the message's id.
\<close>

theorem acknowledged_item_listed:
  fixes s :: "services consumer_state" and sv :: service
  assumes "buildProviders D cfg = Inr reg" and "live_deps X R D" and "sc_Enabled (pc_Site (c_Providers cfg))"
    and "canonical X" and "d = \<lparr>dp_store = on_pg_store (pg_store X), dp_providers = Some reg\<rparr>"
    and "pg_inv (ws_pg (world (cs_env s)))" and "plain_faults X (world (cs_env s))" and "plain_redis R"
    and "others_do X (meanwhile rs) (world (cs_env s))"
    and "distinct (map dl_DeliveryTag ds)" and "dl \<in> set ds"
    and "cs_calls (process_batch uuid_ok d m ds s) = cs_calls s @ calls" and "Ack (dl_DeliveryTag dl) multi \<in> set calls"
    and "service_trace \<lparr>mc_uuid_ok = uuid_ok, mc_server = X, mc_config = cfg, mc_dispatcher = d\<rparr>
           (ws_pg (world (cs_env (process_batch uuid_ok d m ds s)))) evs (sv_pg sv)"
    and "pg_faults (sv_pg sv) = []" and "length (notification_deliveries (sv_pg sv)) < 2 ^ 63"
  shows "\<exists>n k. unmarshal_notification (dl_Body dl) = Some n \<and> (n_ID n \<noteq> [] \<longrightarrow> uuid_cast X (n_ID n) = Some k)
     \<and> (\<forall>r \<in> set (uniqueStrings (n_Recipients n)). \<forall>u l.
          chosen (stored_preferences X r (world (cs_env s))) (Normalize n) ChannelSite
          \<and> uuid_ok r \<and> r \<noteq> [] \<and> uuid_cast X r = Some u
          \<and> \<not> (\<exists>e. find_delivery k u (ws_pg (world (cs_env s))) = Some e \<and> dr_dismissed e)
          \<and> \<not> list_ex (dismissal X u k) (Consumed ds rs # evs) \<and> \<not> list_ex (asks_preference X u) rs
          \<and> 1 \<le> l \<and> l \<le> 100 \<longrightarrow>
          (\<exists>!i. int (i * l) < 2 ^ 63
             \<and> k \<in> set (listed_ids (fst (serve uuid_ok X cfg (page_request r l (i * l)) sv)))))"
proof -
  let ?w0 = "world (cs_env s)" and ?w1 = "world (cs_env (process_batch uuid_ok d m ds s))"
  have M: "providers_kept X (dp_providers d)" "dp_store d = on_pg_store (pg_store X)"
    using built_providers(1) [OF assms(1,2)] by (simp_all add: assms(5))
  have ops: "by_operations X ?w0" by (rule others_do_mono [OF assms(9)]) simp
  obtain n i t where n: "unmarshal_notification (dl_Body dl) = Some n" and i: "n_ID n \<noteq> [] \<longrightarrow> uuid_cast X (n_ID n) = Some i"
    and delivered: "\<And>r. r \<in> set (uniqueStrings (n_Recipients n)) \<Longrightarrow> chosen (stored_preferences X r ?w0) (Normalize n) ChannelSite \<Longrightarrow>
        preferences_rest X r ?w0 \<Longrightarrow> in_inbox X ((Normalize n)\<lparr>n_ID := i, n_CreatedAt := t\<rparr>) r ?w1"
    using acknowledged_in_inbox [OF assms(1-3,6-8,10,11) assms(12,13) [unfolded assms(5)] ops] unfolding assms(5) by blast
  define k where "k = (case uuid_cast X i of Some k \<Rightarrow> k | None \<Rightarrow> i)"
  have k: "n_ID n \<noteq> [] \<longrightarrow> uuid_cast X (n_ID n) = Some k"
    using i assms(4) by (auto simp: k_def canonical_def)
  have kept: "kept X ?w0 ?w1" by (rule process_batch_kept [OF M])
  have "\<exists>!j. int (j * l) < 2 ^ 63 \<and> k \<in> set (listed_ids (fst (serve uuid_ok X cfg (page_request r l (j * l)) sv)))"
    if r: "r \<in> set (uniqueStrings (n_Recipients n))" "chosen (stored_preferences X r ?w0) (Normalize n) ChannelSite"
      and v: "uuid_ok r" "r \<noteq> []" "uuid_cast X r = Some u" and l: "1 \<le> l" "l \<le> 100"
      and before: "\<not> (\<exists>e. find_delivery k u (ws_pg ?w0) = Some e \<and> dr_dismissed e)"
      and since: "\<not> list_ex (dismissal X u k) (Consumed ds rs # evs)" and pref: "\<not> list_ex (asks_preference X u) rs"
    for r u l
  proof -
    have "preferences_rest X r ?w0"
      unfolding preferences_rest_def using others_do_mono [OF assms(9)] meanwhile_preference pref v(3) by (metis option.sel)
    then obtain e where e: "find_delivery k u (ws_pg ?w1) = Some e"
      using delivered [OF r] v(3) by (auto simp: in_inbox_def k_def)
    have "\<not> dr_dismissed e" "\<not> list_ex (dismissal X u k) evs"
      using batch_undismissed [OF kept assms(9) _ before e] since by (simp_all add: dismissal_def)
    from item_listed [OF M assms(14) kept_inv [OF kept ops assms(6)] e this assms(15,16) v l] show ?thesis .
  qed
  with n k show ?thesis by blast
qed

definition live_service :: service where
  "live_service = sample_service\<lparr>sv_pg := ws_pg (world live_again)\<rparr>"

definition dismiss_own :: api_request where
  "dismiss_own = sample_request ''PATCH'' [''notifications'', ''A1'', ''dismiss''] ''R1''"

definition live_dispatcher :: "services dispatcher" where
  "live_dispatcher = \<lparr>dp_store = on_pg_store (pg_store sample_server), dp_providers = Some live_registry\<rparr>"

definition read_own :: api_request where
  "read_own = sample_request ''PATCH'' [''notifications'', ''A1'', ''read''] ''R1''"

lemma live_meanwhile: "others_do sample_server (meanwhile [read_own]) (world live_env)"
proof (rule live_others)
  have "requested read_own (ReadItem ''R1'' ''A1'')" by code_simp
  then show "list_all (meanwhile [read_own]) sample_others"
    by (simp add: sample_others_def meanwhile_def delivering_def)
qed

lemma ascii_lower_twice: "ascii_lower (ascii_lower c) = ascii_lower c"
proof -
  have "list_all (\<lambda>c. ascii_lower (ascii_lower c) = ascii_lower c) enum_class.enum" by code_simp
  then show ?thesis by (simp add: list_all_iff enum_UNIV)
qed

lemma sample_canonical: "canonical sample_server"
  by (auto simp: canonical_def sample_server_def ascii_lower_twice)

lemma live_batch:
  "cs_env (process_batch (\<lambda>_. True) live_dispatcher 3 [live_delivery] live_state) = live_again"
  "cs_calls (process_batch (\<lambda>_. True) live_dispatcher 3 [live_delivery] live_state) = cs_calls live_state @ [Ack 7 False]"
proof -
  have env: "cs_env live_state = live_env" "cs_calls live_state = []" by (simp_all add: live_state_def)
  show "cs_env (process_batch (\<lambda>_. True) live_dispatcher 3 [live_delivery] live_state) = live_again"
    unfolding process_batch_env by (simp add: live_delivery env live_again_def live_dispatcher_def case_prod_beta)
  obtain np e where "Dispatch (\<lambda>_. True) live_dispatcher (Some sample_message) live_env = ((None, np), e)"
    using live_dispatch_nil unfolding live_dispatcher_def by (metis prod.collapse)
  then show "cs_calls (process_batch (\<lambda>_. True) live_dispatcher 3 [live_delivery] live_state) = cs_calls live_state @ [Ack 7 False]"
    by (simp add: process_batch_calls live_delivery env settlement_def)
qed

lemma live_end:
  "pg_faults (sv_pg (snd (live_serve dismiss_own live_service))) = []"
  "length (notification_deliveries (sv_pg (snd (live_serve dismiss_own live_service)))) = 2"
  "\<not> list_ex (dismissal sample_server ''r2'' ''a1'') (Consumed [live_delivery] [read_own] # [Requested dismiss_own])"
  "\<not> list_ex (asks_preference sample_server ''r2'') [read_own]"
  "list_ex (dismissal sample_server ''r1'' ''a1'') [Requested dismiss_own]"
  by code_simp+

theorem acknowledged_item_listed_witness:
  "\<exists>!i. int (i * 10) < 2 ^ 63
     \<and> ''a1'' \<in> set (listed_ids (fst (live_serve (page_request ''r2'' 10 (i * 10)) (snd (live_serve dismiss_own live_service)))))"
proof -
  have env: "cs_env live_state = live_env" by (simp add: live_state_def)
  let ?M = "\<lparr>mc_uuid_ok = \<lambda>_. True, mc_server = sample_server, mc_config = live_config, mc_dispatcher = live_dispatcher\<rparr>"
  let ?last = "snd (serve (\<lambda>_. True) sample_server live_config dismiss_own live_service)"
  have "serve (\<lambda>_. True) sample_server live_config r s = live_serve r s" if "endpoint_of r \<noteq> Some VapidKeyGet" for r s
    using that unfolding serve_def live_serve_def by (cases "endpoint_of r"; cases "the (endpoint_of r)") simp_all
  then have same: "serve (\<lambda>_. True) sample_server live_config dismiss_own s = live_serve dismiss_own s"
    "serve (\<lambda>_. True) sample_server live_config (page_request v l k) s = live_serve (page_request v l k) s" for s v l k
    using page_request_endpoint [of v l k] by (simp_all add: dismiss_own_def) (code_simp)
  have "service_trace ?M (sv_pg live_service) ([] @ [Requested dismiss_own]) (sv_pg ?last)"
    using request [OF start, of ?M live_service dismiss_own] by simp
  then have trace: "service_trace ?M (ws_pg (world (cs_env (process_batch (\<lambda>_. True) live_dispatcher 3 [live_delivery] live_state))))
      [Requested dismiss_own] (sv_pg ?last)"
    by (simp add: live_batch(1) live_service_def)
  have "(2::nat) < 2 ^ 63" by simp
  then have fin: "pg_faults (sv_pg ?last) = []" "length (notification_deliveries (sv_pg ?last)) < 2 ^ 63"
    unfolding same using live_end(1,2) by simp_all
  obtain n k where n: "unmarshal_notification (dl_Body live_delivery) = Some n" "n_ID n \<noteq> [] \<longrightarrow> uuid_cast sample_server (n_ID n) = Some k"
    and all: "\<forall>r \<in> set (uniqueStrings (n_Recipients n)). \<forall>u l.
          chosen (stored_preferences sample_server r (world (cs_env live_state))) (Normalize n) ChannelSite
          \<and> True \<and> r \<noteq> [] \<and> uuid_cast sample_server r = Some u
          \<and> \<not> (\<exists>e. find_delivery k u (ws_pg (world (cs_env live_state))) = Some e \<and> dr_dismissed e)
          \<and> \<not> list_ex (dismissal sample_server u k) (Consumed [live_delivery] [read_own] # [Requested dismiss_own])
          \<and> \<not> list_ex (asks_preference sample_server u) [read_own] \<and> 1 \<le> l \<and> l \<le> 100 \<longrightarrow>
          (\<exists>!i. int (i * l) < 2 ^ 63
             \<and> k \<in> set (listed_ids (fst (serve (\<lambda>_. True) sample_server live_config (page_request r l (i * l)) ?last))))"
    using acknowledged_item_listed [OF live_registry live_facts(1,2) sample_canonical live_dispatcher_def live_facts(3-5) [folded env]
      live_meanwhile [folded env] _ _ live_batch(2) _ trace fin, of live_delivery False] by (auto simp: live_delivery)
  have id: "n_ID sample_message = ''a1''" "uuid_cast sample_server ''a1'' = Some ''a1''" by code_simp+
  have "n = sample_message" using n(1) live_delivery(1) by simp
  with n(2) id have m: "n = sample_message" "k = ''a1''" by simp_all
  have "''r2'' \<in> set (uniqueStrings (n_Recipients sample_message))"
    "chosen (stored_preferences sample_server ''r2'' (world live_env)) (Normalize sample_message) ChannelSite"
    "uuid_cast sample_server ''r2'' = Some ''r2''" "find_delivery ''a1'' ''r2'' (ws_pg (world live_env)) = None"
    by code_simp+
  note r2 = this
  show ?thesis
    by (rule all [unfolded m env same, rule_format, of "''r2''" "''r2''" 10]) (use r2 live_end(3,4) in auto)
qed

end
