(* ===== verification/Accepted.thy ===== *)
theory Accepted
  imports Listed Ingest
begin

text \<open>
  From the intake to the inbox: requests to the intake while the workers publish and other requests
  submit, the messages the broker has confirmed, and what an acknowledgement of one means.
\<close>

section \<open>The messages the broker confirmed\<close>

text \<open>
  A publisher that keeps a record of the bodies it has been given a confirmation for. It behaves as the
  publisher does; only the record is added.
\<close>

definition logged :: "(string \<Rightarrow> 'w \<Rightarrow> error \<times> 'w) \<Rightarrow> string \<Rightarrow> 'w \<times> string list \<Rightarrow> error \<times> 'w \<times> string list" where
  "logged pub body s = (case pub body (fst s) of (e, w) \<Rightarrow> (e, w, if e = None then snd s @ [body] else snd s))"

definition published_list :: "buffer_event list \<Rightarrow> notification list" where
  "published_list evs = List.map_filter (\<lambda>ev. case ev of Published n \<Rightarrow> Some n | _ \<Rightarrow> None) evs"

lemma published_list_simps [simp]:
  "published_list [] = []" "published_list (evs @ evs') = published_list evs @ published_list evs'"
  "published_list [Accepted n] = []" "published_list [Refused n] = []"
  "published_list [Published n] = [n]" "published_list [Lost n] = []"
  by (simp_all add: published_list_def map_filter_append map_filter_simps)

lemma published_mset: "published evs = mset (published_list evs)"
  by (simp add: published_def published_list_def)

lemma logged_attempts:
  "attempt_loop (logged pub body) ks backoff (w, q) = (ok, sleeps, w', q') \<Longrightarrow> q' = q @ (if ok then [body] else [])"
proof (induction ks arbitrary: backoff w q sleeps)
  case (Cons k ks)
  obtain e w1 where "pub body w = (e, w1)" by fastforce
  then show ?case
    using Cons.prems Cons.IH [of _ w1 q] by (cases e) (auto simp: logged_def Let_def split: prod.splits)
qed simp

lemma logged_step:
  assumes "pipe_step (logged pub) a (b, w, q) = Some (evs, b', w', q')"
  shows "q' = q @ map marshal_notification (published_list evs)"
proof (cases a)
  case (DoSubmit np)
  then show ?thesis using assms by (cases np) (auto split: option.splits if_splits)
next
  case (DoFinish i)
  then obtain n ok sleeps where "publishWithRetry (logged pub) n (w, q) = (ok, sleeps, w', q')" "finish i n ok b = (evs, b')"
    using assms by (auto split: if_splits worker.splits prod.splits)
  then show ?thesis
    using logged_attempts unfolding publishWithRetry_def by (fastforce simp: finish_def split: if_splits)
qed (use assms in \<open>auto split: if_splits list.splits\<close>)

lemma logged_run:
  "pipe_run (logged pub) as (b, w, q) = Some (evs, b', w', q') \<Longrightarrow>
     q' = q @ map marshal_notification (published_list evs)"
proof (induction as arbitrary: b w q evs)
  case (Cons a as)
  obtain e1 b1 w1 q1 where s: "pipe_step (logged pub) a (b, w, q) = Some (e1, b1, w1, q1)"
    using Cons.prems by (auto split: option.splits)
  obtain e2 where r: "pipe_run (logged pub) as (b1, w1, q1) = Some (e2, b', w', q')" and evs: "evs = e1 @ e2"
    using Cons.prems s by (auto split: option.splits)
  show ?case using logged_step [OF s] Cons.IH [OF r] by (simp add: evs)
qed simp

section \<open>A request among others\<close>

text \<open>
  The buffer as a running request sees it: before each of its submissions the other goroutines act (workers
  take, finish, and other requests submit), as the next element of \<open>sh_others\<close> says; when that
  sequence is not possible they do nothing. The events of the buffer and what this request has
  submitted are recorded.
\<close>

record 'w shared =
  sh_buffer :: buffer
  sh_world :: 'w
  sh_others :: "action list list"
  sh_events :: "buffer_event list"
  sh_taken :: "notification list"

definition others_act :: "(string \<Rightarrow> 'w \<Rightarrow> error \<times> 'w) \<Rightarrow> 'w shared \<Rightarrow> 'w shared" where
  "others_act pub s =
     (case sh_others s of
        [] \<Rightarrow> s
      | as # rest \<Rightarrow>
          (case pipe_run pub as (sh_buffer s, sh_world s) of
             None \<Rightarrow> s\<lparr>sh_others := rest\<rparr>
           | Some (evs, b, w) \<Rightarrow>
               s\<lparr>sh_buffer := b, sh_world := w, sh_others := rest, sh_events := sh_events s @ evs\<rparr>))"

definition submit_shared ::
  "(string \<Rightarrow> 'w \<Rightarrow> error \<times> 'w) \<Rightarrow> notification option \<Rightarrow> 'w shared \<Rightarrow> error \<times> 'w shared" where
  "submit_shared pub np s =
     (let s = others_act pub s in
      case submit_open np (sh_buffer s) of
        (e, b) \<Rightarrow>
          (e, s\<lparr>sh_buffer := b,
                sh_events := sh_events s @ (case np of None \<Rightarrow> [] | Some n \<Rightarrow> if e = None then [Accepted n] else [Refused n]),
                sh_taken := sh_taken s @ (case np of None \<Rightarrow> [] | Some n \<Rightarrow> if e = None then [n] else [])\<rparr>))"

text \<open>While requests run, the buffer is open: its owner closes it when the server has shut down.\<close>

definition shared_open :: "'w shared \<Rightarrow> bool" where
  "shared_open s \<longleftrightarrow> \<not> bf_closed (sh_buffer s) \<and> list_all (list_all (\<lambda>a. a \<noteq> DoClose)) (sh_others s)"

lemma open_step:
  "pipe_step pub a (b, w) = Some (evs, b', w') \<Longrightarrow> a \<noteq> DoClose \<Longrightarrow> bf_closed b' = bf_closed b"
proof (cases a)
  case (DoSubmit np)
  then show "pipe_step pub a (b, w) = Some (evs, b', w') \<Longrightarrow> ?thesis"
    by (cases np) (auto simp: Submit_def split: if_splits)
qed (auto simp: finish_def split: if_splits list.splits worker.splits prod.splits)

lemma open_run:
  "pipe_run pub as (b, w) = Some (evs, b', w') \<Longrightarrow> list_all (\<lambda>a. a \<noteq> DoClose) as \<Longrightarrow> bf_closed b' = bf_closed b"
proof (induction as arbitrary: b w evs)
  case (Cons a as)
  then show ?case by (auto split: option.splits dest!: open_step)
qed simp

lemma pipe_run_append:
  "pipe_run pub as s = Some (evs, s1) \<Longrightarrow> pipe_run pub as' s1 = Some (evs', s2) \<Longrightarrow>
     pipe_run pub (as @ as') s = Some (evs @ evs', s2)"
  by (induction as arbitrary: s evs) (auto split: option.splits prod.splits)

text \<open>What a request does to the shared buffer is a run of its goroutines.\<close>

definition shared_run :: "(string \<Rightarrow> 'w \<Rightarrow> error \<times> 'w) \<Rightarrow> 'w shared \<Rightarrow> 'w shared \<Rightarrow> bool" where
  "shared_run pub s s' \<longleftrightarrow> (\<exists>as evs ns. pipe_run pub as (sh_buffer s, sh_world s) = Some (evs, sh_buffer s', sh_world s')
     \<and> sh_events s' = sh_events s @ evs \<and> sh_taken s' = sh_taken s @ ns \<and> mset ns \<subseteq># accepted evs)"

lemma shared_run_refl: "shared_run pub s s"
  unfolding shared_run_def by (intro exI [of _ "[]"]) simp

lemma shared_run_trans: "shared_run pub s s1 \<Longrightarrow> shared_run pub s1 s2 \<Longrightarrow> shared_run pub s s2"
  unfolding shared_run_def using pipe_run_append by (fastforce intro: subset_mset.add_mono)

lemma others_act_run:
  assumes "shared_open s"
  shows "shared_run pub s (others_act pub s) \<and> shared_open (others_act pub s) \<and> sh_taken (others_act pub s) = sh_taken s"
proof (cases "sh_others s")
  case (Cons as rest)
  show ?thesis
  proof (cases "pipe_run pub as (sh_buffer s, sh_world s)")
    case (Some r)
    obtain evs b w where r: "r = (evs, b, w)" by (cases r)
    then have "bf_closed b = bf_closed (sh_buffer s)"
      using open_run [of pub as "sh_buffer s" "sh_world s" evs b w] Some assms by (simp add: shared_open_def Cons)
    then show ?thesis
      using assms Some unfolding r by (auto simp: others_act_def Cons shared_open_def shared_run_def)
  qed (use assms in \<open>auto simp: others_act_def Cons shared_open_def shared_run_def intro!: exI [of _ "[]"]\<close>)
qed (use assms in \<open>simp add: others_act_def shared_run_refl\<close>)

lemma submit_run:
  assumes "shared_open s" and "submit_shared pub np s = (e, s')"
  shows "shared_run pub s s'" and "shared_open s'"
    and "sh_taken s' = sh_taken s @ (case np of None \<Rightarrow> [] | Some n \<Rightarrow> if e = None then [n] else [])"
proof -
  let ?s = "others_act pub s"
  note act = others_act_run [OF assms(1), of pub]
  obtain b where b: "Submit np (sh_buffer ?s) = Some (e, b)" "submit_open np (sh_buffer ?s) = (e, b)"
    using assms(2) act by (cases np) (auto simp: submit_shared_def Let_def submit_open_def Submit_def shared_open_def split: if_splits)
  have s': "s' = ?s\<lparr>sh_buffer := b,
      sh_events := sh_events ?s @ (case np of None \<Rightarrow> [] | Some n \<Rightarrow> if e = None then [Accepted n] else [Refused n]),
      sh_taken := sh_taken ?s @ (case np of None \<Rightarrow> [] | Some n \<Rightarrow> if e = None then [n] else [])\<rparr>"
    using assms(2) b(2) by (simp add: submit_shared_def Let_def)
  have "bf_closed b = bf_closed (sh_buffer ?s)"
    using b(1) by (cases np) (auto simp: Submit_def split: if_splits)
  then show "shared_open s'" using act by (simp add: s' shared_open_def)
  show "sh_taken s' = sh_taken s @ (case np of None \<Rightarrow> [] | Some n \<Rightarrow> if e = None then [n] else [])"
    using act by (simp add: s')
  have "pipe_run pub [DoSubmit np] (sh_buffer ?s, sh_world ?s)
      = Some (case np of None \<Rightarrow> [] | Some n \<Rightarrow> if e = None then [Accepted n] else [Refused n], b, sh_world ?s)"
    using b(1) by simp
  then have "shared_run pub ?s s'"
    unfolding shared_run_def s' by (intro exI [of _ "[DoSubmit np]"]) (auto split: option.splits)
  with act show "shared_run pub s s'" using shared_run_trans by blast
qed

interpretation shared_submit: submitter shared_open "submit_shared pub" sh_taken for pub
proof
  fix s :: "'a shared" and np n e
  obtain e' s' where r: "submit_shared pub np s = (e', s')" by fastforce
  show "shared_open s \<Longrightarrow> shared_open (snd (submit_shared pub np s))" using submit_run(2) [OF _ r] r by simp
  show "shared_open s \<Longrightarrow> fst (submit_shared pub np s) = Some e \<Longrightarrow> sh_taken (snd (submit_shared pub np s)) = sh_taken s"
    using submit_run(3) [OF _ r] r by (simp split: option.splits)
  obtain e1 s1 where r1: "submit_shared pub (Some n) s = (e1, s1)" by fastforce
  show "shared_open s \<Longrightarrow> fst (submit_shared pub (Some n) s) = None \<Longrightarrow>
      sh_taken (snd (submit_shared pub (Some n) s)) = sh_taken s @ [n]"
    using submit_run(3) [OF _ r1] r1 by simp
qed

lemma submit_loop_run:
  "shared_open s \<Longrightarrow> submit_loop (submit_shared pub) idx nps s = (r, s') \<Longrightarrow> shared_run pub s s' \<and> shared_open s'"
proof (induction nps arbitrary: idx s)
  case (Cons np nps)
  obtain e s1 where sub: "submit_shared pub np s = (e, s1)" by fastforce
  note step = submit_run(1,2) [OF Cons.prems(1) sub]
  show ?case
    using Cons.prems(2) sub step Cons.IH [OF step(2)] shared_run_trans [OF step(1)] by (cases e) auto
qed (simp add: shared_run_refl)

lemma ingest_run:
  assumes "shared_open (it_store s)" and "ingest_ServeHTTP uuid_ok (submit_shared pub) body s = (resp, s')"
  shows "shared_run pub (it_store s) (it_store s')"
  using assms submit_loop_run [OF assms(1)]
  by (fastforce simp: ingest_ServeHTTP_def shared_run_refl split: sum.splits if_splits prod.splits option.splits)

text \<open>What an answer 202 says: all notifications of the request are valid, and all were submitted.\<close>

lemma accepted_answer:
  assumes "shared_open (it_store s)" and "ingest_ServeHTTP uuid_ok (submit_shared pub) (Inr nps) s = (WriteJSON code flds, s')"
  shows "list_all (\<lambda>np. fst (ValidateNotification uuid_ok np) = None) nps"
    and "sh_taken (it_store s') = sh_taken (it_store s) @ map (\<lambda>np. Normalize (the np)) nps"
  using shared_submit.ingest_spec [OF assms] by (auto split: if_splits)

lemma drained_accounts:
  assumes "pipe_run pub as (NewBuffer depth workers, w0) = Some (evs, b, w)" and "workers_done b"
  shows "accepted evs = published evs + lost evs"
  using pipe_run_accounts [OF assms(1)] new_buffer_accounts(1,2)
    all_stopped [OF pipe_run_stop_inv [OF assms(1) new_buffer_stop_inv] assms(2)] by simp

text \<open>
  The producer's side: when the workers have stopped, the broker's messages are those of the published
  notifications in the order of their publication; what was accepted is published or lost; and
  the notifications of an accepted request are among it, as often as the request has them.
\<close>

lemma accepted_request_published:
  assumes "pipe_run (logged pub) as (NewBuffer depth workers, w0, []) = Some (sh_events sh, sh_buffer sh, sh_world sh)"
    and "shared_open sh"
    and "ingest_ServeHTTP uuid_ok (submit_shared (logged pub)) (Inr nps) \<lparr>it_store = sh, it_total = t\<rparr> = (WriteJSON code flds, it)"
    and "pipe_run (logged pub) as' (sh_buffer (it_store it), sh_world (it_store it)) = Some (evs', b, w, q)"
    and "workers_done b"
  shows "\<exists>ps. q = map marshal_notification ps
     \<and> mset ps + lost (sh_events (it_store it) @ evs') = accepted (sh_events (it_store it) @ evs')
     \<and> mset (map (\<lambda>np. Normalize (the np)) nps) \<subseteq># accepted (sh_events (it_store it) @ evs')"
proof -
  let ?it = "it_store it" and ?s = "\<lparr>it_store = sh, it_total = t\<rparr>"
  have op: "shared_open (it_store ?s)" using assms(2) by simp
  obtain acts evs ns where run: "pipe_run (logged pub) acts (sh_buffer sh, sh_world sh) = Some (evs, sh_buffer ?it, sh_world ?it)"
    and it: "sh_events ?it = sh_events sh @ evs" "sh_taken ?it = sh_taken sh @ ns" "mset ns \<subseteq># accepted evs"
    using ingest_run [OF op assms(3)] by (auto simp: shared_run_def)
  have ns: "ns = map (\<lambda>np. Normalize (the np)) nps"
    using accepted_answer(2) [OF op assms(3)] it(2) by simp
  have all: "pipe_run (logged pub) ((as @ acts) @ as') (NewBuffer depth workers, w0, []) = Some (sh_events ?it @ evs', b, w, q)"
    using pipe_run_append [OF pipe_run_append [OF assms(1) run] assms(4)] by (simp add: it(1))
  have "mset ns \<subseteq># accepted (sh_events ?it @ evs')"
    using it(3) by (auto simp: it(1) intro: subset_mset.order_trans)
  with logged_run [OF all] drained_accounts [OF all assms(5)] show ?thesis
    by (intro exI [of _ "published_list (sh_events ?it @ evs')"]) (simp add: ns published_mset)
qed

section \<open>The message the consumer decodes\<close>

lemma wire_message:
  assumes "unmarshal_notification (marshal_notification (Normalize n)) = Some m"
    and "utf8_notification (Normalize n)" and "is_go_map (n_Metadata n)"
  shows "n_ID m = n_ID n" and "uniqueStrings (n_Recipients m) = uniqueStrings (n_Recipients n)"
    and "chosen prefs (Normalize m) c = chosen prefs (Normalize n) c"
proof -
  have "m = (Normalize n)\<lparr>n_Metadata := sort_key fst (n_Metadata n), n_CreatedAt := 0\<rparr>"
    using unmarshal_marshal_notification [of "Normalize n"] assms by (simp add: Normalize_def)
  then show "n_ID m = n_ID n" "uniqueStrings (n_Recipients m) = uniqueStrings (n_Recipients n)"
    "chosen prefs (Normalize m) c = chosen prefs (Normalize n) c"
    by (simp_all add: Normalize_def chosen_def uniqueChannels_eq cong: option.case_cong)
qed

section \<open>From the intake to the inbox\<close>

text \<open>
  C2: from the intake to the inbox. A request to the intake is answered with 202 while other requests submit and
  the workers publish, in any interleaving. When the buffer has been closed and its workers have stopped,
  the messages RabbitMQ has confirmed are exactly those of the accepted notifications that are not counted
  as lost, and the notifications of the request are among the accepted ones as often as the request
  has them. And when the consumer acknowledges the message of one of them (with strings that
  are UTF-8), then at the end of the batch the inbox of every recipient the caller named, and whose site
  channel is chosen, has the item, under the id the caller gave, whatever the other users of the database
  did during the batch but edit his preferences.
\<close>

theorem request_reaches_inbox:
  fixes s :: "services consumer_state"
  assumes "pipe_run (logged (PublishRaw Q queue)) as (NewBuffer depth workers, w0, []) = Some (sh_events sh, sh_buffer sh, sh_world sh)"
    and "shared_open sh"
    and "ingest_ServeHTTP uuid_ok (submit_shared (logged (PublishRaw Q queue))) (Inr nps) \<lparr>it_store = sh, it_total = t\<rparr>
           = (WriteJSON StatusAccepted flds, it)"
    and "pipe_run (logged (PublishRaw Q queue)) as' (sh_buffer (it_store it), sh_world (it_store it)) = Some (evs', b, w, q)"
    and "workers_done b"
    and "buildProviders D cfg = Inr reg" and "live_deps X R D" and "sc_Enabled (pc_Site (c_Providers cfg))"
    and "pg_inv (ws_pg (world (cs_env s)))" and "plain_faults X (world (cs_env s))" and "plain_redis R"
    and "distinct (map dl_DeliveryTag ds)" and "dl \<in> set ds"
    and "cs_calls (process_batch uuid_ok \<lparr>dp_store = on_pg_store (pg_store X), dp_providers = Some reg\<rparr> m ds s) = cs_calls s @ calls"
    and "Ack (dl_DeliveryTag dl) multi \<in> set calls" and "by_operations X (world (cs_env s))"
  shows "(\<exists>ps. q = map marshal_notification ps
        \<and> mset ps + lost (sh_events (it_store it) @ evs') = accepted (sh_events (it_store it) @ evs')
        \<and> mset (map (\<lambda>np. Normalize (the np)) nps) \<subseteq># accepted (sh_events (it_store it) @ evs'))
     \<and> (\<forall>n. Some n \<in> set nps \<and> utf8_notification (Normalize n) \<and> is_go_map (n_Metadata n)
           \<and> dl_Body dl = marshal_notification (Normalize n) \<longrightarrow>
         (\<exists>k. (n_ID n \<noteq> [] \<longrightarrow> uuid_cast X (n_ID n) = Some k)
            \<and> (\<forall>r \<in> set (uniqueStrings (n_Recipients n)).
                 chosen (stored_preferences X r (world (cs_env s))) (Normalize n) ChannelSite
                 \<and> preferences_rest X r (world (cs_env s)) \<longrightarrow>
                 in_inbox X (n\<lparr>n_ID := k\<rparr>) r
                   (world (cs_env (process_batch uuid_ok \<lparr>dp_store = on_pg_store (pg_store X), dp_providers = Some reg\<rparr> m ds s))))))"
proof (intro conjI allI impI)
  fix n assume n: "Some n \<in> set nps \<and> utf8_notification (Normalize n) \<and> is_go_map (n_Metadata n)
      \<and> dl_Body dl = marshal_notification (Normalize n)"
  let ?w = "world (cs_env (process_batch uuid_ok \<lparr>dp_store = on_pg_store (pg_store X), dp_providers = Some reg\<rparr> m ds s))"
  obtain n' k c where n': "unmarshal_notification (dl_Body dl) = Some n'" and k: "n_ID n' \<noteq> [] \<longrightarrow> uuid_cast X (n_ID n') = Some k"
    and inbox: "\<And>r. r \<in> set (uniqueStrings (n_Recipients n')) \<Longrightarrow>
        chosen (stored_preferences X r (world (cs_env s))) (Normalize n') ChannelSite \<Longrightarrow> preferences_rest X r (world (cs_env s)) \<Longrightarrow>
        in_inbox X ((Normalize n')\<lparr>n_ID := k, n_CreatedAt := c\<rparr>) r ?w"
    using acknowledged_in_inbox [OF assms(6-16)] by blast
  from n n' have wire: "unmarshal_notification (marshal_notification (Normalize n)) = Some n'" by simp
  note same = wire_message [OF wire conjunct1 [OF conjunct2 [OF n]] conjunct1 [OF conjunct2 [OF conjunct2 [OF n]]]]
  have "in_inbox X (n\<lparr>n_ID := k\<rparr>) r ?w"
    if "r \<in> set (uniqueStrings (n_Recipients n))" "chosen (stored_preferences X r (world (cs_env s))) (Normalize n) ChannelSite"
      "preferences_rest X r (world (cs_env s))" for r
    using inbox [of r] that by (simp add: same(2,3) in_inbox_def)
  with k show "\<exists>k. (n_ID n \<noteq> [] \<longrightarrow> uuid_cast X (n_ID n) = Some k)
      \<and> (\<forall>r \<in> set (uniqueStrings (n_Recipients n)).
           chosen (stored_preferences X r (world (cs_env s))) (Normalize n) ChannelSite
           \<and> preferences_rest X r (world (cs_env s)) \<longrightarrow> in_inbox X (n\<lparr>n_ID := k\<rparr>) r ?w)"
    unfolding same(1) by blast
qed (rule accepted_request_published [OF assms(1-5)])

text \<open>
  A request with one notification; before it is submitted another request's notification comes in and the worker takes it.
\<close>

definition sample_shared :: "(unit \<times> string list) shared" where
  "sample_shared = \<lparr>sh_buffer = NewBuffer 2 1, sh_world = ((), []),
     sh_others = [[DoSubmit (Some zero_notification), DoTake 0]], sh_events = [], sh_taken = []\<rparr>"

definition sample_publish :: "string \<Rightarrow> unit \<times> string list \<Rightarrow> error \<times> unit \<times> string list" where
  "sample_publish = logged (PublishRaw quiet_amqp ''notify'')"

definition wire_delivery :: amqp_delivery where
  "wire_delivery = sample_delivery 7 (marshal_notification (Normalize sample_message))"

lemma sample_publish: "sample_publish body (w, q) = (None, w, q @ [body])"
  by (simp add: sample_publish_def logged_def PublishRaw_def quiet_amqp_def with_close_def)

lemma sample_retry: "publishWithRetry sample_publish n (w, q) = (True, [], w, q @ [marshal_notification n])"
  by (simp add: publishWithRetry_def maxAttempts_def upt_rec sample_publish)

lemma sample_acceptable: "fst (ValidateNotification (\<lambda>_. True) (Some sample_message)) = None"
  by code_simp

lemma sample_request_accepted:
  "ingest_ServeHTTP (\<lambda>_. True) (submit_shared sample_publish) (Inr [Some sample_message]) \<lparr>it_store = sample_shared, it_total = 0\<rparr>
     = (WriteJSON StatusAccepted [(''status'', BStr ''accepted''), (''accepted'', BInt 1)],
        \<lparr>it_store = \<lparr>sh_buffer = (NewBuffer 2 1)\<lparr>bf_ch := [Normalize sample_message], bf_workers := [Busy zero_notification]\<rparr>,
            sh_world = ((), []), sh_others = [], sh_events = [Accepted zero_notification, Accepted (Normalize sample_message)],
            sh_taken = [Normalize sample_message]\<rparr>, it_total = 1\<rparr>)"
proof -
  have "ValidateNotification (\<lambda>_. True) (Some sample_message) = (None, Some (Normalize sample_message))"
    using sample_acceptable by (simp add: ValidateNotification_def)
  then show ?thesis
    by (simp add: ingest_ServeHTTP_def submit_shared_def others_act_def sample_shared_def NewBuffer_def Submit_def
        submit_open_def Let_def)
qed

lemma sample_drained:
  "pipe_run sample_publish [DoFinish 0, DoTake 0, DoFinish 0, DoClose, DoStop 0]
     ((NewBuffer 2 1)\<lparr>bf_ch := [Normalize sample_message], bf_workers := [Busy zero_notification]\<rparr>, (), [])
   = Some ([Published zero_notification, Published (Normalize sample_message)],
       (NewBuffer 2 1)\<lparr>bf_closed := True, bf_workers := [Stopped], bf_EventsPublished := 2\<rparr>, (),
       [marshal_notification zero_notification, marshal_notification (Normalize sample_message)])"
  by (simp add: NewBuffer_def sample_retry finish_def Let_def)

lemma Dispatch_Normalize: "Dispatch uuid_ok d (Some (Normalize n)) e = Dispatch uuid_ok d (Some n) e"
  by (simp add: Dispatch_def ValidateNotification_def)

lemma wire_decoded: "unmarshal_notification (marshal_notification (Normalize sample_message)) = Some (Normalize sample_message)"
  "utf8_notification (Normalize sample_message)"
proof -
  show "utf8_notification (Normalize sample_message)" by code_simp
  from unmarshal_marshal_notification [OF this]
  show "unmarshal_notification (marshal_notification (Normalize sample_message)) = Some (Normalize sample_message)"
    by (simp add: Normalize_def sample_message_def zero_notification_def)
qed

lemma wire_batch:
  "cs_calls (process_batch (\<lambda>_. True) live_dispatcher 3 [wire_delivery] live_state) = cs_calls live_state @ [Ack 7 False]"
proof -
  obtain np e where "Dispatch (\<lambda>_. True) live_dispatcher (Some sample_message) live_env = ((None, np), e)"
    using live_dispatch_nil unfolding live_dispatcher_def by (metis prod.collapse)
  then show ?thesis
    by (simp add: process_batch_calls wire_delivery_def live_state_def decodable_def too_often_def deathCount_def
        sample_delivery_def wire_decoded(1) Dispatch_Normalize settlement_def)
qed

theorem request_reaches_inbox_witness:
  "\<exists>ps. [marshal_notification zero_notification, marshal_notification (Normalize sample_message)] = map marshal_notification ps
     \<and> mset ps = {#zero_notification, Normalize sample_message#}
     \<and> find_delivery ''a1'' ''r2'' (ws_pg (world (cs_env (process_batch (\<lambda>_. True)
          \<lparr>dp_store = on_pg_store (pg_store sample_server), dp_providers = Some live_registry\<rparr> 3 [wire_delivery] live_state)))) \<noteq> None"
proof -
  let ?w1 = "world (cs_env (process_batch (\<lambda>_. True)
          \<lparr>dp_store = on_pg_store (pg_store sample_server), dp_providers = Some live_registry\<rparr> 3 [wire_delivery] live_state))"
  have start: "pipe_run sample_publish [] (NewBuffer 2 1, (), []) =
      Some (sh_events sample_shared, sh_buffer sample_shared, sh_world sample_shared)" "shared_open sample_shared"
    by (simp_all add: sample_shared_def shared_open_def NewBuffer_def)
  have env: "cs_env live_state = live_env" by (simp add: live_state_def)
  have tag: "Ack (dl_DeliveryTag wire_delivery) False \<in> set [Ack 7 False]" "distinct (map dl_DeliveryTag [wire_delivery])"
      "wire_delivery \<in> set [wire_delivery]"
    by (simp_all add: wire_delivery_def sample_delivery_def)
  have facts: "Some sample_message \<in> set [Some sample_message] \<and> utf8_notification (Normalize sample_message)
      \<and> is_go_map (n_Metadata sample_message) \<and> dl_Body wire_delivery = marshal_notification (Normalize sample_message)"
    using wire_decoded(2) by (simp add: sample_message_def zero_notification_def wire_delivery_def sample_delivery_def)
  note all = request_reaches_inbox [OF start(1) [unfolded sample_publish_def] start(2)
      sample_request_accepted [unfolded sample_publish_def] _ _ live_registry live_facts [folded env] tag(2,3)
      wire_batch [unfolded live_dispatcher_def] tag(1) live_by_operations [folded env]]
  note result = all [unfolded intake.select_convs shared.select_convs, OF sample_drained [unfolded sample_publish_def]]
  have stopped: "workers_done ((NewBuffer 2 1)\<lparr>bf_closed := True, bf_workers := [Stopped], bf_EventsPublished := 2\<rparr>)"
    by (simp add: workers_done_def)
  obtain ps where ps: "[marshal_notification zero_notification, marshal_notification (Normalize sample_message)] = map marshal_notification ps"
      "mset ps = {#zero_notification, Normalize sample_message#}"
    using conjunct1 [OF result [OF stopped]] by (simp add: lost_def accepted_def map_filter_simps) metis
  obtain k where k: "n_ID sample_message \<noteq> [] \<longrightarrow> uuid_cast sample_server (n_ID sample_message) = Some k"
    and inbox: "\<forall>r \<in> set (uniqueStrings (n_Recipients sample_message)).
        chosen (stored_preferences sample_server r (world (cs_env live_state))) (Normalize sample_message) ChannelSite
        \<and> preferences_rest sample_server r (world (cs_env live_state)) \<longrightarrow>
        in_inbox sample_server (sample_message\<lparr>n_ID := k\<rparr>) r ?w1"
    using conjunct2 [OF result [OF stopped]] facts by blast
  have id: "n_ID sample_message = ''a1''" "uuid_cast sample_server ''a1'' = Some ''a1''" "uuid_cast sample_server ''r2'' = Some ''r2''"
    and r2: "''r2'' \<in> set (uniqueStrings (n_Recipients sample_message))"
      "chosen (stored_preferences sample_server ''r2'' (world live_env)) (Normalize sample_message) ChannelSite"
    by code_simp+
  with k have "k = ''a1''" by simp
  with inbox r2 id live_rest have "find_delivery ''a1'' ''r2'' (ws_pg ?w1) \<noteq> None" unfolding env by (fastforce simp: in_inbox_def)
  with ps show ?thesis by (intro exI [of _ ps] conjI)
qed

end
