(* ===== verification/Spec2Isabelle.thy ===== *)
theory Spec2Isabelle
  imports ConfigProps Metrics Calls Accepted
begin

text \<open>
  csar-notify is a notification service in Go. Notifications come in over HTTP, pass a bounded
  buffer and a RabbitMQ queue, and are dispatched to their recipients: to the inbox in
  PostgreSQL with a live event over Redis and server-sent events, to Telegram, and to the browsers'
  push services. Users read their inbox and set their preferences over HTTP. This library models the
  service from its sources under \<open>src/\<close> and proves what its parts promise, one by one and together.

  \<^bold>\<open>The parts and their theories.\<close> In the order in which a notification meets them:

  \<^item> \<open>Prelude\<close>, \<open>GoStrings\<close>, \<open>Json\<close>: shared lemmas; Go's \<open>strings\<close> on byte strings; \<open>encoding/json\<close> with
    its printer, parser and the decoding into structs.
  \<^item> \<open>Domain\<close> (\<open>internal/domain/types.go\<close>): notifications, normalisation, validation, topic filters and the
    wire form. \<open>Errors\<close> (\<open>internal/provider/errors.go\<close>): error values as trees, and their classification.
  \<^item> \<open>Http\<close>, \<open>Ingest\<close> (\<open>internal/ingest/http.go\<close>, \<open>internal/httpauth\<close>): requests, answers, the intake.
  \<^item> \<open>Pipeline\<close> (\<open>internal/pipeline/buffer.go\<close>): the buffer, its workers as steps of a transition
    system, the retries.
  \<^item> \<open>Rmq\<close> (\<open>internal/rmq\<close>): publisher, consumer session, batches, the reconnecting connection manager.
  \<^item> \<open>Consumer\<close>, \<open>ConsumerProps\<close> (\<open>internal/consumer/runner.go\<close>): decoding, settling, sessions, backoff.
  \<^item> \<open>Dispatch\<close>, \<open>DispatchProps\<close> (\<open>internal/dispatch/dispatcher.go\<close>): recipients, channels, the sends and
    the join of their errors. \<open>Calls\<close>: the calls of the providers, noted one by one. \<open>Provider\<close> (\<open>internal/provider/provider.go\<close>): the registry.
  \<^item> \<open>Store\<close>, \<open>StoreProps\<close>, \<open>StoreInbox\<close>, \<open>StoreQueries\<close> (\<open>internal/store/postgres.go\<close>): tables as lists of
    rows, every statement as an operation on them. \<open>StoreTrace\<close>: inbox items along sequences of operations.
  \<^item> \<open>Site\<close>, \<open>Telegram\<close>, \<open>Webpush\<close>, \<open>Vapid\<close> (\<open>internal/provider/...\<close>): the three channels, and the signed
    header of the push requests with its cache.
  \<^item> \<open>Hub\<close>, \<open>HubProps\<close> (\<open>internal/sse/hub.go\<close>): the event streams over a heap of Go channels. \<open>Live\<close>: the
    site provider and the hub together.
  \<^item> \<open>Handlers\<close>, \<open>HandlerProps\<close> (\<open>internal/inbox\<close>, \<open>preferences\<close>, \<open>pushsubscription\<close>, \<open>vapid\<close>): the users' API.
  \<^item> \<open>Config\<close>, \<open>ConfigProps\<close> (\<open>internal/config/config.go\<close>): configuration, defaults, validation, targets, bots.
  \<^item> \<open>Wiring\<close>, \<open>WiringProps\<close>, \<open>Delivered\<close> (\<open>cmd/csar-notify/main.go\<close>): the start-up with its deferred releases,
    routes, health checks and providers; the dispatch end to end. \<open>Settled\<close>: what the consumer's
    acknowledgement of a message means for the inboxes. \<open>Redelivered\<close>: what a second dispatch changes.
  \<^item> \<open>Api\<close>, \<open>ApiProps\<close>, \<open>ApiAnswers\<close>: the mux of \<open>main.go\<close> with all handlers as one operation \<open>serve\<close> on the
    state of the service; isolation of the users and non-interference between them.
  \<^item> \<open>Listed\<close>: API and consumer over one database; from an acknowledged message to the page of the list.
    \<open>Accepted\<close>: the intake, the buffer and the broker's confirmations; from a request to the inboxes.
  \<^item> \<open>Metrics\<close> (\<open>internal/metrics/metrics.go\<close>): the collectors and their registration.

  \<^bold>\<open>How code becomes a definition.\<close> A definition has the name of the Go function it models, prefixed by
  its package where names clash (\<open>site_Send\<close>, \<open>hub_New\<close>). A struct is a record, a Go map an association
  list whose order is the order in which a \<open>range\<close> meets the keys (statements hold for every order, or
  say otherwise), \<open>int\<close> is unbounded except where a computation can leave 64 bits (\<open>Rmq.wrap64\<close>), a string
  is a list of bytes. An \<open>error\<close> is \<open>None\<close> for nil; \<open>(T, error)\<close> is a sum. A panic is the result \<open>None\<close>
  of an operation that can panic. A goroutine is a part of a state with atomic steps: the workers
  of the buffer, the reconnect loop, the streams of the hub; interleavings are lists of steps. Operations on
  the outside world (database, AMQP, Redis, HTTP) act on a world \<open>'w\<close> and are fields of records that
  stand for the interfaces of the code; \<open>Store\<close> gives the database. In the world of the whole service
  (\<open>services\<close> in \<open>Site\<close>) the other users of the database act between any two statements of a dispatch: what
  they do is a component of the state, and theorems say under which condition on it (\<open>others_do\<close>) they hold.

  \<^bold>\<open>What the lemmas show.\<close> The store keeps its keys and references in every reachable state; its
  operations behave as an inbox, a preference table and a set of subscriptions. A dispatch refines a list of
  events, from which its calls, counters and error follow; no call is made twice. A session cuts its
  schedule into batches, which are settled exactly once and by the result of their dispatch. The buffer conserves messages and drains on close. The hub never panics
  and a stream carries its own events in order. The locales are the interfaces: \<open>inbox_store\<close> and
  \<open>dispatch_store\<close> (the store as the handlers and the dispatcher see it, interpreted on the PostgreSQL
  operations, the latter also on the world of the whole service) and \<open>submitter\<close> (the buffer as the intake
  sees it, alone and with the workers and other requests acting between its submissions). \<open>Live\<close>,
  \<open>Delivered\<close> and \<open>Settled\<close> compose the parts: an event of a successful send reaches the streams it is
  for, a dispatch that returns nil has reached every inbox it should, and so has a message that was
  acknowledged, while other users of the database act between the statements. Every part
  reaches the database by the operations of \<open>pg_op\<close> only (\<open>does\<close>, \<open>runs\<close>, \<open>trace_does\<close>), so that what
  holds along every sequence of operations (\<open>StoreTrace\<close>) holds for the service: an item stays in its owner's
  list until he dismisses it, a second delivery of a message adds no item (\<open>Redelivered\<close>), an acknowledged
  message is on one page of the list (\<open>Listed\<close>), and a request answered with 202 is published or
  counted as lost, notification by notification (\<open>Accepted\<close>). The
  HTTP interface is shown to keep the users apart by unwinding: a view of the state per user, which
  his own requests depend on alone and the requests of the others leave as it is.

  \<^bold>\<open>Bounds and fuel.\<close> No definition uses fuel. Loops over data are structural; the session loop ends because
  every round consumes an event of its schedule; a loop that is still waiting when its schedule ends
  is the result \<open>None\<close>. The bounds in statements are the code's: 16 payloads per stream, four attempts,
  at most 100 items per page, 1024 and 4096 bytes of an answer's body.

  \<^bold>\<open>Not modelled.\<close> Logging and tracing spans; the values of histograms and gauges (the counters are components
  of the states). Contexts, but for the points where the code waits for
  their end. The bodies of third-party code, which are parameters: the AMQP, Redis, HTTP and Web Push
  clients, PostgreSQL's casts, P-256 and JWT signing, \<open>net/url\<close>, \<open>net/mail\<close>, YAML, environment expansion,
  the middleware chain and the two HTTP servers. The execution of the migration's texts, whose tables
  are the record types. The nil receivers that no caller passes (a nil hub).
  What \<open>http.ServeMux\<close> does before a pattern is matched (path cleaning and its redirects).
  Concurrency inside one statement of the store: statements are atomic, and what happens between two of them
  is any sequence of operations.
\<close>

end
